(* ===== verification/Prelude.thy ===== *)
theory Prelude
  imports Main "HOL-Library.Sublist"
begin

section \<open>Shared types and lemmas\<close>

text \<open>
  What the component theories share.
  \<^item> \<open>result\<close>: how a C++ call ends: with a value, with a \<^verbatim>\<open>std::exception\<close> carrying its
    \<^verbatim>\<open>what()\<close> text, or with the program not going on in a defined way (\<^verbatim>\<open>std::terminate\<close>,
    which a \<^verbatim>\<open>throw;\<close> with no exception in flight calls, or undefined behaviour).
  \<^item> byte strings (\<open>string\<close> is a list of bytes, as \<^verbatim>\<open>std::string\<close> is): prefixes, suffixes,
    \<^verbatim>\<open>find\<close>, \<^verbatim>\<open>substr\<close>, decimal numerals as \<^verbatim>\<open>std::to_string\<close> prints them.
  \<^item> two collections of rewrite rules: \<open>str_simps\<close> for the string functions and \<open>fifo_simps\<close> for
    the list facts that the queue refinement uses.
\<close>

named_theorems str_simps \<open>facts on the string functions\<close>
named_theorems fifo_simps \<open>facts on prefixes of lists that the queue proofs use\<close>

subsection \<open>Outcomes of calls\<close>

datatype 'a result = Ok 'a | Throw string | Terminate

fun is_ok :: "'a result \<Rightarrow> bool" where
  "is_ok (Ok _) = True"
| "is_ok _ = False"

lemma map_result_Terminate [simp]: "map_result f r = Terminate \<longleftrightarrow> r = Terminate"
  by (cases r) simp_all

lemma is_ok_iff [simp]: "is_ok r \<longleftrightarrow> (\<exists>x. r = Ok x)"
  by (cases r) auto

subsection \<open>Strings\<close>

definition starts_with :: "string \<Rightarrow> string \<Rightarrow> bool" where
  "starts_with s p = prefix p s"

definition ends_with :: "string \<Rightarrow> string \<Rightarrow> bool" where
  "ends_with s p = suffix p s"

text \<open>\<^verbatim>\<open>s.find(p)\<close>: the position of the first occurrence.\<close>

fun find_str :: "string \<Rightarrow> string \<Rightarrow> nat option" where
  "find_str p [] = (if p = [] then Some 0 else None)"
| "find_str p (c # s) =
     (if prefix p (c # s) then Some 0 else map_option Suc (find_str p s))"

text \<open>\<^verbatim>\<open>s.find(p, from)\<close>.\<close>

definition find_from :: "string \<Rightarrow> string \<Rightarrow> nat \<Rightarrow> nat option" where
  "find_from p s from =
     (if from > length s then None else map_option (\<lambda>i. from + i) (find_str p (drop from s)))"

text \<open>\<^verbatim>\<open>s.substr(pos, n)\<close> and \<^verbatim>\<open>s.substr(pos)\<close> throw \<^verbatim>\<open>std::out_of_range\<close> when \<^verbatim>\<open>pos > s.size()\<close>.\<close>

definition substr :: "string \<Rightarrow> nat \<Rightarrow> nat \<Rightarrow> string result" where
  "substr s pos n =
     (if pos > length s then Throw ''basic_string::substr'' else Ok (take n (drop pos s)))"

definition substr_from :: "string \<Rightarrow> nat \<Rightarrow> string result" where
  "substr_from s pos =
     (if pos > length s then Throw ''basic_string::substr'' else Ok (drop pos s))"

definition isdigit :: "char \<Rightarrow> bool" where
  "isdigit c \<longleftrightarrow> (48::nat) \<le> of_char c \<and> (of_char c :: nat) \<le> 57"

definition digit_char :: "nat \<Rightarrow> char" where
  "digit_char d = char_of (48 + d mod 10)"

definition digit_val :: "char \<Rightarrow> nat" where
  "digit_val c = of_char c - 48"

text \<open>\<^verbatim>\<open>std::to_string\<close> on an unsigned and on a signed integer.\<close>

fun dec_nat :: "nat \<Rightarrow> string" where
  "dec_nat n = (if n < 10 then [digit_char n] else dec_nat (n div 10) @ [digit_char (n mod 10)])"

declare dec_nat.simps [simp del]

definition dec_int :: "int \<Rightarrow> string" where
  "dec_int i = (if i < 0 then CHR ''-'' # dec_nat (nat (- i)) else dec_nat (nat i))"

text \<open>The value of a sequence of decimal digits.\<close>

definition val_dec :: "string \<Rightarrow> nat" where
  "val_dec s = foldl (\<lambda>a c. 10 * a + digit_val c) 0 s"

text \<open>
  \<^verbatim>\<open>std::stoi\<close>: leading white space, a sign, digits, and whatever follows; it throws when there is no
  digit or the value is not a 32-bit \<^verbatim>\<open>int\<close>. \<open>stod_accepts\<close>: the texts on which \<^verbatim>\<open>std::stod\<close> finds a
  number, for magnitudes that a \<^verbatim>\<open>double\<close> holds.
\<close>

definition tolower :: "char \<Rightarrow> char" where
  "tolower c = (if (65::nat) \<le> of_char c \<and> (of_char c :: nat) \<le> 90 then char_of ((of_char c :: nat) + 32) else c)"

definition isspace :: "char \<Rightarrow> bool" where
  "isspace c \<longleftrightarrow> c = CHR '' '' \<or> (9::nat) \<le> of_char c \<and> (of_char c :: nat) \<le> 13"

fun split_sign :: "string \<Rightarrow> bool \<times> string" where
  "split_sign [] = (False, [])"
| "split_sign (c # s) = (if c = CHR ''-'' then (True, s) else if c = CHR ''+'' then (False, s) else (False, c # s))"

definition stoi :: "string \<Rightarrow> int result" where
  "stoi str =
     (let (negative, s) = split_sign (dropWhile isspace str);
          ds = takeWhile isdigit s;
          v = (if negative then - int (val_dec ds) else int (val_dec ds))
      in if ds = [] then Throw ''stoi''
         else if v < - (2 ^ 31) \<or> 2 ^ 31 \<le> v then Throw ''stoi'' else Ok v)"

definition stod_accepts :: "string \<Rightarrow> bool" where
  "stod_accepts str =
     (let s = snd (split_sign (dropWhile isspace str)) in
      (case s of
         c # cs \<Rightarrow> isdigit c \<or> c = CHR ''.'' \<and> cs \<noteq> [] \<and> isdigit (hd cs) \<or>
           map tolower (take 3 s) \<in> {''inf'', ''nan''}
       | [] \<Rightarrow> False))"

subsubsection \<open>Facts\<close>

lemma starts_with_append [simp, str_simps]: "starts_with (p @ s) p"
  by (simp add: starts_with_def)

lemma starts_with_iff: "starts_with s p \<longleftrightarrow> (\<exists>r. s = p @ r)"
  by (auto simp: starts_with_def prefix_def)

lemma ends_with_append [simp, str_simps]: "ends_with (s @ p) p"
  by (auto simp: ends_with_def suffix_def)

lemma ends_with_iff: "ends_with s p \<longleftrightarrow> (\<exists>r. s = r @ p)"
  by (auto simp: ends_with_def suffix_def)

lemma find_str_bound: "find_str p s = Some i \<Longrightarrow> i + length p \<le> length s"
proof (induction s arbitrary: i)
  case Nil
  then show ?case by (auto split: if_splits)
next
  case (Cons c s)
  then show ?case by (auto split: if_splits dest: prefix_length_le)
qed

lemma find_str_at: "find_str p s = Some i \<Longrightarrow> prefix p (drop i s)"
  by (induction s arbitrary: i) (auto split: if_splits)

lemma find_str_first: "find_str p s = Some i \<Longrightarrow> j < i \<Longrightarrow> \<not> prefix p (drop j s)"
proof (induction s arbitrary: i j)
  case Nil
  then show ?case by (auto split: if_splits)
next
  case (Cons c s)
  then show ?case by (cases j) (auto split: if_splits)
qed

lemma find_str_None: "find_str p s = None \<Longrightarrow> \<not> prefix p (drop j s)"
proof (induction s arbitrary: j)
  case Nil
  then show ?case by (auto split: if_splits)
next
  case (Cons c s)
  then show ?case by (cases j) (auto split: if_splits)
qed

lemma digit_char_val [simp]: "digit_val (digit_char d) = d mod 10"
  by (simp add: digit_val_def digit_char_def)

lemma digit_char_isdigit [simp]: "isdigit (digit_char d)"
  by (simp add: isdigit_def digit_char_def)

lemma val_dec_snoc: "val_dec (s @ [c]) = 10 * val_dec s + digit_val c"
  by (simp add: val_dec_def)

lemma val_dec_Nil [simp]: "val_dec [] = 0"
  by (simp add: val_dec_def)

text \<open>Printing a number and reading it back gives the number.\<close>

lemma val_dec_nat [simp, str_simps]: "val_dec (dec_nat n) = n"
proof (induction n rule: dec_nat.induct)
  case (1 n)
  show ?case
  proof (cases "n < 10")
    case True
    then show ?thesis by (subst dec_nat.simps) (simp add: val_dec_def)
  next
    case False
    with "1.IH" show ?thesis by (subst dec_nat.simps) (simp add: val_dec_snoc)
  qed
qed

lemma dec_nat_digits: "list_all isdigit (dec_nat n)"
proof (induction n rule: dec_nat.induct)
  case (1 n)
  then show ?case by (cases "n < 10") (subst dec_nat.simps, simp)+
qed

lemma dec_nat_nonempty [simp]: "dec_nat n \<noteq> []"
  by (subst dec_nat.simps) simp

lemma dec_nat_inject [simp]: "dec_nat m = dec_nat n \<longleftrightarrow> m = n"
  by (metis val_dec_nat)

lemma dec_nat_no_minus: "CHR ''-'' \<notin> set (dec_nat n)"
  using dec_nat_digits [of n] by (auto simp: list_all_iff isdigit_def)

lemma dec_int_inject [simp]: "dec_int i = dec_int j \<longleftrightarrow> i = j"
proof
  assume eq: "dec_int i = dec_int j"
  have minus: "CHR ''-'' \<in> set (dec_int k) \<longleftrightarrow> k < 0" for k
    by (auto simp: dec_int_def dec_nat_no_minus)
  from eq have "(i < 0) = (j < 0)" by (simp add: minus [symmetric])
  with eq show "i = j" by (auto simp: dec_int_def split: if_splits)
qed simp

lemma stoi_dec_int:
  assumes "- (2 ^ 31) \<le> i" "i < 2 ^ 31"
  shows "stoi (dec_int i) = Ok i"
proof -
  have sp: "\<not> isspace c" if "isdigit c" for c using that by (auto simp: isspace_def isdigit_def)
  have d: "dropWhile isspace (dec_nat n) = dec_nat n" "takeWhile isdigit (dec_nat n) = dec_nat n"
    "split_sign (dec_nat n) = (False, dec_nat n)" for n
    using dec_nat_digits [of n] dec_nat_nonempty [of n]
    by (cases "dec_nat n"; auto simp: list_all_iff sp isdigit_def)+
  have "\<not> isspace (CHR ''-'')" by (simp add: isspace_def)
  with assms show ?thesis by (simp add: stoi_def dec_int_def Let_def d)
qed

subsection \<open>Prefixes of lists\<close>

lemma take_append_prefix [fifo_simps]:
  "n \<le> length xs \<Longrightarrow> take n (xs @ ys) = take n xs"
  by simp

lemma drop_append_prefix [fifo_simps]:
  "n \<le> length xs \<Longrightarrow> drop n (xs @ ys) = drop n xs @ ys"
  by simp

lemma take_min_length: "take (min n (length xs)) xs = take n xs"
  by (simp add: min_def)

text \<open>Dropping the first \<open>n\<close> elements that satisfy \<open>p\<close>, and taking them.\<close>

fun remove_n :: "nat \<Rightarrow> ('a \<Rightarrow> bool) \<Rightarrow> 'a list \<Rightarrow> 'a list" where
  "remove_n n p [] = []"
| "remove_n n p (x # xs) =
     (if p x then (case n of 0 \<Rightarrow> x # xs | Suc m \<Rightarrow> remove_n m p xs) else x # remove_n n p xs)"

lemma remove_n_0 [simp, fifo_simps]: "remove_n 0 p xs = xs"
  by (induction xs) auto

lemma remove_n_True [fifo_simps]: "remove_n n (\<lambda>_. True) xs = drop n xs"
  by (induction xs arbitrary: n) (auto split: nat.splits)

lemma remove_n_all: "length (filter p xs) \<le> n \<Longrightarrow> remove_n n p xs = filter (\<lambda>x. \<not> p x) xs"
  by (induction n p xs rule: remove_n.induct) (auto split: nat.splits)

lemma map_remove_n: "map f (remove_n n (\<lambda>x. p (f x)) xs) = remove_n n p (map f xs)"
  by (induction xs arbitrary: n) (auto split: nat.splits)

lemma length_remove_n:
  "length (remove_n n p xs) + min n (length (filter p xs)) = length xs"
  by (induction n p xs rule: remove_n.induct) (auto split: nat.splits)

lemma filter_remove_n: "filter p (remove_n n p xs) = drop n (filter p xs)"
  by (induction n p xs rule: remove_n.induct) (auto split: nat.splits)

lemma filter_other_remove_n:
  "(\<And>x. q x \<Longrightarrow> \<not> p x) \<Longrightarrow> filter q (remove_n n p xs) = filter q xs"
  by (induction n p xs rule: remove_n.induct) (auto split: nat.splits)

text \<open>
  Deleting, by a key that is distinct over the list, the first \<open>n\<close> elements that satisfy \<open>p\<close>.
\<close>

lemma filter_key_remove_n:
  assumes "distinct (map key xs)"
  shows "filter (\<lambda>x. key x \<notin> key ` set (take n (filter p xs))) xs = remove_n n p xs"
  using assms
proof (induction n p xs rule: remove_n.induct)
  case (2 n p x xs)
  then have notin: "key x \<notin> key ` set xs" and dist: "distinct (map key xs)" by auto
  have sub: "key ` set (take m (filter p xs)) \<subseteq> key ` set xs" for m
    by (auto dest: in_set_takeD)
  show ?case
  proof (cases "p x")
    case False
    with notin sub [of n] have "key x \<notin> key ` set (take n (filter p xs))" by blast
    with 2 dist False show ?thesis by simp
  next
    case True
    show ?thesis
    proof (cases n)
      case 0
      with True show ?thesis by simp
    next
      case (Suc m)
      have "filter (\<lambda>y. key y \<noteq> key x \<and> key y \<notin> key ` set (take m (filter p xs))) xs
          = filter (\<lambda>y. key y \<notin> key ` set (take m (filter p xs))) xs"
        using notin by (intro filter_cong refl) (metis image_eqI)
      with 2 dist True Suc show ?thesis by simp
    qed
  qed
qed simp

text \<open>\<open>k\<close> of the elements of \<open>xs\<close> that satisfy \<open>p\<close> are gone in \<open>ys\<close>, and nothing else changed.\<close>

definition removed_some :: "('a \<Rightarrow> bool) \<Rightarrow> nat \<Rightarrow> 'a list \<Rightarrow> 'a list \<Rightarrow> bool" where
  "removed_some p k xs ys \<longleftrightarrow>
     subseq ys xs \<and> length ys + k = length xs \<and> filter (\<lambda>x. \<not> p x) ys = filter (\<lambda>x. \<not> p x) xs"

lemma removed_some_refl: "removed_some p 0 xs xs"
  by (simp add: removed_some_def)

lemma removed_some_map:
  "removed_some (\<lambda>x. p (f x)) k xs ys \<Longrightarrow> removed_some p k (map f xs) (map f ys)"
  by (auto simp: removed_some_def filter_map o_def subseq_map)

lemma removed_some_remove_n: "removed_some p (min n (length (filter p xs))) xs (remove_n n p xs)"
proof -
  have "subseq (remove_n n p xs) xs"
    by (induction n p xs rule: remove_n.induct) (auto split: nat.splits)
  then show ?thesis by (simp add: removed_some_def length_remove_n filter_other_remove_n)
qed

lemma subseq_imp_distinct: "subseq xs ys \<Longrightarrow> distinct ys \<Longrightarrow> distinct xs"
  by (induction rule: list_emb.induct) (auto dest: list_emb_set)

lemma removed_some_key:
  assumes dist: "distinct (map key xs)" and gone: "gone \<subseteq> key ` set (filter p xs)"
  shows "removed_some p (card gone) xs (filter (\<lambda>x. key x \<notin> gone) xs)"
proof -
  have inj: "inj_on key (set xs)" using dist by (simp add: distinct_map)
  have "gone = key ` set (filter (\<lambda>x. key x \<in> gone) xs)" using gone by auto
  then have "card gone = length (filter (\<lambda>x. key x \<in> gone) xs)"
    using dist by (metis distinct_card distinct_map_filter length_map set_map)
  then have "length (filter (\<lambda>x. key x \<notin> gone) xs) + card gone = length xs"
    using sum_length_filter_compl [of "\<lambda>x. key x \<in> gone" xs] by simp
  moreover have "filter (\<lambda>x. \<not> p x) (filter (\<lambda>x. key x \<notin> gone) xs) = filter (\<lambda>x. \<not> p x) xs"
  proof -
    have "key x \<notin> gone" if "x \<in> set xs" "\<not> p x" for x
      using that gone inj by (auto dest!: subsetD inj_onD)
    then show ?thesis by (auto intro!: filter_cong)
  qed
  ultimately show ?thesis by (simp add: removed_some_def)
qed

end
