(* ===== verification/Persistence.thy ===== *)
theory Persistence
  imports Prelude "HOL-Library.Multiset"
begin

section \<open>The persistence interface\<close>

text \<open>
  \<^verbatim>\<open>src/src/agent/persistence/include\<close>: the columns of \<^verbatim>\<open>column.hpp\<close> and the abstract class
  \<^verbatim>\<open>Persistence\<close> of \<^verbatim>\<open>persistence.hpp\<close>. The class is a record of its virtual methods over a type
  \<open>'db\<close> of database states, and the stores of the agent (the message queue's storage, the command
  store, the agent's identity) take such a record as an argument.

  The locale \<open>persistence_laws\<close> is the contract of that interface, over an abstraction of the
  database as a map from table names to tables: what a call that succeeds did, and that a call that
  throws left the tables alone. \<open>reliable_persistence\<close> adds that a call whose arguments satisfy the
  table's constraints does succeed. \<open>mem_persistence\<close> is a reference implementation in memory, and
  satisfies both; \<^verbatim>\<open>SQLiteManager\<close>, the implementation the agent ships, is treated in its own theory.
\<close>

subsection \<open>Columns\<close>

datatype LogicalOperator = AND | OR

datatype OrderType = ASC | DESC

datatype ColumnType = INTEGER | TEXT | REAL

record ColumnName =
  Name :: string
  Type :: ColumnType

record ColumnKey = ColumnName +
  Attributes :: nat

record ColumnValue = ColumnName +
  Value :: string

definition NONE :: nat where "NONE = 0"
definition NOT_NULL :: nat where "NOT_NULL = 1"
definition PRIMARY_KEY :: nat where "PRIMARY_KEY = 2"
definition AUTO_INCREMENT :: nat where "AUTO_INCREMENT = 4"

text \<open>\<^verbatim>\<open>col.Attributes & flag\<close>, for the one-bit flags.\<close>

definition has_attr :: "ColumnKey \<Rightarrow> nat \<Rightarrow> bool" where
  "has_attr c flag \<longleftrightarrow> (Attributes c div flag) mod 2 = 1"

lemmas attr_defs = has_attr_def NONE_def NOT_NULL_def PRIMARY_KEY_def AUTO_INCREMENT_def

definition col_name :: "string \<Rightarrow> ColumnType \<Rightarrow> ColumnName" where
  "col_name n t = \<lparr>Name = n, Type = t\<rparr>"

definition col_key :: "string \<Rightarrow> ColumnType \<Rightarrow> nat \<Rightarrow> ColumnKey" where
  "col_key n t a = \<lparr>Name = n, Type = t, Attributes = a\<rparr>"

definition col_value :: "string \<Rightarrow> ColumnType \<Rightarrow> string \<Rightarrow> ColumnValue" where
  "col_value n t v = \<lparr>Name = n, Type = t, Value = v\<rparr>"

type_synonym Names = "ColumnName list"
type_synonym Keys = "ColumnKey list"
type_synonym Row = "ColumnValue list"
type_synonym Criteria = "ColumnValue list"
type_synonym TransactionId = nat

subsection \<open>The virtual methods\<close>

record 'db persistence =
  TableExists :: "string \<Rightarrow> 'db \<Rightarrow> bool"
  CreateTable :: "string \<Rightarrow> Keys \<Rightarrow> 'db \<Rightarrow> unit result \<times> 'db"
  Insert :: "string \<Rightarrow> Row \<Rightarrow> 'db \<Rightarrow> unit result \<times> 'db"
  Update :: "string \<Rightarrow> Row \<Rightarrow> Criteria \<Rightarrow> LogicalOperator \<Rightarrow> 'db \<Rightarrow> unit result \<times> 'db"
  Remove :: "string \<Rightarrow> Criteria \<Rightarrow> LogicalOperator \<Rightarrow> 'db \<Rightarrow> unit result \<times> 'db"
  DropTable :: "string \<Rightarrow> 'db \<Rightarrow> unit result \<times> 'db"
  Select :: "string \<Rightarrow> Names \<Rightarrow> Criteria \<Rightarrow> LogicalOperator \<Rightarrow> Names \<Rightarrow> OrderType \<Rightarrow> int \<Rightarrow> 'db
    \<Rightarrow> Row list result"
  GetCount :: "string \<Rightarrow> Criteria \<Rightarrow> LogicalOperator \<Rightarrow> 'db \<Rightarrow> int result"
  GetSize :: "string \<Rightarrow> Names \<Rightarrow> Criteria \<Rightarrow> LogicalOperator \<Rightarrow> 'db \<Rightarrow> nat result"
  BeginTransaction :: "'db \<Rightarrow> TransactionId result \<times> 'db"
  CommitTransaction :: "TransactionId \<Rightarrow> 'db \<Rightarrow> unit result \<times> 'db"
  RollbackTransaction :: "TransactionId \<Rightarrow> 'db \<Rightarrow> unit result \<times> 'db"

subsection \<open>Tables, as the contract sees them\<close>

record trow =
  rowid :: int
  cells :: "(string \<times> (ColumnType \<times> string)) list"

record table =
  cols :: Keys
  trows :: "trow list"

text \<open>
  \<open>canon\<close> is the text that reading a stored value gives back: the value itself for \<^verbatim>\<open>TEXT\<close> and for a
  decimal \<^verbatim>\<open>INTEGER\<close>; the database prints \<^verbatim>\<open>REAL\<close> values its own way. A column that a row does not
  have is \<^verbatim>\<open>NULL\<close>. The column \<^verbatim>\<open>rowid\<close> is the database's own.
\<close>

type_synonym canon = "ColumnType \<Rightarrow> string \<Rightarrow> string"

definition cell :: "trow \<Rightarrow> string \<Rightarrow> (ColumnType \<times> string) option" where
  "cell r n = (if n = ''rowid'' then Some (INTEGER, dec_int (rowid r)) else map_of (cells r) n)"

definition cell_text :: "trow \<Rightarrow> string \<Rightarrow> string" where
  "cell_text r n = (case cell r n of None \<Rightarrow> [] | Some (_, v) \<Rightarrow> v)"

definition stored_cell :: "canon \<Rightarrow> ColumnValue \<Rightarrow> string \<times> (ColumnType \<times> string)" where
  "stored_cell canon c = (Name c, (Type c, canon (Type c) (Value c)))"

definition new_row :: "canon \<Rightarrow> int \<Rightarrow> Row \<Rightarrow> trow" where
  "new_row canon i fs = \<lparr>rowid = i, cells = map (stored_cell canon) fs\<rparr>"

definition crit_holds :: "canon \<Rightarrow> ColumnValue \<Rightarrow> trow \<Rightarrow> bool" where
  "crit_holds canon c r \<longleftrightarrow> map_option snd (cell r (Name c)) = Some (canon (Type c) (Value c))"

definition row_matches :: "canon \<Rightarrow> LogicalOperator \<Rightarrow> Criteria \<Rightarrow> trow \<Rightarrow> bool" where
  "row_matches canon op cs r \<longleftrightarrow>
     (cs = [] \<or>
      (case op of AND \<Rightarrow> list_all (\<lambda>c. crit_holds canon c r) cs
       | OR \<Rightarrow> list_ex (\<lambda>c. crit_holds canon c r) cs))"

definition project :: "table \<Rightarrow> Names \<Rightarrow> trow \<Rightarrow> Row" where
  "project T flds r =
     map (\<lambda>n. \<lparr>Name = n,
               Type = (case cell r n of None \<Rightarrow> TEXT | Some (t, _) \<Rightarrow> t),
               Value = cell_text r n\<rparr>)
       (if flds = [] then map Name (cols T) else map Name flds)"

text \<open>\<^verbatim>\<open>LIMIT\<close> is only written for a positive limit.\<close>

definition limit_rows :: "int \<Rightarrow> 'a list \<Rightarrow> 'a list" where
  "limit_rows n xs = (if n > 0 then take (nat n) xs else xs)"

definition upd_row :: "canon \<Rightarrow> Row \<Rightarrow> trow \<Rightarrow> trow" where
  "upd_row canon fs r = r\<lparr>cells := map (stored_cell canon) fs @ cells r\<rparr>"

definition key_cols :: "table \<Rightarrow> string list" where
  "key_cols T = map Name (filter (\<lambda>c. has_attr c PRIMARY_KEY \<and> \<not> has_attr c AUTO_INCREMENT) (cols T))"

definition key_of :: "table \<Rightarrow> trow \<Rightarrow> (ColumnType \<times> string) option list" where
  "key_of T r = map (map_of (cells r)) (key_cols T)"

text \<open>The constraints a row must satisfy to enter a table.\<close>

definition row_admissible :: "canon \<Rightarrow> table \<Rightarrow> Row \<Rightarrow> bool" where
  "row_admissible canon T fs \<longleftrightarrow>
     set (map Name fs) \<subseteq> set (map Name (cols T)) \<and> distinct (map Name fs) \<and>
     (\<forall>c\<in>set (cols T). has_attr c NOT_NULL \<and> \<not> has_attr c AUTO_INCREMENT \<longrightarrow>
        Name c \<in> set (map Name fs)) \<and>
     (key_cols T = [] \<or> key_of T (new_row canon 0 fs) \<notin> key_of T ` set (trows T))"

definition keys_unique :: "table \<Rightarrow> bool" where
  "keys_unique T \<longleftrightarrow> (key_cols T = [] \<or> distinct (map (key_of T) (trows T)))"

text \<open>
  \<^verbatim>\<open>LENGTH\<close> of a \<^verbatim>\<open>TEXT\<close> value counts characters, not bytes: a byte from \<open>0xC0\<close> on and the continuation bytes that
  follow it are one character, any other byte is one by itself. The interface (\<^verbatim>\<open>persistence.hpp\<close>)
  documents the size in bytes; the two agree on ASCII text only (lemma \<open>utf8_length_ascii\<close>). A row with a \<^verbatim>\<open>NULL\<close> column adds nothing to the \<^verbatim>\<open>SUM\<close>. The sum is read as a 32-bit unsigned, the
  count as a 32-bit signed integer.
\<close>

definition continues :: "char \<Rightarrow> bool" where
  "continues c \<longleftrightarrow> (128::nat) \<le> of_char c \<and> (of_char c :: nat) < 192"

function utf8_length :: "string \<Rightarrow> nat" where
  "utf8_length [] = 0"
| "utf8_length (c # s) = 1 + utf8_length (if (192::nat) \<le> of_char c then dropWhile continues s else s)"
  by pat_completeness auto
termination
  by (relation "measure length") (auto simp: le_imp_less_Suc length_dropWhile_le)

lemma utf8_length_le: "utf8_length s \<le> length s"
proof (induction s rule: utf8_length.induct)
  case (2 c s)
  then show ?case using length_dropWhile_le [of continues s] by (auto split: if_splits)
qed simp

lemma utf8_length_ascii: "list_all (\<lambda>c. (of_char c :: nat) < 128) s \<Longrightarrow> utf8_length s = length s"
  by (induction s) auto

definition row_size :: "Names \<Rightarrow> trow \<Rightarrow> nat" where
  "row_size flds r =
     (if list_all (\<lambda>f. cell r (Name f) \<noteq> None) flds
      then sum_list (map (\<lambda>f. utf8_length (cell_text r (Name f))) flds) else 0)"

definition as_int32 :: "int \<Rightarrow> int" where
  "as_int32 n = (n + 2 ^ 31) mod 2 ^ 32 - 2 ^ 31"

definition as_uint32 :: "nat \<Rightarrow> nat" where
  "as_uint32 n = n mod 2 ^ 32"

abbreviation map_trows :: "(trow list \<Rightarrow> trow list) \<Rightarrow> table \<Rightarrow> table" where
  "map_trows f T \<equiv> T\<lparr>trows := f (trows T)\<rparr>"

abbreviation sel :: "canon \<Rightarrow> LogicalOperator \<Rightarrow> Criteria \<Rightarrow> table \<Rightarrow> trow list" where
  "sel canon op cs T \<equiv> filter (row_matches canon op cs) (trows T)"

subsection \<open>The contract\<close>

text \<open>
  The calls that the contract speaks of: table and column names are SQL identifiers, a value has the
  type of its column, numbers are written as decimal numerals, those of an \<^verbatim>\<open>INTEGER\<close> column as integers of at
  most 18 digits, which fit its 64 bits, nothing is compared with a \<^verbatim>\<open>REAL\<close> column, and a column that the
  database numbers itself is neither written nor read, not as \<^verbatim>\<open>rowid\<close> either.
\<close>

definition ident_char :: "char \<Rightarrow> bool" where
  "ident_char c \<longleftrightarrow> isdigit c \<or> (65::nat) \<le> of_char c \<and> (of_char c :: nat) \<le> 90 \<or>
     (97::nat) \<le> of_char c \<and> (of_char c :: nat) \<le> 122 \<or> c = CHR ''_''"

text \<open>The reserved words of the database's SQL, in any case; names that begin with \<^verbatim>\<open>sqlite_\<close> are its own.\<close>

definition sql_keywords :: "string list" where
  "sql_keywords =
     [''add'', ''all'', ''alter'', ''and'', ''as'', ''autoincrement'', ''between'', ''case'', ''check'',
      ''collate'', ''commit'', ''constraint'', ''create'', ''current_date'', ''current_time'', ''current_timestamp'', ''default'', ''deferrable'', ''delete'',
      ''distinct'', ''drop'', ''else'', ''escape'', ''except'', ''exists'', ''false'', ''foreign'', ''from'', ''group'',
      ''having'', ''if'', ''in'', ''index'', ''insert'', ''intersect'', ''into'', ''is'', ''isnull'', ''join'',
      ''limit'', ''not'', ''nothing'', ''notnull'', ''null'', ''on'', ''or'', ''order'', ''primary'',
      ''references'', ''returning'', ''select'', ''set'', ''table'', ''then'', ''to'', ''transaction'',
      ''true'', ''union'', ''unique'', ''update'', ''using'', ''values'', ''when'', ''where'']"

definition ident :: "string \<Rightarrow> bool" where
  "ident s \<longleftrightarrow> s \<noteq> [] \<and> list_all ident_char s \<and> \<not> isdigit (hd s) \<and> map tolower s \<notin> set sql_keywords \<and>
     map tolower (take 7 s) \<noteq> ''sqlite_''"

lemmas ident_eval = ident_def ident_char_def isdigit_def sql_keywords_def tolower_def

lemma ident_rowid: "ident ''rowid''"
  by (simp add: ident_eval)

definition number_text :: "string \<Rightarrow> bool" where
  "number_text s =
     (let u = (case s of [] \<Rightarrow> [] | c # cs \<Rightarrow> if c = CHR ''-'' then cs else s);
          rest = dropWhile isdigit u
      in takeWhile isdigit u \<noteq> [] \<and>
         (rest = [] \<or> hd rest = CHR ''.'' \<and> tl rest \<noteq> [] \<and> list_all isdigit (tl rest)))"

definition int_text :: "string \<Rightarrow> bool" where
  "int_text s = (let u = (case s of [] \<Rightarrow> [] | c # cs \<Rightarrow> if c = CHR ''-'' then cs else s) in u \<noteq> [] \<and> list_all isdigit u)"

definition value_ok :: "ColumnType \<Rightarrow> string \<Rightarrow> bool" where
  "value_ok ty v =
     (case ty of TEXT \<Rightarrow> True | INTEGER \<Rightarrow> int_text v \<and> length v \<le> 18 | REAL \<Rightarrow> number_text v)"

definition col_ok :: "Keys \<Rightarrow> ColumnValue \<Rightarrow> bool" where
  "col_ok ks c \<longleftrightarrow>
     (Name c, Type c) \<in> set (map (\<lambda>k. (Name k, Type k)) (filter (\<lambda>k. \<not> has_attr k AUTO_INCREMENT) ks)) \<and>
     value_ok (Type c) (Value c)"

definition crit_ok :: "Keys \<Rightarrow> ColumnValue \<Rightarrow> bool" where
  "crit_ok ks c \<longleftrightarrow> Type c \<noteq> REAL \<and>
     (col_ok ks c \<or> Name c = ''rowid'' \<and> Type c = INTEGER \<and> int_text (Value c))"

definition row_ok :: "Keys \<Rightarrow> Row \<Rightarrow> bool" where
  "row_ok ks fs \<longleftrightarrow> fs \<noteq> [] \<and> list_all (col_ok ks) fs \<and> distinct (map Name fs)"

definition crits_ok :: "Keys \<Rightarrow> Criteria \<Rightarrow> bool" where
  "crits_ok ks cs \<longleftrightarrow> list_all (crit_ok ks) cs"

definition flds_ok :: "Keys \<Rightarrow> Names \<Rightarrow> bool" where
  "flds_ok ks flds \<longleftrightarrow>
     (if flds = [] then list_all (\<lambda>k. \<not> has_attr k AUTO_INCREMENT) ks
      else list_all (\<lambda>f. Name f = ''rowid'' \<and> list_all (\<lambda>k. \<not> has_attr k AUTO_INCREMENT) ks \<or> list_ex (\<lambda>k. Name k = Name f \<and> \<not> has_attr k AUTO_INCREMENT) ks) flds)"

text \<open>
  A table's only \<^verbatim>\<open>INTEGER\<close> primary key is its row identifier and is numbered by the database. The
  other columns of a primary key are not null, and no \<^verbatim>\<open>REAL\<close> column is part of one. Names of columns and of
  tables are the same when they differ in case only.
\<close>

definition same_name :: "string \<Rightarrow> string \<Rightarrow> bool" where
  "same_name s t \<longleftrightarrow> map tolower s = map tolower t"

lemmas same_name_eval = same_name_def tolower_def

lemma same_name_refl [simp]: "same_name s s"
  by (simp add: same_name_def)

lemma same_name_sym: "same_name s t \<Longrightarrow> same_name t s"
  by (simp add: same_name_def)

text \<open>No two tables have the same name; \<open>t\<close> is not the name of another table.\<close>

definition names_apart :: "(string \<Rightarrow> 'a option) \<Rightarrow> bool" where
  "names_apart ts \<longleftrightarrow> (\<forall>t u. ts t \<noteq> None \<longrightarrow> ts u \<noteq> None \<longrightarrow> same_name t u \<longrightarrow> t = u)"

definition name_free :: "(string \<Rightarrow> 'a option) \<Rightarrow> string \<Rightarrow> bool" where
  "name_free ts t \<longleftrightarrow> (\<forall>u. ts u \<noteq> None \<longrightarrow> same_name u t \<longrightarrow> u = t)"

lemma names_apart_free: "names_apart ts \<Longrightarrow> ts t \<noteq> None \<Longrightarrow> name_free ts t"
  unfolding names_apart_def name_free_def by metis

lemma names_apart_upd:
  "names_apart ts \<Longrightarrow> name_free ts t \<Longrightarrow> names_apart (ts(t \<mapsto> T))"
  "names_apart ts \<Longrightarrow> names_apart (ts(t := None))"
  by (auto simp: names_apart_def name_free_def dest: same_name_sym split: if_splits)

lemma name_free_upd:
  "name_free ts t \<Longrightarrow> name_free (ts(u := None)) t"
  "name_free ts t \<Longrightarrow> \<not> same_name u t \<Longrightarrow> name_free (ts(u \<mapsto> T)) t"
  by (auto simp: name_free_def split: if_splits)

lemma names_apart_simps [simp]: "names_apart Map.empty" "names_apart [t \<mapsto> T]"
  by (simp_all add: names_apart_def split: if_splits)

definition key_ok :: "Keys \<Rightarrow> ColumnKey \<Rightarrow> bool" where
  "key_ok ks k \<longleftrightarrow>
     ident (Name k) \<and> \<not> same_name (Name k) ''rowid'' \<and> Attributes k < 8 \<and>
     (has_attr k PRIMARY_KEY \<longrightarrow> has_attr k NOT_NULL \<and> Type k \<noteq> REAL) \<and>
     (has_attr k AUTO_INCREMENT \<longleftrightarrow> Type k = INTEGER \<and> filter (\<lambda>c. has_attr c PRIMARY_KEY) ks = [k])"

definition keys_ok :: "Keys \<Rightarrow> bool" where
  "keys_ok ks \<longleftrightarrow> ks \<noteq> [] \<and> list_all (key_ok ks) ks \<and> distinct (map (\<lambda>k. map tolower (Name k)) ks)"

text \<open>
  \<open>tables\<close> is the database as the tables it holds, \<open>saved\<close> the open transaction, if there is one,
  with the tables as they were when it began, \<open>inv\<close> whatever the implementation keeps. A new row
  gets a row identifier greater than those in the table, which is what an SQLite table without
  \<^verbatim>\<open>AUTOINCREMENT\<close> does as long as the largest identifier is below \<open>2 ^ 63 - 1\<close>.
\<close>

locale persistence_laws =
  fixes P :: "'db persistence"
    and tables :: "'db \<Rightarrow> string \<Rightarrow> table option"
    and saved :: "'db \<Rightarrow> (TransactionId \<times> (string \<Rightarrow> table option)) option"
    and canon :: canon
    and inv :: "'db \<Rightarrow> bool"
  assumes canon_text: "canon TEXT v = v"
    and canon_integer: "canon INTEGER (dec_int i) = dec_int i"
    and rowids_ascend: "inv db \<Longrightarrow> tables db t = Some T \<Longrightarrow> sorted_wrt (<) (map rowid (trows T))"
    and table_keys: "inv db \<Longrightarrow> tables db t = Some T \<Longrightarrow> keys_unique T"
    and TableExists_law: "inv db \<Longrightarrow> ident t \<Longrightarrow> TableExists P t db \<Longrightarrow> tables db t \<noteq> None"
    and CreateTable_law: "inv db \<Longrightarrow> ident t \<Longrightarrow> keys_ok ks \<Longrightarrow> name_free (tables db) t \<Longrightarrow> CreateTable P t ks db = (r, db') \<Longrightarrow>
      inv db' \<and> saved db' = saved db \<and>
      (case r of
         Ok _ \<Rightarrow> tables db' = (if tables db t = None then (tables db)(t \<mapsto> \<lparr>cols = ks, trows = []\<rparr>)
                              else tables db)
       | Throw _ \<Rightarrow> tables db' = tables db | Terminate \<Rightarrow> False)"
    and Insert_law: "inv db \<Longrightarrow> tables db t = Some T \<Longrightarrow> row_ok (cols T) fs \<Longrightarrow> Insert P t fs db = (r, db') \<Longrightarrow>
      inv db' \<and> saved db' = saved db \<and>
      (case r of
         Ok _ \<Rightarrow> row_admissible canon T fs \<and>
           (\<exists>i. (\<forall>x\<in>set (trows T). rowid x < i) \<and>
              tables db' = (tables db)(t \<mapsto> map_trows (\<lambda>rs. rs @ [new_row canon i fs]) T))
       | Throw _ \<Rightarrow> tables db' = tables db | Terminate \<Rightarrow> False)"
    and Update_law: "inv db \<Longrightarrow> tables db t = Some T \<Longrightarrow> row_ok (cols T) fs \<Longrightarrow> crits_ok (cols T) cs \<Longrightarrow>
      Update P t fs cs op db = (r, db') \<Longrightarrow>
      inv db' \<and> saved db' = saved db \<and>
      (case r of
         Ok _ \<Rightarrow> tables db' = (tables db)(t \<mapsto>
                   map_trows (map (\<lambda>x. if row_matches canon op cs x then upd_row canon fs x else x)) T)
       | Throw _ \<Rightarrow> tables db' = tables db | Terminate \<Rightarrow> False)"
    and Remove_law: "inv db \<Longrightarrow> tables db t = Some T \<Longrightarrow> crits_ok (cols T) cs \<Longrightarrow> Remove P t cs op db = (r, db') \<Longrightarrow>
      inv db' \<and> saved db' = saved db \<and>
      (case r of
         Ok _ \<Rightarrow> tables db' = (tables db)(t \<mapsto> map_trows (filter (\<lambda>x. \<not> row_matches canon op cs x)) T)
       | Throw _ \<Rightarrow> tables db' = tables db | Terminate \<Rightarrow> False)"
    and DropTable_law: "inv db \<Longrightarrow> tables db t \<noteq> None \<Longrightarrow> DropTable P t db = (r, db') \<Longrightarrow>
      inv db' \<and> saved db' = saved db \<and>
      (case r of
         Ok _ \<Rightarrow> tables db' = (tables db)(t := None)
       | Throw _ \<Rightarrow> tables db' = tables db | Terminate \<Rightarrow> False)"
    and Select_rowid_law: "inv db \<Longrightarrow> tables db t = Some T \<Longrightarrow> flds_ok (cols T) flds \<Longrightarrow> crits_ok (cols T) cs \<Longrightarrow>
      Name c = ''rowid'' \<Longrightarrow> Select P t flds cs op [c] ASC n db = Ok rs \<Longrightarrow>
      rs = map (project T flds) (limit_rows n (sel canon op cs T))"
    and Select_law: "inv db \<Longrightarrow> tables db t = Some T \<Longrightarrow> flds_ok (cols T) flds \<Longrightarrow> crits_ok (cols T) cs \<Longrightarrow>
      Select P t flds cs op [] ord n db = Ok rs \<Longrightarrow> n \<le> 0 \<Longrightarrow>
      mset rs = mset (map (project T flds) (sel canon op cs T))"
    and Select_returns: "inv db \<Longrightarrow> Select P t flds cs op os ord n db \<noteq> Terminate"
    and GetCount_law: "inv db \<Longrightarrow> tables db t = Some T \<Longrightarrow> crits_ok (cols T) cs \<Longrightarrow> GetCount P t cs op db = Ok n \<Longrightarrow>
      n = as_int32 (int (length (sel canon op cs T)))"
    and GetCount_returns: "inv db \<Longrightarrow> GetCount P t cs op db \<noteq> Terminate"
    and GetSize_law: "inv db \<Longrightarrow> tables db t = Some T \<Longrightarrow> flds \<noteq> [] \<Longrightarrow> flds_ok (cols T) flds \<Longrightarrow>
      crits_ok (cols T) cs \<Longrightarrow> GetSize P t flds cs op db = Ok m \<Longrightarrow>
      m = as_uint32 (sum_list (map (row_size flds) (sel canon op cs T)))"
    and GetSize_returns: "inv db \<Longrightarrow> flds \<noteq> [] \<Longrightarrow> GetSize P t flds cs op db \<noteq> Terminate"
    and Begin_law: "inv db \<Longrightarrow> BeginTransaction P db = (b, db') \<Longrightarrow>
      inv db' \<and> tables db' = tables db \<and>
      (case b of Ok k \<Rightarrow> saved db = None \<and> saved db' = Some (k, tables db)
       | Throw _ \<Rightarrow> saved db' = saved db | Terminate \<Rightarrow> False)"
    and Commit_law: "inv db \<Longrightarrow> CommitTransaction P k db = (r, db') \<Longrightarrow>
      inv db' \<and> tables db' = tables db \<and>
      (case r of Ok _ \<Rightarrow> saved db' = None | Throw _ \<Rightarrow> saved db' = saved db | Terminate \<Rightarrow> False)"
    and Rollback_law: "inv db \<Longrightarrow> RollbackTransaction P k db = (r, db') \<Longrightarrow>
      inv db' \<and>
      (case r of Ok _ \<Rightarrow> saved db' = None \<and> (\<exists>ts. saved db = Some (k, ts) \<and> tables db' = ts)
       | Throw _ \<Rightarrow> saved db' = saved db \<and> tables db' = tables db | Terminate \<Rightarrow> False)"
    and table_names: "inv db \<Longrightarrow> names_apart (tables db)"

text \<open>
  A call that meets its table's constraints succeeds. \<open>nul_free\<close>: no value holds a NUL byte, which
  would end the text of the statement.
\<close>

definition nul_free :: "Row \<Rightarrow> bool" where
  "nul_free fs \<longleftrightarrow> list_all (\<lambda>c. CHR 0x00 \<notin> set (Value c)) fs"

locale reliable_persistence = persistence_laws +
  assumes Insert_ok: "inv db \<Longrightarrow> tables db t = Some T \<Longrightarrow> row_ok (cols T) fs \<Longrightarrow> row_admissible canon T fs \<Longrightarrow>
      nul_free fs \<Longrightarrow> fst (Insert P t fs db) = Ok ()"
    and Update_ok: "inv db \<Longrightarrow> tables db t = Some T \<Longrightarrow> row_ok (cols T) fs \<Longrightarrow> crits_ok (cols T) cs \<Longrightarrow>
      nul_free fs \<Longrightarrow> nul_free cs \<Longrightarrow> set (map Name fs) \<inter> set (key_cols T) = {} \<Longrightarrow>
      fst (Update P t fs cs op db) = Ok ()"
    and Remove_ok: "inv db \<Longrightarrow> tables db t = Some T \<Longrightarrow> crits_ok (cols T) cs \<Longrightarrow> nul_free cs \<Longrightarrow>
      fst (Remove P t cs op db) = Ok ()"
    and Select_ok: "inv db \<Longrightarrow> tables db t = Some T \<Longrightarrow> flds_ok (cols T) flds \<Longrightarrow> crits_ok (cols T) cs \<Longrightarrow>
      list_all (\<lambda>c. Name c = ''rowid'') os \<Longrightarrow> nul_free cs \<Longrightarrow>
      is_ok (Select P t flds cs op os ord n db)"
    and GetCount_ok: "inv db \<Longrightarrow> tables db t = Some T \<Longrightarrow> crits_ok (cols T) cs \<Longrightarrow> nul_free cs \<Longrightarrow>
      is_ok (GetCount P t cs op db)"
    and GetSize_ok: "inv db \<Longrightarrow> tables db t = Some T \<Longrightarrow> flds \<noteq> [] \<Longrightarrow> flds_ok (cols T) flds \<Longrightarrow>
      crits_ok (cols T) cs \<Longrightarrow> nul_free cs \<Longrightarrow> is_ok (GetSize P t flds cs op db)"
    and Begin_ok: "inv db \<Longrightarrow> saved db = None \<Longrightarrow> is_ok (fst (BeginTransaction P db))"
    and Commit_ok: "inv db \<Longrightarrow> saved db = Some (k, ts) \<Longrightarrow> fst (CommitTransaction P k db) = Ok ()"
    and CreateTable_ok: "inv db \<Longrightarrow> ident t \<Longrightarrow> keys_ok ks \<Longrightarrow> fst (CreateTable P t ks db) = Ok ()"
    and TableExists_ok: "inv db \<Longrightarrow> ident t \<Longrightarrow> tables db t \<noteq> None \<Longrightarrow> TableExists P t db"

subsection \<open>The reference implementation in memory\<close>

record mem_db =
  m_tables :: "string \<Rightarrow> table option"
  m_saved :: "(TransactionId \<times> (string \<Rightarrow> table option)) option"
  m_next :: TransactionId

definition mem_empty :: mem_db where
  "mem_empty = \<lparr>m_tables = Map.empty, m_saved = None, m_next = 0\<rparr>"

definition next_rowid :: "table \<Rightarrow> int" where
  "next_rowid T = (if trows T = [] then 1 else rowid (last (trows T)) + 1)"

definition mem_canon :: canon where
  "mem_canon t v = v"

definition mem_on_table :: "string \<Rightarrow> (table \<Rightarrow> table option) \<Rightarrow> mem_db \<Rightarrow> unit result \<times> mem_db" where
  "mem_on_table t f d =
     (case m_tables d t of
        None \<Rightarrow> (Throw (''no such table: '' @ t), d)
      | Some T \<Rightarrow>
          (case f T of
             None \<Rightarrow> (Throw ''constraint failed'', d)
           | Some T' \<Rightarrow> (Ok (), d\<lparr>m_tables := (m_tables d)(t \<mapsto> T')\<rparr>)))"

definition mem_query :: "string \<Rightarrow> (table \<Rightarrow> 'a) \<Rightarrow> mem_db \<Rightarrow> 'a result" where
  "mem_query t f d =
     (case m_tables d t of None \<Rightarrow> Throw (''no such table: '' @ t) | Some T \<Rightarrow> Ok (f T))"

definition mem_insert :: "Row \<Rightarrow> table \<Rightarrow> table option" where
  "mem_insert fs T =
     (if row_admissible mem_canon T fs
      then Some (map_trows (\<lambda>rs. rs @ [new_row mem_canon (next_rowid T) fs]) T) else None)"

definition mem_update :: "Row \<Rightarrow> Criteria \<Rightarrow> LogicalOperator \<Rightarrow> table \<Rightarrow> table option" where
  "mem_update fs cs op T =
     (let T' = map_trows (map (\<lambda>x. if row_matches mem_canon op cs x then upd_row mem_canon fs x else x)) T
      in if set (map Name fs) \<subseteq> set (map Name (cols T)) \<and> keys_unique T' then Some T' else None)"

definition mem_remove :: "Criteria \<Rightarrow> LogicalOperator \<Rightarrow> table \<Rightarrow> table option" where
  "mem_remove cs op T = Some (map_trows (filter (\<lambda>x. \<not> row_matches mem_canon op cs x)) T)"

definition mem_persistence :: "mem_db persistence" where
  "mem_persistence =
   \<lparr>TableExists = (\<lambda>t d. m_tables d t \<noteq> None),
    CreateTable = (\<lambda>t ks d.
      (Ok (), if m_tables d t = None
              then d\<lparr>m_tables := (m_tables d)(t \<mapsto> \<lparr>cols = ks, trows = []\<rparr>)\<rparr> else d)),
    Insert = (\<lambda>t fs. mem_on_table t (mem_insert fs)),
    Update = (\<lambda>t fs cs op d. if fs = [] then (Terminate, d) else mem_on_table t (mem_update fs cs op) d),
    Remove = (\<lambda>t cs op. mem_on_table t (mem_remove cs op)),
    DropTable = (\<lambda>t d.
      if m_tables d t = None then (Throw (''no such table: '' @ t), d)
      else (Ok (), d\<lparr>m_tables := (m_tables d)(t := None)\<rparr>)),
    Select = (\<lambda>t flds cs op os ord n.
      mem_query t (\<lambda>T. map (project T flds) (limit_rows n (sel mem_canon op cs T)))),
    GetCount = (\<lambda>t cs op. mem_query t (\<lambda>T. as_int32 (int (length (sel mem_canon op cs T))))),
    GetSize = (\<lambda>t flds cs op d.
      if flds = [] then Terminate
      else mem_query t (\<lambda>T. as_uint32 (sum_list (map (row_size flds) (sel mem_canon op cs T)))) d),
    BeginTransaction = (\<lambda>d.
      if m_saved d = None
      then (Ok (m_next d), d\<lparr>m_saved := Some (m_next d, m_tables d), m_next := Suc (m_next d)\<rparr>)
      else (Throw ''cannot start a transaction within a transaction'', d)),
    CommitTransaction = (\<lambda>k d.
      (case m_saved d of
         Some (k', _) \<Rightarrow> if k = k' then (Ok (), d\<lparr>m_saved := None\<rparr>) else (Throw ''map::at'', d)
       | None \<Rightarrow> (Throw ''map::at'', d))),
    RollbackTransaction = (\<lambda>k d.
      (case m_saved d of
         Some (k', ts) \<Rightarrow>
           if k = k' then (Ok (), d\<lparr>m_saved := None, m_tables := ts\<rparr>) else (Throw ''map::at'', d)
       | None \<Rightarrow> (Throw ''map::at'', d)))\<rparr>"

definition table_ok :: "table \<Rightarrow> bool" where
  "table_ok T \<longleftrightarrow> sorted_wrt (<) (map rowid (trows T)) \<and> keys_unique T"

definition tables_ok :: "(string \<Rightarrow> table option) \<Rightarrow> bool" where
  "tables_ok ts \<longleftrightarrow> (\<forall>t T. ts t = Some T \<longrightarrow> table_ok T) \<and> names_apart ts"

definition mem_inv :: "mem_db \<Rightarrow> bool" where
  "mem_inv d \<longleftrightarrow> tables_ok (m_tables d) \<and> (\<forall>k ts. m_saved d = Some (k, ts) \<longrightarrow> tables_ok ts)"

subsection \<open>Facts\<close>

lemma as_int32_id [simp]: "0 \<le> n \<Longrightarrow> n < 2 ^ 31 \<Longrightarrow> as_int32 n = n"
  by (simp add: as_int32_def)

lemma as_uint32_id [simp]: "n < 2 ^ 32 \<Longrightarrow> as_uint32 n = n"
  by (simp add: as_uint32_def)

lemma as_uint32_le: "as_uint32 n \<le> n"
  by (simp add: as_uint32_def)

lemma number_text_dec_int: "number_text (dec_int i)"
proof -
  have d: "takeWhile isdigit (dec_nat n) = dec_nat n" "dropWhile isdigit (dec_nat n) = []" for n
    using dec_nat_digits [of n] by (auto simp: list_all_iff dropWhile_eq_Nil_conv)
  have "number_text (dec_nat n)" for n
  proof (cases "dec_nat n")
    case Nil
    then show ?thesis using dec_nat_nonempty by metis
  next
    case (Cons c cs)
    then have "c \<noteq> CHR ''-''" using dec_nat_no_minus [of n] by auto
    with d [of n] Cons show ?thesis unfolding number_text_def Let_def Cons by simp
  qed
  moreover have "number_text (CHR ''-'' # dec_nat n)" for n
    using d [of n] dec_nat_nonempty [of n] by (simp add: number_text_def del: takeWhile_eq_all_conv)
  ultimately show ?thesis by (simp add: dec_int_def)
qed

lemma int_text_dec_int: "int_text (dec_int i)"
proof -
  have "int_text (dec_nat n)" for n
    using dec_nat_digits [of n] dec_nat_nonempty [of n] dec_nat_no_minus [of n]
    by (cases "dec_nat n") (auto simp: int_text_def)
  moreover have "int_text (CHR ''-'' # dec_nat n)" for n
    using dec_nat_digits [of n] dec_nat_nonempty [of n] by (simp add: int_text_def)
  ultimately show ?thesis by (simp add: dec_int_def)
qed

lemma int_text_number: "int_text s \<Longrightarrow> number_text s"
proof -
  have "takeWhile isdigit u = u \<and> dropWhile isdigit u = []" if "list_all isdigit u" for u
    using that by (auto simp: list_all_iff dropWhile_eq_Nil_conv)
  then show "int_text s \<Longrightarrow> number_text s" unfolding int_text_def number_text_def Let_def by metis
qed

lemma value_ok_simps [simp]: "value_ok TEXT v" "value_ok REAL v = number_text v"
  by (simp_all add: value_ok_def)

lemma value_ok_digit: "\<bar>i\<bar> < 10 \<Longrightarrow> value_ok INTEGER (dec_int i)"
  by (simp add: value_ok_def int_text_dec_int) (simp add: dec_int_def dec_nat.simps)

lemma value_ok_number: "ty \<noteq> TEXT \<Longrightarrow> value_ok ty v \<Longrightarrow> number_text v"
  by (cases ty) (auto simp: value_ok_def int_text_number)

lemma number_text_nul: "number_text s \<Longrightarrow> CHR 0x00 \<notin> set s"
proof -
  have no: "CHR 0x00 \<notin> set u" if "dropWhile isdigit u = [] \<or> hd (dropWhile isdigit u) = CHR ''.'' \<and>
    list_all isdigit (tl (dropWhile isdigit u))" for u
  proof -
    have "CHR 0x00 \<notin> set (takeWhile isdigit u)" by (auto dest: set_takeWhileD simp: isdigit_def)
    moreover have "CHR 0x00 \<notin> set (dropWhile isdigit u)"
      using that by (cases "dropWhile isdigit u") (auto simp: list_all_iff isdigit_def simp del: dropWhile_eq_Nil_conv)
    ultimately show ?thesis by (metis Un_iff set_append takeWhile_dropWhile_id)
  qed
  assume "number_text s"
  with no [of s] no [of "tl s"] show ?thesis
    by (cases s) (auto simp: number_text_def Let_def split: if_splits)
qed

lemma row_matches_Nil [simp]: "row_matches canon op [] = (\<lambda>_. True)"
  by (simp add: row_matches_def fun_eq_iff)

lemma sel_Nil [simp]: "sel canon op [] T = trows T"
  by simp

lemma limit_rows_Nil [simp]: "limit_rows n [] = []"
  by (simp add: limit_rows_def)

lemma limit_rows_prefix: "\<exists>k. limit_rows n xs = take k xs"
  by (auto simp: limit_rows_def intro: exI [of _ "length xs"])

lemma length_limit_rows: "n > 0 \<Longrightarrow> length (limit_rows n xs) = min (length xs) (nat n)"
  by (simp add: limit_rows_def)

lemma cell_new_row [simp]:
  "n \<noteq> ''rowid'' \<Longrightarrow> cell (new_row canon i fs) n = map_of (map (stored_cell canon) fs) n"
  by (simp add: cell_def new_row_def)

lemma rowid_new_row [simp]: "rowid (new_row canon i fs) = i"
  by (simp add: new_row_def)

lemma key_cols_trows [simp]: "key_cols (T\<lparr>trows := rs\<rparr>) = key_cols T"
  by (simp add: key_cols_def)

lemma key_of_trows [simp]: "key_of (T\<lparr>trows := rs\<rparr>) = key_of T"
  by (simp add: key_of_def fun_eq_iff)

lemma key_of_new_row: "key_of T (new_row canon i fs) = key_of T (new_row canon j fs)"
  by (simp add: key_of_def new_row_def)

lemma keys_unique_filter:
  "keys_unique T \<Longrightarrow> keys_unique (map_trows (filter p) T)"
  by (auto simp: keys_unique_def distinct_map_filter)

lemma sorted_rowids_filter:
  "sorted_wrt (<) (map rowid rs) \<Longrightarrow> sorted_wrt (<) (map rowid (filter p rs))"
  by (simp add: sorted_wrt_map sorted_wrt_filter)

lemma rowid_upd_row [simp]: "rowid (upd_row canon fs r) = rowid r"
  by (simp add: upd_row_def)

lemma next_rowid_fresh:
  assumes "sorted_wrt (<) (map rowid (trows T))" and "x \<in> set (trows T)"
  shows "rowid x < next_rowid T"
proof -
  from assms(2) have ne: "trows T \<noteq> []" by auto
  then obtain ys y where T: "trows T = ys @ [y]" by (meson rev_exhaust)
  from assms T have "rowid x \<le> rowid y" by (auto simp: sorted_wrt_append)
  then show ?thesis using T by (simp add: next_rowid_def)
qed

lemma mem_tables_ok: "mem_inv d \<Longrightarrow> m_tables d t = Some T \<Longrightarrow> table_ok T"
  by (auto simp: mem_inv_def tables_ok_def)

lemma mem_on_table_cases:
  assumes "mem_on_table t f d = (r, d')"
  obtains (ok) T T' where "r = Ok ()" "m_tables d t = Some T" "f T = Some T'"
      "d' = d\<lparr>m_tables := (m_tables d)(t \<mapsto> T')\<rparr>"
    | (throw) e where "r = Throw e" "d' = d" "m_tables d t = None \<or> (\<exists>T. m_tables d t = Some T \<and> f T = None)"
  using assms by (auto simp: mem_on_table_def split: option.splits)

lemma mem_inv_upd:
  "mem_inv d \<Longrightarrow> table_ok T' \<Longrightarrow> m_tables d t \<noteq> None \<or> name_free (m_tables d) t \<Longrightarrow>
   mem_inv (d\<lparr>m_tables := (m_tables d)(t \<mapsto> T')\<rparr>)"
  using names_apart_upd(1) [of "m_tables d" t] names_apart_free [of "m_tables d" t]
  by (auto simp: mem_inv_def tables_ok_def)

lemma mem_insert_ok:
  assumes "table_ok T" and "mem_insert fs T = Some T'"
  shows "table_ok T'" and "row_admissible mem_canon T fs"
    and "T' = map_trows (\<lambda>rs. rs @ [new_row mem_canon (next_rowid T) fs]) T"
proof -
  from assms(2) show adm: "row_admissible mem_canon T fs"
    and T': "T' = map_trows (\<lambda>rs. rs @ [new_row mem_canon (next_rowid T) fs]) T"
    by (auto simp: mem_insert_def split: if_splits)
  from assms(1) have so: "sorted_wrt (<) (map rowid (trows T))" by (simp add: table_ok_def)
  have "sorted_wrt (<) (map rowid (trows T'))"
    using so next_rowid_fresh [OF so] by (auto simp: T' sorted_wrt_append)
  moreover have "keys_unique T'"
    using assms(1) adm
    by (auto simp: T' table_ok_def keys_unique_def row_admissible_def
        key_of_new_row [of T mem_canon "next_rowid T" fs 0])
  ultimately show "table_ok T'" by (simp add: table_ok_def)
qed

lemma mem_update_ok:
  assumes "table_ok T" and "mem_update fs cs op T = Some T'"
  shows "table_ok T'"
    and "T' = map_trows (map (\<lambda>x. if row_matches mem_canon op cs x then upd_row mem_canon fs x else x)) T"
proof -
  from assms(2) have ku: "keys_unique T'"
    and T': "T' = map_trows (map (\<lambda>x. if row_matches mem_canon op cs x then upd_row mem_canon fs x else x)) T"
    by (auto simp: mem_update_def Let_def split: if_splits)
  have "map rowid (trows T') = map rowid (trows T)"
    by (simp add: T')
  with assms(1) ku show "table_ok T'" by (simp add: table_ok_def del: map_map)
  show "T' = map_trows (map (\<lambda>x. if row_matches mem_canon op cs x then upd_row mem_canon fs x else x)) T"
    by (rule T')
qed

lemma mem_remove_ok:
  assumes "table_ok T" and "mem_remove cs op T = Some T'"
  shows "table_ok T'" and "T' = map_trows (filter (\<lambda>x. \<not> row_matches mem_canon op cs x)) T"
proof -
  from assms(2) show T': "T' = map_trows (filter (\<lambda>x. \<not> row_matches mem_canon op cs x)) T"
    by (simp add: mem_remove_def)
  show "table_ok T'"
    using assms(1) by (simp add: T' table_ok_def keys_unique_filter sorted_rowids_filter)
qed

lemma table_ok_empty: "table_ok \<lparr>cols = ks, trows = []\<rparr>"
  by (simp add: table_ok_def keys_unique_def)

lemmas mem_simps = mem_persistence_def mem_query_def

text \<open>
  An update of columns that are no part of the key changes no key.
\<close>

lemma key_of_upd_row:
  assumes "set (map Name fs) \<inter> set (key_cols T) = {}"
  shows "key_of T (upd_row canon fs r) = key_of T r"
proof -
  have "map_of (map (stored_cell canon) fs @ cells r) k = map_of (cells r) k"
    if "k \<in> set (key_cols T)" for k
  proof -
    from that assms have "k \<notin> fst ` set (map (stored_cell canon) fs)"
      by (auto simp: stored_cell_def)
    then have "map_of (map (stored_cell canon) fs) k = None" by (simp only: map_of_eq_None_iff not_False_eq_True)
    then show ?thesis by (simp add: map_add_def)
  qed
  then show ?thesis by (simp add: key_of_def upd_row_def)
qed

lemma keys_unique_upd:
  assumes "keys_unique T" and "set (map Name fs) \<inter> set (key_cols T) = {}"
  shows "keys_unique (map_trows (map (\<lambda>x. if p x then upd_row canon fs x else x)) T)"
proof -
  have "key_of T (if p x then upd_row canon fs x else x) = key_of T x" for x
    using key_of_upd_row [OF assms(2)] by simp
  then show ?thesis using assms(1) by (simp add: keys_unique_def comp_def)
qed

interpretation mem: persistence_laws mem_persistence m_tables m_saved mem_canon mem_inv
proof (standard, goal_cases)
  case (3 db t T) then show ?case by (auto dest: mem_tables_ok simp: table_ok_def)
next
  case (4 db t T) then show ?case by (auto dest: mem_tables_ok simp: table_ok_def)
next
  case (6 db t ks r db')
  then show ?case
    by (cases "m_tables db t") (auto simp: mem_simps table_ok_empty intro: mem_inv_upd)
next
  case (7 db t T fs r db')
  from 7(4) have "mem_on_table t (mem_insert fs) db = (r, db')" by (simp add: mem_simps)
  then show ?case
  proof (cases rule: mem_on_table_cases)
    case (ok T1 T')
    note T = mem_tables_ok [OF 7(1) ok(2)]
    note T' = mem_insert_ok [OF T ok(3)]
    have "\<forall>x\<in>set (trows T1). rowid x < next_rowid T1"
      using T by (auto simp: table_ok_def intro: next_rowid_fresh)
    with ok T' 7(1,2) show ?thesis by (auto intro: mem_inv_upd)
  qed (use 7 in auto)
next
  case (8 db t T fs cs op r db')
  then have "mem_on_table t (mem_update fs cs op) db = (r, db')" by (simp add: mem_simps row_ok_def)
  then show ?case
  proof (cases rule: mem_on_table_cases)
    case (ok T1 T')
    note T' = mem_update_ok [OF mem_tables_ok [OF 8(1) ok(2)] ok(3)]
    with ok 8(1,2) show ?thesis by (auto intro: mem_inv_upd)
  qed (use 8 in auto)
next
  case (9 db t T cs op r db')
  then have "mem_on_table t (mem_remove cs op) db = (r, db')" by (simp add: mem_simps)
  then show ?case
  proof (cases rule: mem_on_table_cases)
    case (ok T1 T')
    note T' = mem_remove_ok [OF mem_tables_ok [OF 9(1) ok(2)] ok(3)]
    with ok 9(1,2) show ?thesis by (auto intro: mem_inv_upd)
  qed (use 9 in auto)
next
  case (21 db)
  then show ?case by (simp add: mem_inv_def tables_ok_def)
next
  case (10 db t r db')
  then show ?case
    by (cases "m_tables db t") (auto intro: names_apart_upd simp: mem_simps mem_inv_def tables_ok_def split: if_splits)
next
  case (18 db b db')
  then show ?case by (cases "m_saved db") (auto simp: mem_simps mem_inv_def)
next
  case (19 db k r db')
  then show ?case
    by (cases "m_saved db") (auto simp: mem_simps mem_inv_def split: if_splits)
next
  case (20 db k r db')
  then show ?case
    by (cases "m_saved db") (auto simp: mem_simps mem_inv_def split: if_splits)
next
  case (11 db t T flds cs c op n rs)
  then show ?case by (simp add: mem_simps)
next
  case (12 db t T flds cs op ord n rs)
  then show ?case by (simp add: mem_simps limit_rows_def split: if_splits)
next
  case (13 db t flds cs op os ord n)
  then show ?case by (cases "m_tables db t") (simp_all add: mem_simps)
next
  case (14 db t T cs op n)
  then show ?case by (simp add: mem_simps)
next
  case (15 db t cs op)
  then show ?case by (cases "m_tables db t") (simp_all add: mem_simps)
next
  case (16 db t T flds cs op m)
  then show ?case by (simp add: mem_simps)
next
  case (17 db flds t cs op)
  then show ?case by (cases "m_tables db t") (simp_all add: mem_simps)
next
  case (1 v)
  show ?case by (simp add: mem_canon_def)
next
  case (2 i)
  show ?case by (simp add: mem_canon_def)
next
  case (5 db t)
  then show ?case by (simp add: mem_simps)
qed

interpretation memr: reliable_persistence mem_persistence m_tables m_saved mem_canon mem_inv
proof (standard, goal_cases)
  case (1 db t T fs)
  then show ?case by (simp add: mem_simps mem_on_table_def mem_insert_def)
next
  case (2 db t T fs cs op)
  have "keys_unique T" using 2 by (simp add: mem.table_keys)
  moreover have "fs \<noteq> []" "set (map Name fs) \<subseteq> set (map Name (cols T))"
    using 2(3) by (force simp: row_ok_def col_ok_def list_all_iff)+
  ultimately show ?case
    using 2 keys_unique_upd [of T fs "row_matches mem_canon op cs" mem_canon]
    by (simp add: mem_simps mem_on_table_def mem_update_def Let_def)
next
  case (3 db t T cs op)
  then show ?case by (simp add: mem_simps mem_on_table_def mem_remove_def)
next
  case (8 db k ts)
  then show ?case by (simp add: mem_simps)
qed (auto simp: mem_simps)

end
