(* ===== verification/Json_Value.thy ===== *)
theory Json_Value
  imports Prelude "HOL-Library.Word" "HOL-Library.Char_ord" "HOL-Library.List_Lexorder"
begin

section \<open>JSON values\<close>

text \<open>
  The agent passes messages, command parameters and events around as \<^verbatim>\<open>nlohmann::json\<close> values.
  \<open>json\<close> has one constructor per kind of value (\<^verbatim>\<open>value_t\<close>): an object is the association list of
  a \<^verbatim>\<open>std::map\<close>, with its keys in ascending byte order; the signed and the unsigned integer kinds
  are one constructor, since the library compares them by value; a float is the bit pattern of the
  \<^verbatim>\<open>double\<close>. The accessors below are the ones the agent calls.

  Printing and parsing (\<^verbatim>\<open>dump\<close>, \<^verbatim>\<open>json::parse\<close>) are the library's: they are the two fields of
  \<open>json_lib\<close>, a parameter of every definition that uses them. \<open>dump\<close> gives \<open>None\<close> where the library
  throws (a string that is not valid UTF-8), \<open>parse\<close> gives \<open>None\<close> on a syntax error.
\<close>

datatype json =
    JNull
  | JBool bool
  | JInt int
  | JFloat "64 word"
  | JStr string
  | JArr "json list"
  | JObj "(string \<times> json) list"

datatype value_t = VNull | VObject | VArray | VString | VBoolean | VNumber_integer | VNumber_float

fun json_type :: "json \<Rightarrow> value_t" where
  "json_type JNull = VNull"
| "json_type (JBool _) = VBoolean"
| "json_type (JInt _) = VNumber_integer"
| "json_type (JFloat _) = VNumber_float"
| "json_type (JStr _) = VString"
| "json_type (JArr _) = VArray"
| "json_type (JObj _) = VObject"

definition is_array :: "json \<Rightarrow> bool" where
  "is_array j \<longleftrightarrow> json_type j = VArray"

definition is_object :: "json \<Rightarrow> bool" where
  "is_object j \<longleftrightarrow> json_type j = VObject"

definition is_string :: "json \<Rightarrow> bool" where
  "is_string j \<longleftrightarrow> json_type j = VString"

text \<open>\<^verbatim>\<open>contains(key)\<close> is false on anything but an object; \<open>json_get\<close> is the member, where there is one.\<close>

fun json_get :: "json \<Rightarrow> string \<Rightarrow> json option" where
  "json_get (JObj kvs) k = map_of kvs k"
| "json_get _ k = None"

definition contains :: "json \<Rightarrow> string \<Rightarrow> bool" where
  "contains j k \<longleftrightarrow> json_get j k \<noteq> None"

text \<open>\<^verbatim>\<open>operator[]\<close> on a member that is known to exist.\<close>

definition json_at :: "json \<Rightarrow> string \<Rightarrow> json" where
  "json_at j k = (case json_get j k of None \<Rightarrow> JNull | Some v \<Rightarrow> v)"

fun json_empty :: "json \<Rightarrow> bool" where
  "json_empty JNull = True"
| "json_empty (JArr xs) = (xs = [])"
| "json_empty (JObj kvs) = (kvs = [])"
| "json_empty _ = False"

fun json_items :: "json \<Rightarrow> json list" where
  "json_items (JArr xs) = xs"
| "json_items (JObj kvs) = map snd kvs"
| "json_items _ = []"

fun get_string :: "json \<Rightarrow> string result" where
  "get_string (JStr s) = Ok s"
| "get_string _ = Throw ''type must be string''"

text \<open>\<^verbatim>\<open>j[key] = value\<close>: a null becomes an object first; other kinds throw.\<close>

fun obj_put :: "string \<Rightarrow> json \<Rightarrow> (string \<times> json) list \<Rightarrow> (string \<times> json) list" where
  "obj_put k v [] = [(k, v)]"
| "obj_put k v ((k', v') # kvs) =
     (if k < k' then (k, v) # (k', v') # kvs
      else if k = k' then (k, v) # kvs
      else (k', v') # obj_put k v kvs)"

fun json_set :: "json \<Rightarrow> string \<Rightarrow> json \<Rightarrow> json result" where
  "json_set JNull k v = Ok (JObj [(k, v)])"
| "json_set (JObj kvs) k v = Ok (JObj (obj_put k v kvs))"
| "json_set _ k v = Throw ''cannot use operator[] with a string argument''"

record json_lib =
  dump :: "json \<Rightarrow> string option"
  parse :: "string \<Rightarrow> json option"

text \<open>What the agent relies on: a value that prints, parses back to itself.\<close>

definition json_roundtrip :: "json_lib \<Rightarrow> json \<Rightarrow> bool" where
  "json_roundtrip J j \<longleftrightarrow> (\<exists>s. dump J j = Some s \<and> s \<noteq> [] \<and> parse J s = Some j)"

text \<open>
  A library for the smallest fragment, on which the examples run: strings of letters, digits and
  punctuation other than the quote and the backslash, the empty object and the null.
\<close>

definition tiny_char :: "char \<Rightarrow> bool" where
  "tiny_char c \<longleftrightarrow> (32::nat) \<le> of_char c \<and> (of_char c :: nat) < 127 \<and> c \<noteq> CHR 0x22 \<and> c \<noteq> CHR 0x5C"

definition tiny_dump :: "json \<Rightarrow> string option" where
  "tiny_dump j =
     (case j of
        JNull \<Rightarrow> Some ''null''
      | JStr s \<Rightarrow> if list_all tiny_char s then Some ([CHR 0x22] @ s @ [CHR 0x22]) else None
      | JObj [] \<Rightarrow> Some ''{}''
      | _ \<Rightarrow> None)"

definition tiny_parse :: "string \<Rightarrow> json option" where
  "tiny_parse s =
     (if s = ''null'' then Some JNull
      else if s = ''{}'' then Some (JObj [])
      else if 2 \<le> length s \<and> hd s = CHR 0x22 \<and> last s = CHR 0x22 \<and> list_all tiny_char (butlast (tl s))
      then Some (JStr (butlast (tl s))) else None)"

definition tiny_lib :: json_lib where
  "tiny_lib = \<lparr>dump = tiny_dump, parse = tiny_parse\<rparr>"

lemmas tiny_eval = tiny_lib_def tiny_dump_def tiny_parse_def tiny_char_def

subsection \<open>Facts\<close>

lemma is_array_iff: "is_array j \<longleftrightarrow> (\<exists>xs. j = JArr xs)"
  by (cases j) (simp_all add: is_array_def)

lemma is_object_iff: "is_object j \<longleftrightarrow> (\<exists>kvs. j = JObj kvs)"
  by (cases j) (simp_all add: is_object_def)

lemma is_string_iff: "is_string j \<longleftrightarrow> (\<exists>s. j = JStr s)"
  by (cases j) (simp_all add: is_string_def)

lemmas json_kind_iff = is_array_iff is_object_iff is_string_iff

lemma is_array_simps [simp]:
  "is_array (JArr xs)" "\<not> is_array (JObj kvs)" "\<not> is_array (JStr s)" "\<not> is_array JNull"
  "\<not> is_array (JBool b)" "\<not> is_array (JInt i)" "\<not> is_array (JFloat f)"
  by (simp_all add: is_array_def)

lemma is_object_simps [simp]:
  "is_object (JObj kvs)" "\<not> is_object (JArr xs)" "\<not> is_object (JStr s)" "\<not> is_object JNull"
  "\<not> is_object (JBool b)" "\<not> is_object (JInt i)" "\<not> is_object (JFloat f)"
  by (simp_all add: is_object_def)

lemma is_string_simps [simp]:
  "is_string (JStr s)" "\<not> is_string (JArr xs)" "\<not> is_string (JObj kvs)" "\<not> is_string JNull"
  "\<not> is_string (JBool b)" "\<not> is_string (JInt i)" "\<not> is_string (JFloat f)"
  by (simp_all add: is_string_def)

lemma tiny_roundtrip:
  assumes "list_all tiny_char s"
  shows "dump tiny_lib (JStr s) = Some (CHR 0x22 # s @ [CHR 0x22])"
    and "parse tiny_lib (CHR 0x22 # s @ [CHR 0x22]) = Some (JStr s)"
proof -
  show "dump tiny_lib (JStr s) = Some (CHR 0x22 # s @ [CHR 0x22])"
    using assms by (simp add: tiny_lib_def tiny_dump_def)
  have "last (CHR 0x22 # s @ [CHR 0x22]) = CHR 0x22" "butlast (s @ [CHR 0x22]) = s" by auto
  then show "parse tiny_lib (CHR 0x22 # s @ [CHR 0x22]) = Some (JStr s)"
    using assms by (simp add: tiny_lib_def tiny_parse_def del: last.simps last_append)
qed

lemma contains_object: "contains j k \<Longrightarrow> is_object j"
  by (cases j) (simp_all add: contains_def)

lemma keys_obj_put: "fst ` set (obj_put k v kvs) = insert k (fst ` set kvs)"
  by (induction k v kvs rule: obj_put.induct) auto

lemma sorted_obj_put:
  "sorted_wrt (<) (map fst kvs) \<Longrightarrow> sorted_wrt (<) (map fst (obj_put k v kvs))"
proof (induction k v kvs rule: obj_put.induct)
  case (2 k v k' v' kvs)
  have keys: "set (map fst (obj_put k v kvs)) = insert k (set (map fst kvs))"
    using keys_obj_put [of k v kvs] by simp
  show ?case
    using 2 by (auto simp: keys simp del: set_map)
qed simp

lemma map_of_obj_put:
  "sorted_wrt (<) (map fst kvs) \<Longrightarrow> map_of (obj_put k v kvs) = (map_of kvs)(k \<mapsto> v)"
proof (induction k v kvs rule: obj_put.induct)
  case (2 k v k' v' kvs)
  then show ?case by (auto simp: fun_eq_iff)
qed simp

end
