(* ===== verification/Storage.thy ===== *)
theory Storage
  imports Persistence Json_Value
begin

section \<open>The storage of the message queue\<close>

text \<open>
  \<^verbatim>\<open>src/src/agent/multitype_queue/src/storage.cpp\<close>: class \<^verbatim>\<open>Storage\<close>, one table per message type in
  a database behind the \<^verbatim>\<open>Persistence\<close> interface. Every method takes the interface \<open>P\<close>, the JSON
  library \<open>J\<close> and the database state. The methods hold \<^verbatim>\<open>m_mutex\<close> for their whole transaction, so each
  is one atomic step on the database.

  \<open>entry_of\<close> reads a row of such a table as the message it stores, and \<open>entries\<close> is the table as the
  sequence of its messages, oldest first. In these terms \<^verbatim>\<open>Store\<close> appends, \<^verbatim>\<open>RemoveMultiple\<close> drops a
  prefix of the messages of a module, and the two \<^verbatim>\<open>Retrieve\<close> methods read such a prefix.
\<close>

subsection \<open>Column names\<close>

definition ROW_ID_COLUMN_NAME :: string where "ROW_ID_COLUMN_NAME = ''rowid''"
definition MODULE_NAME_COLUMN_NAME :: string where "MODULE_NAME_COLUMN_NAME = ''module_name''"
definition MODULE_TYPE_COLUMN_NAME :: string where "MODULE_TYPE_COLUMN_NAME = ''module_type''"
definition METADATA_COLUMN_NAME :: string where "METADATA_COLUMN_NAME = ''metadata''"
definition MESSAGE_COLUMN_NAME :: string where "MESSAGE_COLUMN_NAME = ''message''"

lemmas column_name_defs =
  ROW_ID_COLUMN_NAME_def MODULE_NAME_COLUMN_NAME_def MODULE_TYPE_COLUMN_NAME_def
  METADATA_COLUMN_NAME_def MESSAGE_COLUMN_NAME_def

subsection \<open>ProcessRequest\<close>

definition output_json :: "string \<Rightarrow> string \<Rightarrow> string \<Rightarrow> json \<Rightarrow> json" where
  "output_json moduleName moduleType metadata d =
     JObj [(''data'', d), (''metadata'', JStr metadata),
           (''moduleName'', JStr moduleName), (''moduleType'', JStr moduleType)]"

text \<open>
  The loop over the rows. With \<open>maxSize = 0\<close> it takes every row; otherwise it stops after the row
  whose size makes the accumulated size reach \<open>maxSize\<close>. A parse error leaves the loop.
\<close>

fun process_rows :: "json_lib \<Rightarrow> nat \<Rightarrow> nat \<Rightarrow> Row list \<Rightarrow> json list result" where
  "process_rows J maxSize sizeAccum [] = Ok []"
| "process_rows J maxSize sizeAccum (row # rows) =
     (let moduleNameString = Value (row ! 0);
          moduleTypeString = Value (row ! 1);
          metadataString = Value (row ! 2);
          dataString = Value (row ! 3)
      in
      case (if dataString \<noteq> [] then parse J dataString else Some JNull) of
        None \<Rightarrow> Throw ''parse error''
      | Some d \<Rightarrow>
          let outputJson = output_json moduleNameString moduleTypeString metadataString d in
          if maxSize \<noteq> 0 then
            (case dump J d of
               None \<Rightarrow> Throw ''invalid UTF-8 byte''
             | Some s \<Rightarrow>
                 let messageSize = length moduleNameString + length moduleTypeString +
                       length metadataString + length s
                 in if sizeAccum + messageSize \<ge> maxSize then Ok [outputJson]
                    else map_result ((#) outputJson)
                           (process_rows J maxSize (sizeAccum + messageSize) rows))
          else map_result ((#) outputJson) (process_rows J maxSize sizeAccum rows))"

definition ProcessRequest :: "json_lib \<Rightarrow> Row list \<Rightarrow> nat \<Rightarrow> json result" where
  "ProcessRequest J rows maxSize = map_result JArr (process_rows J maxSize 0 rows)"

subsection \<open>The constructor and the tables\<close>

definition storage_keys :: Keys where
  "storage_keys =
     [col_key MODULE_NAME_COLUMN_NAME TEXT NONE,
      col_key MODULE_TYPE_COLUMN_NAME TEXT NONE,
      col_key METADATA_COLUMN_NAME TEXT NONE,
      col_key MESSAGE_COLUMN_NAME TEXT NOT_NULL]"

definition Storage_CreateTable :: "'db persistence \<Rightarrow> string \<Rightarrow> 'db \<Rightarrow> unit result \<times> 'db" where
  "Storage_CreateTable P tableName db = CreateTable P tableName storage_keys db"

fun create_tables :: "'db persistence \<Rightarrow> string list \<Rightarrow> 'db \<Rightarrow> unit result \<times> 'db" where
  "create_tables P [] db = (Ok (), db)"
| "create_tables P (t # ts) db =
     (if \<not> TableExists P t db then
        (case Storage_CreateTable P t db of
           (Ok _, db') \<Rightarrow> create_tables P ts db'
         | (r, db') \<Rightarrow> (r, db'))
      else create_tables P ts db)"

definition QUEUE_DB_NAME :: string where "QUEUE_DB_NAME = ''queue.db''"

text \<open>The constructor, given the persistence object: any exception becomes ``Cannot open database''.\<close>

definition Storage_init :: "'db persistence \<Rightarrow> string list \<Rightarrow> string \<Rightarrow> 'db \<Rightarrow> unit result \<times> 'db" where
  "Storage_init P tableNames dbFolderPath db =
     (let dbFilePath = dbFolderPath @ ''/'' @ QUEUE_DB_NAME in
      case create_tables P tableNames db of
        (Throw _, db') \<Rightarrow> (Throw (''Cannot open database: '' @ dbFilePath), db')
      | other \<Rightarrow> other)"

fun Clear :: "'db persistence \<Rightarrow> string list \<Rightarrow> 'db \<Rightarrow> bool result \<times> 'db" where
  "Clear P [] db = (Ok True, db)"
| "Clear P (t # ts) db =
     (case Remove P t [] AND db of
        (Ok _, db') \<Rightarrow> Clear P ts db'
      | (Throw _, db') \<Rightarrow> (Ok False, db')
      | (Terminate, db') \<Rightarrow> (Terminate, db'))"

subsection \<open>Store\<close>

text \<open>
  The fields that every row of one call shares, and the loop over an array of messages. The row's
  message is appended to \<open>flds\<close> and popped again after the \<^verbatim>\<open>try\<close>; when \<^verbatim>\<open>dump\<close> throws, nothing was
  appended, and the \<^verbatim>\<open>pop_back\<close> takes a shared field. \<^verbatim>\<open>pop_back\<close> of an empty vector is undefined.
\<close>

definition store_fields :: "string \<Rightarrow> string \<Rightarrow> string \<Rightarrow> Row" where
  "store_fields moduleName moduleType metadata =
     [col_value MODULE_NAME_COLUMN_NAME TEXT moduleName,
      col_value MODULE_TYPE_COLUMN_NAME TEXT moduleType,
      col_value METADATA_COLUMN_NAME TEXT metadata]"

fun store_messages ::
  "'db persistence \<Rightarrow> json_lib \<Rightarrow> string \<Rightarrow> Row \<Rightarrow> json list \<Rightarrow> int \<Rightarrow> 'db \<Rightarrow> int result \<times> 'db" where
  "store_messages P J tableName flds [] res db = (Ok res, db)"
| "store_messages P J tableName flds (m # ms) res db =
     (case dump J m of
        None \<Rightarrow>
          if flds = [] then (Terminate, db)
          else store_messages P J tableName (butlast flds) ms res db
      | Some s \<Rightarrow>
          (case Insert P tableName (flds @ [col_value MESSAGE_COLUMN_NAME TEXT s]) db of
             (Ok _, db') \<Rightarrow> store_messages P J tableName flds ms (res + 1) db'
           | (Throw _, db') \<Rightarrow> store_messages P J tableName flds ms res db'
           | (Terminate, db') \<Rightarrow> (Terminate, db')))"

definition store_single ::
  "'db persistence \<Rightarrow> json_lib \<Rightarrow> string \<Rightarrow> Row \<Rightarrow> json \<Rightarrow> 'db \<Rightarrow> int result \<times> 'db" where
  "store_single P J tableName flds m db =
     (case dump J m of
        None \<Rightarrow> (Ok 0, db)
      | Some s \<Rightarrow>
          (case Insert P tableName (flds @ [col_value MESSAGE_COLUMN_NAME TEXT s]) db of
             (Ok _, db') \<Rightarrow> (Ok 1, db')
           | (Throw _, db') \<Rightarrow> (Ok 0, db')
           | (Terminate, db') \<Rightarrow> (Terminate, db')))"

text \<open>A transaction around a body: an exception of \<^verbatim>\<open>BeginTransaction\<close> or \<^verbatim>\<open>CommitTransaction\<close> propagates.\<close>

definition in_transaction ::
  "'db persistence \<Rightarrow> ('db \<Rightarrow> int result \<times> 'db) \<Rightarrow> 'db \<Rightarrow> int result \<times> 'db" where
  "in_transaction P body db =
     (case BeginTransaction P db of
        (Ok transaction, db1) \<Rightarrow>
          (case body db1 of
             (Ok result, db2) \<Rightarrow>
               (case CommitTransaction P transaction db2 of
                  (Ok _, db3) \<Rightarrow> (Ok result, db3)
                | (Throw e, db3) \<Rightarrow> (Throw e, db3)
                | (Terminate, db3) \<Rightarrow> (Terminate, db3))
           | other \<Rightarrow> other)
      | (Throw e, db1) \<Rightarrow> (Throw e, db1)
      | (Terminate, db1) \<Rightarrow> (Terminate, db1))"

definition store_body ::
  "'db persistence \<Rightarrow> json_lib \<Rightarrow> json \<Rightarrow> string \<Rightarrow> Row \<Rightarrow> 'db \<Rightarrow> int result \<times> 'db" where
  "store_body P J message tableName flds db =
     (case message of
        JArr ms \<Rightarrow> store_messages P J tableName flds ms 0 db
      | _ \<Rightarrow> store_single P J tableName flds message db)"

definition Store ::
  "'db persistence \<Rightarrow> json_lib \<Rightarrow> json \<Rightarrow> string \<Rightarrow> string \<Rightarrow> string \<Rightarrow> string \<Rightarrow> 'db \<Rightarrow> int result \<times> 'db" where
  "Store P J message tableName moduleName moduleType metadata db =
     in_transaction P
       (store_body P J message tableName (store_fields moduleName moduleType metadata)) db"

subsection \<open>RemoveMultiple\<close>

definition module_filters :: "string \<Rightarrow> string \<Rightarrow> Criteria" where
  "module_filters moduleName moduleType =
     (if moduleName \<noteq> [] then [col_value MODULE_NAME_COLUMN_NAME TEXT moduleName] else []) @
     (if moduleType \<noteq> [] then [col_value MODULE_TYPE_COLUMN_NAME TEXT moduleType] else [])"

fun remove_rows :: "'db persistence \<Rightarrow> string \<Rightarrow> Row list \<Rightarrow> int \<Rightarrow> 'db \<Rightarrow> int result \<times> 'db" where
  "remove_rows P tableName [] res db = (Ok res, db)"
| "remove_rows P tableName (row # rows) res db =
     (case Remove P tableName [col_value ROW_ID_COLUMN_NAME INTEGER (Value (row ! 0))] AND db of
        (Ok _, db') \<Rightarrow> remove_rows P tableName rows (res + 1) db'
      | (Throw _, db') \<Rightarrow> remove_rows P tableName rows res db'
      | (Terminate, db') \<Rightarrow> (Terminate, db'))"

definition remove_body ::
  "'db persistence \<Rightarrow> int \<Rightarrow> string \<Rightarrow> string \<Rightarrow> string \<Rightarrow> 'db \<Rightarrow> int result \<times> 'db" where
  "remove_body P n tableName moduleName moduleType db =
     (let filters = module_filters moduleName moduleType;
          columns = [col_name ROW_ID_COLUMN_NAME INTEGER]
      in case Select P tableName columns filters AND columns ASC n db of
           Ok results \<Rightarrow> remove_rows P tableName results 0 db
         | Throw _ \<Rightarrow> (Ok 0, db)
         | Terminate \<Rightarrow> (Terminate, db))"

definition RemoveMultiple ::
  "'db persistence \<Rightarrow> int \<Rightarrow> string \<Rightarrow> string \<Rightarrow> string \<Rightarrow> 'db \<Rightarrow> int result \<times> 'db" where
  "RemoveMultiple P n tableName moduleName moduleType db =
     in_transaction P (remove_body P n tableName moduleName moduleType) db"

subsection \<open>Retrieving and counting\<close>

definition storage_columns :: Names where
  "storage_columns =
     [col_name MODULE_NAME_COLUMN_NAME TEXT, col_name MODULE_TYPE_COLUMN_NAME TEXT,
      col_name METADATA_COLUMN_NAME TEXT, col_name MESSAGE_COLUMN_NAME TEXT]"

definition order_columns :: Names where
  "order_columns = [col_name ROW_ID_COLUMN_NAME INTEGER]"

text \<open>Any exception makes the two methods return an empty (null) value.\<close>

definition RetrieveMultiple ::
  "'db persistence \<Rightarrow> json_lib \<Rightarrow> int \<Rightarrow> string \<Rightarrow> string \<Rightarrow> string \<Rightarrow> 'db \<Rightarrow> json result" where
  "RetrieveMultiple P J n tableName moduleName moduleType db =
     (case Select P tableName storage_columns (module_filters moduleName moduleType) AND
             order_columns ASC n db of
        Ok results \<Rightarrow>
          (case ProcessRequest J results 0 of
             Ok j \<Rightarrow> Ok j | Throw _ \<Rightarrow> Ok JNull | Terminate \<Rightarrow> Terminate)
      | Throw _ \<Rightarrow> Ok JNull
      | Terminate \<Rightarrow> Terminate)"

definition RetrieveBySize ::
  "'db persistence \<Rightarrow> json_lib \<Rightarrow> nat \<Rightarrow> string \<Rightarrow> string \<Rightarrow> string \<Rightarrow> 'db \<Rightarrow> json result" where
  "RetrieveBySize P J n tableName moduleName moduleType db =
     (case Select P tableName storage_columns (module_filters moduleName moduleType) AND
             order_columns ASC 0 db of
        Ok results \<Rightarrow>
          (case ProcessRequest J results n of
             Ok j \<Rightarrow> Ok j | Throw _ \<Rightarrow> Ok JNull | Terminate \<Rightarrow> Terminate)
      | Throw _ \<Rightarrow> Ok JNull
      | Terminate \<Rightarrow> Terminate)"

definition GetElementCount ::
  "'db persistence \<Rightarrow> string \<Rightarrow> string \<Rightarrow> string \<Rightarrow> 'db \<Rightarrow> int result" where
  "GetElementCount P tableName moduleName moduleType db =
     (case GetCount P tableName (module_filters moduleName moduleType) AND db of
        Ok n \<Rightarrow> Ok n | Throw _ \<Rightarrow> Ok 0 | Terminate \<Rightarrow> Terminate)"

definition GetElementsStoredSize ::
  "'db persistence \<Rightarrow> string \<Rightarrow> string \<Rightarrow> string \<Rightarrow> 'db \<Rightarrow> nat result" where
  "GetElementsStoredSize P tableName moduleName moduleType db =
     (case GetSize P tableName storage_columns (module_filters moduleName moduleType) AND db of
        Ok n \<Rightarrow> Ok n | Throw _ \<Rightarrow> Ok 0 | Terminate \<Rightarrow> Terminate)"

subsection \<open>A table as a sequence of messages\<close>

record entry =
  e_module :: string
  e_type :: string
  e_meta :: string
  e_text :: string

definition entry_of :: "trow \<Rightarrow> entry" where
  "entry_of r =
     \<lparr>e_module = cell_text r MODULE_NAME_COLUMN_NAME, e_type = cell_text r MODULE_TYPE_COLUMN_NAME,
      e_meta = cell_text r METADATA_COLUMN_NAME, e_text = cell_text r MESSAGE_COLUMN_NAME\<rparr>"

definition entries :: "table \<Rightarrow> entry list" where
  "entries T = map entry_of (trows T)"

definition entry_in :: "string \<Rightarrow> string \<Rightarrow> entry \<Rightarrow> bool" where
  "entry_in moduleName moduleType e \<longleftrightarrow>
     (moduleName = [] \<or> e_module e = moduleName) \<and> (moduleType = [] \<or> e_type e = moduleType)"

definition entry_json :: "json_lib \<Rightarrow> entry \<Rightarrow> json option" where
  "entry_json J e = (if e_text e \<noteq> [] then parse J (e_text e) else Some JNull)"

definition entry_output :: "json_lib \<Rightarrow> entry \<Rightarrow> json" where
  "entry_output J e =
     output_json (e_module e) (e_type e) (e_meta e)
       (case entry_json J e of None \<Rightarrow> JNull | Some d \<Rightarrow> d)"

text \<open>The prefix of messages that one request by size takes.\<close>

definition entry_size :: "json_lib \<Rightarrow> entry \<Rightarrow> nat" where
  "entry_size J e =
     length (e_module e) + length (e_type e) + length (e_meta e) +
     (case entry_json J e of None \<Rightarrow> 0
      | Some d \<Rightarrow> (case dump J d of None \<Rightarrow> 0 | Some s \<Rightarrow> length s))"

fun batch :: "json_lib \<Rightarrow> nat \<Rightarrow> nat \<Rightarrow> entry list \<Rightarrow> entry list" where
  "batch J maxSize acc [] = []"
| "batch J maxSize acc (e # es) =
     e # (if acc + entry_size J e \<ge> maxSize then [] else batch J maxSize (acc + entry_size J e) es)"

definition entry_ok :: "json_lib \<Rightarrow> entry \<Rightarrow> bool" where
  "entry_ok J e \<longleftrightarrow> (\<exists>d s. entry_json J e = Some d \<and> dump J d = Some s)"

text \<open>The messages of a table, none if it does not exist, and the messages that one call stores.\<close>

definition stored :: "(string \<Rightarrow> table option) \<Rightarrow> string \<Rightarrow> entry list" where
  "stored ts t = (case ts t of None \<Rightarrow> [] | Some T \<Rightarrow> entries T)"

definition msg_entry :: "json_lib \<Rightarrow> string \<Rightarrow> string \<Rightarrow> string \<Rightarrow> json \<Rightarrow> entry" where
  "msg_entry J moduleName moduleType metadata m =
     \<lparr>e_module = moduleName, e_type = moduleType, e_meta = metadata,
      e_text = (case dump J m of None \<Rightarrow> [] | Some s \<Rightarrow> s)\<rparr>"

definition messages :: "json \<Rightarrow> json list" where
  "messages m = (case m of JArr ms \<Rightarrow> ms | _ \<Rightarrow> [m])"

text \<open>Text without a NUL byte; a value whose printed form exists and is such a text.\<close>

definition plain :: "string \<Rightarrow> bool" where
  "plain s \<longleftrightarrow> CHR 0x00 \<notin> set s"

definition printable :: "json_lib \<Rightarrow> json \<Rightarrow> bool" where
  "printable J m \<longleftrightarrow> (case dump J m of None \<Rightarrow> False | Some s \<Rightarrow> plain s)"

text \<open>The table \<open>t\<close> has the columns of the queue; all other tables, and its columns, are as before.\<close>

definition storage_table :: "(string \<Rightarrow> table option) \<Rightarrow> string \<Rightarrow> bool" where
  "storage_table ts t \<longleftrightarrow> map_option cols (ts t) = Some storage_keys"

definition only_rows_of :: "string \<Rightarrow> (string \<Rightarrow> table option) \<Rightarrow> (string \<Rightarrow> table option) \<Rightarrow> bool" where
  "only_rows_of t ts ts' \<longleftrightarrow>
     (\<forall>t'. t' \<noteq> t \<longrightarrow> ts' t' = ts t') \<and> map_option cols (ts' t) = map_option cols (ts t)"

text \<open>How many messages a limit \<open>n\<close> lets through: all, unless \<open>n\<close> is positive.\<close>

definition limit_count :: "int \<Rightarrow> 'a list \<Rightarrow> nat" where
  "limit_count n xs = (if n > 0 then min (nat n) (length xs) else length xs)"

subsection \<open>Facts on entries\<close>

lemmas storage_defs =
  store_fields_def module_filters_def storage_columns_def order_columns_def column_name_defs
  col_value_def col_name_def

lemma project_storage_columns:
  "map Value (project T storage_columns r) =
     [e_module (entry_of r), e_type (entry_of r), e_meta (entry_of r), e_text (entry_of r)]"
  by (simp add: project_def storage_columns_def col_name_def entry_of_def)

lemma project_storage_nth [simp]:
  "Value (project T storage_columns r ! 0) = e_module (entry_of r)"
  "Value (project T storage_columns r ! Suc 0) = e_type (entry_of r)"
  "Value (project T storage_columns r ! 2) = e_meta (entry_of r)"
  "Value (project T storage_columns r ! 3) = e_text (entry_of r)"
  by (simp_all add: project_def storage_columns_def col_name_def entry_of_def)

lemma project_rowid [simp]:
  "Value (project T [col_name ROW_ID_COLUMN_NAME INTEGER] r ! 0) = dec_int (rowid r)"
  by (simp add: project_def col_name_def cell_text_def cell_def column_name_defs)

lemma process_rows_all:
  assumes "list_all (entry_ok J) (map entry_of rs)"
  shows "process_rows J 0 acc (map (project T storage_columns) rs)
           = Ok (map (entry_output J) (map entry_of rs))"
  using assms
  by (induction rs)
    (auto simp: entry_ok_def entry_json_def entry_output_def Let_def split: if_splits)

lemma process_rows_batch:
  assumes "list_all (entry_ok J) (map entry_of rs)" and "maxSize \<noteq> 0"
  shows "process_rows J maxSize acc (map (project T storage_columns) rs)
           = Ok (map (entry_output J) (batch J maxSize acc (map entry_of rs)))"
  using assms
  by (induction rs arbitrary: acc)
    (auto simp: entry_ok_def entry_json_def entry_output_def entry_size_def Let_def split: if_splits)

lemma batch_prefix: "\<exists>k. batch J m acc es = take k es \<and> (es \<noteq> [] \<longrightarrow> 0 < k) \<and> k \<le> length es"
proof (induction J m acc es rule: batch.induct)
  case (2 J m acc e es)
  show ?case
  proof (cases "acc + entry_size J e \<ge> m")
    case True
    then show ?thesis by (auto intro: exI [of _ "Suc 0"])
  next
    case False
    with 2 obtain k where "batch J m (acc + entry_size J e) es = take k es" and "k \<le> length es"
      by auto
    with False show ?thesis by (auto intro: exI [of _ "Suc k"])
  qed
qed simp

text \<open>
  The batch ends at the first message that makes the sum of the sizes reach the limit: all its
  proper prefixes are below it.
\<close>

lemma batch_size:
  "k < length (batch J m acc es) \<Longrightarrow>
     acc + sum_list (map (entry_size J) (take k (batch J m acc es))) < m \<or> k = 0"
proof (induction J m acc es arbitrary: k rule: batch.induct)
  case (2 J m acc e es)
  show ?case
  proof (cases k)
    case (Suc k')
    with 2(2) have nf: "\<not> acc + entry_size J e \<ge> m" and k': "k' < length (batch J m (acc + entry_size J e) es)"
      by (auto split: if_splits)
    with 2(1) [OF nf k'] Suc show ?thesis by auto
  qed simp
qed simp

lemma batch_full:
  "length (batch J m acc es) < length es \<Longrightarrow>
     m \<le> acc + sum_list (map (entry_size J) (batch J m acc es))"
  by (induction J m acc es rule: batch.induct) (auto split: if_splits simp: add.assoc)

lemma plain_dec_int: "plain (dec_int i)"
proof -
  have "CHR 0x00 \<notin> set (dec_nat n)" for n
    using dec_nat_digits [of n] by (auto simp: list_all_iff isdigit_def)
  then show ?thesis by (simp add: plain_def dec_int_def)
qed

text \<open>The calls of the storage are within the contract of its tables.\<close>

definition shared_fields :: "Row \<Rightarrow> bool" where
  "shared_fields flds \<longleftrightarrow>
     list_all (\<lambda>c. Type c = TEXT \<and>
       Name c \<in> {MODULE_NAME_COLUMN_NAME, MODULE_TYPE_COLUMN_NAME, METADATA_COLUMN_NAME}) flds \<and>
     distinct (map Name flds)"

lemma shared_store_fields: "shared_fields (store_fields mn mt md)"
  by (simp add: shared_fields_def store_fields_def col_value_def column_name_defs)

lemma shared_butlast: "shared_fields flds \<Longrightarrow> shared_fields (butlast flds)"
  by (auto simp: shared_fields_def list_all_iff map_butlast distinct_butlast dest: in_set_butlastD)

lemma storage_keys_ok: "keys_ok storage_keys"
  by (simp add: keys_ok_def key_ok_def attr_defs storage_keys_def col_key_def column_name_defs ident_eval
      same_name_def)

lemma storage_row_ok:
  "shared_fields flds \<Longrightarrow> row_ok storage_keys (flds @ [col_value MESSAGE_COLUMN_NAME TEXT s])"
  by (auto simp: shared_fields_def row_ok_def col_ok_def attr_defs list_all_iff storage_keys_def col_key_def col_value_def
      column_name_defs)

lemma storage_crits_ok: "crits_ok storage_keys (module_filters mn mt)"
  by (simp add: crits_ok_def crit_ok_def col_ok_def attr_defs module_filters_def storage_keys_def col_key_def col_value_def)

lemma rowid_crits_ok: "crits_ok ks [col_value ROW_ID_COLUMN_NAME INTEGER (dec_int i)]"
  by (simp add: crits_ok_def crit_ok_def col_value_def column_name_defs int_text_dec_int)

lemma storage_flds_ok:
  "flds_ok storage_keys storage_columns" "flds_ok storage_keys [col_name ROW_ID_COLUMN_NAME INTEGER]"
  by (simp_all add: flds_ok_def storage_columns_def storage_keys_def col_key_def col_name_def column_name_defs
      attr_defs)

lemma nul_free_module_filters: "plain mn \<Longrightarrow> plain mt \<Longrightarrow> nul_free (module_filters mn mt)"
  by (simp add: nul_free_def module_filters_def col_value_def plain_def)

lemma only_rows_of_refl [simp, intro]: "only_rows_of t ts ts"
  by (simp add: only_rows_of_def)

lemma only_rows_of_trans [trans]:
  "only_rows_of t ts ts' \<Longrightarrow> only_rows_of t ts' ts'' \<Longrightarrow> only_rows_of t ts ts''"
  by (simp add: only_rows_of_def)

lemma only_rows_of_upd [simp]: "ts t = Some T \<Longrightarrow> only_rows_of t ts (ts(t \<mapsto> T\<lparr>trows := rs\<rparr>))"
  by (simp add: only_rows_of_def)

lemma only_rows_of_other: "only_rows_of t ts ts' \<Longrightarrow> t' \<noteq> t \<Longrightarrow> stored ts' t' = stored ts t'"
  by (simp add: only_rows_of_def stored_def)

lemma only_rows_of_table:
  "only_rows_of t ts ts' \<Longrightarrow> storage_table ts' t' \<longleftrightarrow> storage_table ts t'"
  by (cases "t' = t") (auto simp: only_rows_of_def storage_table_def)

lemma stored_upd [simp]: "stored (ts(t \<mapsto> T\<lparr>trows := rs\<rparr>)) t = map entry_of rs"
  by (simp add: stored_def entries_def)

lemma stored_Some: "ts t = Some T \<Longrightarrow> stored ts t = map entry_of (trows T)"
  by (simp add: stored_def entries_def)

lemma msg_entry_Some:
  "dump J m = Some s \<Longrightarrow>
     msg_entry J mn mt md m = \<lparr>e_module = mn, e_type = mt, e_meta = md, e_text = s\<rparr>"
  by (simp add: msg_entry_def)

lemma printableE:
  assumes "printable J m"
  obtains s where "dump J m = Some s" "plain s"
  using assms by (auto simp: printable_def split: option.splits)

lemma storage_tableE:
  assumes "storage_table ts t"
  obtains T where "ts t = Some T" "cols T = storage_keys"
  using assms by (auto simp: storage_table_def)

lemma key_cols_storage: "cols T = storage_keys \<Longrightarrow> key_cols T = []"
  by (simp add: key_cols_def storage_keys_def col_key_def has_attr_def NONE_def NOT_NULL_def
      PRIMARY_KEY_def)

lemma admissible_storage:
  assumes "cols T = storage_keys"
    and "set (map Name flds) \<subseteq> {MODULE_NAME_COLUMN_NAME, MODULE_TYPE_COLUMN_NAME, METADATA_COLUMN_NAME}"
    and "distinct (map Name flds)"
  shows "row_admissible canon T (flds @ [col_value MESSAGE_COLUMN_NAME TEXT s])"
  using assms key_cols_storage [OF assms(1)]
  by (auto simp: row_admissible_def storage_keys_def col_key_def col_value_def has_attr_def NONE_def
      NOT_NULL_def column_name_defs)

context persistence_laws
begin

lemma cell_text_eq:
  "v \<noteq> [] \<Longrightarrow> crit_holds canon (col_value n TEXT v) r \<longleftrightarrow> cell_text r n = v"
  by (auto simp: crit_holds_def col_value_def cell_text_def canon_text split: option.splits)

lemma row_matches_module:
  "row_matches canon AND (module_filters mn mt) r \<longleftrightarrow> entry_in mn mt (entry_of r)"
  by (auto simp: row_matches_def module_filters_def entry_in_def entry_of_def cell_text_eq)

lemma sel_module:
  "sel canon AND (module_filters mn mt) T = filter (\<lambda>r. entry_in mn mt (entry_of r)) (trows T)"
  by (simp add: row_matches_module cong: filter_cong)

lemma entry_of_new_row:
  "entry_of (new_row canon i (store_fields mn mt md @ [col_value MESSAGE_COLUMN_NAME TEXT s])) =
     \<lparr>e_module = mn, e_type = mt, e_meta = md, e_text = s\<rparr>"
  by (simp add: entry_of_def cell_text_def storage_defs stored_cell_def canon_text)

lemma row_matches_rowid:
  "row_matches canon AND [col_value ROW_ID_COLUMN_NAME INTEGER (dec_int i)] r \<longleftrightarrow> rowid r = i"
  by (auto simp: row_matches_def crit_holds_def col_value_def cell_def column_name_defs canon_integer)

lemma distinct_rowids: "inv db \<Longrightarrow> tables db t = Some T \<Longrightarrow> distinct (map rowid (trows T))"
  using rowids_ascend strict_sorted_iff by metis

text \<open>A transaction: what holds of its body's steps on the tables holds of its own.\<close>

lemma in_transaction_law:
  assumes inv: "inv db" and run: "in_transaction P body db = (r, db')"
    and body: "\<forall>d b d'. inv d \<and> tables d = tables db \<and> body d = (b, d') \<longrightarrow>
      inv d' \<and> saved d' = saved d \<and> Q (tables d) b (tables d')"
  shows "inv db' \<and>
    (case r of
       Ok x \<Rightarrow> saved db' = None \<and> Q (tables db) (Ok x) (tables db')
     | Throw e \<Rightarrow> tables db' = tables db \<or> (\<exists>b. Q (tables db) b (tables db'))
     | Terminate \<Rightarrow> Q (tables db) Terminate (tables db'))"
proof -
  obtain b db1 where B: "BeginTransaction P db = (b, db1)" by fastforce
  note bl = Begin_law [OF inv B]
  show ?thesis
  proof (cases b)
    case (Ok k)
    obtain x db2 where X: "body db1 = (x, db2)" by fastforce
    with bl body have b2: "inv db2" "Q (tables db) x (tables db2)" by auto
    obtain c db3 where C: "CommitTransaction P k db2 = (c, db3)" by fastforce
    from Commit_law [OF b2(1) C] b2 run B X C Ok show ?thesis
      by (auto simp: in_transaction_def split: result.splits)
  qed (use bl run B in \<open>auto simp: in_transaction_def\<close>)
qed

lemma storage_insert:
  assumes "inv db" "storage_table (tables db) t" "shared_fields flds"
    and "Insert P t (flds @ [col_value MESSAGE_COLUMN_NAME TEXT s]) db = (r, db')"
  shows "inv db' \<and> saved db' = saved db \<and>
    (case r of
       Ok _ \<Rightarrow> (\<exists>T i. tables db t = Some T \<and>
         tables db' = (tables db)(t \<mapsto>
           map_trows (\<lambda>rs. rs @ [new_row canon i (flds @ [col_value MESSAGE_COLUMN_NAME TEXT s])]) T))
     | Throw _ \<Rightarrow> tables db' = tables db | Terminate \<Rightarrow> False)"
proof -
  from assms(2) obtain T where T: "tables db t = Some T" "cols T = storage_keys" by (rule storage_tableE)
  have "row_ok (cols T) (flds @ [col_value MESSAGE_COLUMN_NAME TEXT s])"
    using storage_row_ok [OF assms(3)] T(2) by simp
  from Insert_law [OF assms(1) T(1) this assms(4)] T(1) show ?thesis by (auto split: result.splits)
qed

lemma insert_entry:
  assumes "inv db" "storage_table (tables db) t"
    and "Insert P t (store_fields mn mt md @ [col_value MESSAGE_COLUMN_NAME TEXT s]) db = (Ok u, db')"
  shows "stored (tables db') t =
      stored (tables db) t @ [\<lparr>e_module = mn, e_type = mt, e_meta = md, e_text = s\<rparr>]"
    and "only_rows_of t (tables db) (tables db')"
  using storage_insert [OF assms(1,2) shared_store_fields assms(3)] by (auto simp: entry_of_new_row stored_Some)

lemma insert_any:
  assumes "inv db" "storage_table (tables db) t" "shared_fields flds"
    and "Insert P t (flds @ [col_value MESSAGE_COLUMN_NAME TEXT s]) db = (r, db')"
  shows "inv db' \<and> saved db' = saved db \<and> only_rows_of t (tables db) (tables db') \<and>
    (\<exists>new. stored (tables db') t = stored (tables db) t @ new \<and>
       length new = (if is_ok r then 1 else 0) \<and> r \<noteq> Terminate)"
  using storage_insert [OF assms] by (auto simp: stored_Some split: result.splits)

text \<open>
  Whatever happens to single messages, the loop only appends, and counts what it appended. Its
  undefined behaviour needs more messages that cannot be printed than there are shared fields.
\<close>

lemma store_messages_appends:
  assumes "inv db" "storage_table (tables db) t" "shared_fields flds" and "store_messages P J t flds ms res db = (r, db')"
  shows "inv db' \<and> saved db' = saved db \<and> only_rows_of t (tables db) (tables db') \<and>
    (\<exists>new. stored (tables db') t = stored (tables db) t @ new \<and>
       (case r of Ok n \<Rightarrow> n = res + int (length new) | Throw _ \<Rightarrow> False
        | Terminate \<Rightarrow> length flds < length (filter (\<lambda>m. dump J m = None) ms)))"
  using assms
proof (induction ms arbitrary: flds res db)
  case (Cons m ms)
  show ?case
  proof (cases "dump J m")
    case None
    show ?thesis
    proof (cases "flds = []")
      case True
      with None Cons.prems show ?thesis by auto
    next
      case False
      with None Cons.prems have "store_messages P J t (butlast flds) ms res db = (r, db')" by simp
      from Cons.IH [OF Cons.prems(1,2) shared_butlast [OF Cons.prems(3)] this] None False show ?thesis
        by (fastforce split: result.splits)
    qed
  next
    case (Some s)
    obtain x db1 where X: "Insert P t (flds @ [col_value MESSAGE_COLUMN_NAME TEXT s]) db = (x, db1)"
      by fastforce
    from insert_any [OF Cons.prems(1-3) X] obtain new where n: "inv db1" "saved db1 = saved db"
      "only_rows_of t (tables db) (tables db1)" "stored (tables db1) t = stored (tables db) t @ new"
      "length new = (if is_ok x then 1 else 0)" "x \<noteq> Terminate" by blast
    let ?res = "if is_ok x then res + 1 else res"
    from X Some n Cons.prems have rest: "store_messages P J t flds ms ?res db1 = (r, db')"
      by (auto split: result.splits)
    from n(3) Cons.prems(2) have "storage_table (tables db1) t" by (simp add: only_rows_of_table)
    from Cons.IH [OF n(1) this Cons.prems(3) rest] n Some show ?thesis
      by (fastforce intro: only_rows_of_trans split: result.splits if_splits)
  qed
qed auto

text \<open>When every message can be printed, what is appended are messages of the call, in its order.\<close>

lemma store_messages_subseq:
  assumes "inv db" "storage_table (tables db) t" and "store_messages P J t (store_fields mn mt md) ms res db = (r, db')"
    and "\<forall>m\<in>set ms. dump J m \<noteq> None"
  shows "\<exists>new. stored (tables db') t = stored (tables db) t @ new \<and>
    subseq new (map (msg_entry J mn mt md) ms)"
  using assms
proof (induction ms arbitrary: res db)
  case (Cons m ms)
  then obtain s where s: "dump J m = Some s" by auto
  obtain x db1 where
    X: "Insert P t (store_fields mn mt md @ [col_value MESSAGE_COLUMN_NAME TEXT s]) db = (x, db1)"
    by fastforce
  note law = storage_insert [OF Cons.prems(1,2) shared_store_fields X]
  note any = insert_any [OF Cons.prems(1,2) shared_store_fields X]
  have st: "storage_table (tables db1) t" using any Cons.prems(2) only_rows_of_table by blast
  have step: "\<exists>res. store_messages P J t (store_fields mn mt md) ms res db1 = (r, db')"
    using X s law Cons.prems by (auto split: result.splits)
  then obtain new where new: "stored (tables db') t = stored (tables db1) t @ new"
    "subseq new (map (msg_entry J mn mt md) ms)"
    using Cons.IH [of db1] st Cons.prems(4) law by auto
  show ?case
  proof (cases x)
    case (Ok u)
    with insert_entry [OF Cons.prems(1,2)] X new s show ?thesis by (auto simp: msg_entry_Some)
  qed (use law new in \<open>auto intro: exI [of _ new]\<close>)
qed auto

lemma messages_simps [simp]: "messages (JArr ms) = ms" "\<not> is_array m \<Longrightarrow> messages m = [m]"
  by (auto simp: messages_def is_array_def split: json.splits)

lemma store_body_array [simp]:
  "store_body P J (JArr ms) t flds d = store_messages P J t flds ms 0 d"
  "\<not> is_array m \<Longrightarrow> store_body P J m t flds d = store_single P J t flds m d"
  by (auto simp: store_body_def split: json.splits)

lemma store_single_law:
  assumes "inv d" "storage_table (tables d) t" "store_single P J t (store_fields mn mt md) m d = (b, d')"
  shows "inv d' \<and> saved d' = saved d \<and> only_rows_of t (tables d) (tables d') \<and>
    ((b = Ok 0 \<and> stored (tables d') t = stored (tables d) t) \<or>
     (b = Ok 1 \<and> stored (tables d') t = stored (tables d) t @ [msg_entry J mn mt md m]))"
proof (cases "dump J m")
  case None
  with assms show ?thesis by (simp add: store_single_def)
next
  case (Some s)
  obtain x d1 where
    X: "Insert P t (store_fields mn mt md @ [col_value MESSAGE_COLUMN_NAME TEXT s]) d = (x, d1)"
    by fastforce
  note law = storage_insert [OF assms(1,2) shared_store_fields X]
  show ?thesis
  proof (cases x)
    case (Ok u)
    with insert_entry [OF assms(1,2)] X Some law assms(3) show ?thesis
      by (auto simp: store_single_def msg_entry_Some)
  qed (use law X Some assms(3) in \<open>auto simp: store_single_def\<close>)
qed

lemma store_body_law:
  assumes "inv d" "storage_table (tables d) t" "store_body P J m t (store_fields mn mt md) d = (b, d')"
  shows "inv d' \<and> saved d' = saved d \<and> only_rows_of t (tables d) (tables d') \<and>
    (\<exists>new. stored (tables d') t = stored (tables d) t @ new \<and>
       (\<forall>n. b = Ok n \<longrightarrow> n = int (length new)) \<and> (\<forall>e. b \<noteq> Throw e) \<and>
       ((\<forall>x\<in>set (messages m). dump J x \<noteq> None) \<longrightarrow>
          subseq new (map (msg_entry J mn mt md) (messages m))) \<and>
       (b = Terminate \<longrightarrow> 3 < length (filter (\<lambda>m. dump J m = None) (messages m))))"
proof (cases "is_array m")
  case True
  then obtain ms where m: "m = JArr ms" by (auto simp: is_array_iff)
  with assms(3) have run: "store_messages P J t (store_fields mn mt md) ms 0 d = (b, d')" by simp
  from store_messages_appends [OF assms(1,2) shared_store_fields run] obtain new where
    new: "inv d'" "saved d' = saved d" "only_rows_of t (tables d) (tables d')"
      "stored (tables d') t = stored (tables d) t @ new"
      "case b of Ok n \<Rightarrow> n = 0 + int (length new) | Throw _ \<Rightarrow> False
        | Terminate \<Rightarrow> length (store_fields mn mt md) < length (filter (\<lambda>m. dump J m = None) ms)"
    by blast
  have "subseq new (map (msg_entry J mn mt md) ms)" if "\<forall>x\<in>set ms. dump J x \<noteq> None"
    using store_messages_subseq [OF assms(1,2) run that] new(4) by auto
  with new m show ?thesis
    by (intro conjI exI [of _ new]) (auto simp: store_fields_def)
next
  case False
  with assms(3) have run: "store_single P J t (store_fields mn mt md) m d = (b, d')" by simp
  from store_single_law [OF assms(1,2) run] False show ?thesis by auto
qed

lemma Store_law:
  assumes "inv db" "storage_table (tables db) t" and "Store P J m t mn mt md db = (r, db')"
  shows "inv db' \<and> only_rows_of t (tables db) (tables db') \<and>
    (is_ok r \<longrightarrow> saved db' = None) \<and>
    (\<exists>new. stored (tables db') t = stored (tables db) t @ new \<and>
       (\<forall>n. r = Ok n \<longrightarrow> n = int (length new)) \<and>
       ((\<forall>x\<in>set (messages m). dump J x \<noteq> None) \<longrightarrow>
          subseq new (map (msg_entry J mn mt md) (messages m))) \<and>
       (r = Terminate \<longrightarrow> 3 < length (filter (\<lambda>m. dump J m = None) (messages m))))"
proof -
  let ?Q = "\<lambda>ts r ts'. only_rows_of t ts ts' \<and>
    (\<exists>new. stored ts' t = stored ts t @ new \<and>
       (\<forall>n. r = Ok n \<longrightarrow> n = int (length new)) \<and>
       ((\<forall>x\<in>set (messages m). dump J x \<noteq> None) \<longrightarrow>
          subseq new (map (msg_entry J mn mt md) (messages m))) \<and>
       (r = Terminate \<longrightarrow> 3 < length (filter (\<lambda>m. dump J m = None) (messages m))))"
  have body: "\<forall>d b d'. inv d \<and> tables d = tables db \<and> store_body P J m t (store_fields mn mt md) d = (b, d') \<longrightarrow>
      inv d' \<and> saved d' = saved d \<and> ?Q (tables d) b (tables d')"
  proof (intro allI impI)
    fix d b d'
    assume d: "inv d \<and> tables d = tables db \<and> store_body P J m t (store_fields mn mt md) d = (b, d')"
    then have "inv d" "storage_table (tables d) t" "store_body P J m t (store_fields mn mt md) d = (b, d')"
      using assms(2) by simp_all
    from store_body_law [OF this] show "inv d' \<and> saved d' = saved d \<and> ?Q (tables d) b (tables d')" by blast
  qed
  from in_transaction_law [OF assms(1) assms(3) [unfolded Store_def], of ?Q, OF body]
  show ?thesis by (cases r) (auto 4 4)
qed

subsection \<open>RemoveMultiple\<close>

lemma remove_rowid:
  assumes "inv db" "tables db t = Some T" "Remove P t [col_value ROW_ID_COLUMN_NAME INTEGER (dec_int i)] AND db = (x, db')"
  shows "inv db' \<and> saved db' = saved db \<and> x \<noteq> Terminate \<and>
    (case x of
       Ok _ \<Rightarrow> tables db' = (tables db)(t \<mapsto> map_trows (filter (\<lambda>r. rowid r \<noteq> i)) T)
     | _ \<Rightarrow> tables db' = tables db)"
  using Remove_law [OF assms(1,2) rowid_crits_ok assms(3)] by (auto simp: row_matches_rowid split: result.splits)

text \<open>The loop over the selected rows deletes a set of them, by their row identifiers.\<close>

lemma remove_rows_law:
  assumes "inv db"
    and "remove_rows P t (map (project T' [col_name ROW_ID_COLUMN_NAME INTEGER]) rs) res db = (r, db')"
    and "tables db t = Some T" and "distinct (map rowid rs)"
  shows "inv db' \<and> saved db' = saved db \<and> only_rows_of t (tables db) (tables db') \<and>
    (\<exists>gone. gone \<subseteq> rowid ` set rs \<and> r = Ok (res + int (card gone)) \<and>
      tables db' t = Some (map_trows (filter (\<lambda>x. rowid x \<notin> gone)) T))"
  using assms
proof (induction rs arbitrary: res db T)
  case Nil
  then show ?case by (auto intro!: exI [of _ "{}"])
next
  case (Cons x rs)
  obtain y db1 where
    Y: "Remove P t [col_value ROW_ID_COLUMN_NAME INTEGER (dec_int (rowid x))] AND db = (y, db1)"
    by fastforce
  note law = remove_rowid [OF Cons.prems(1,3) Y]
  let ?rows = "map (project T' [col_name ROW_ID_COLUMN_NAME INTEGER]) rs"
  show ?case
  proof (cases y)
    case (Ok u)
    let ?T = "map_trows (filter (\<lambda>r. rowid r \<noteq> rowid x)) T"
    from law Ok Cons.prems have d: "inv db1" "saved db1 = saved db"
      "only_rows_of t (tables db) (tables db1)" "tables db1 t = Some ?T"
      by auto
    from Ok Y Cons.prems have rest: "remove_rows P t ?rows (res + 1) db1 = (r, db')" by simp
    have dist: "distinct (map rowid rs)" and new: "rowid x \<notin> rowid ` set rs"
      using Cons.prems(4) by auto
    from Cons.IH [OF d(1) rest d(4) dist] obtain gone where
      g: "inv db'" "saved db' = saved db1" "only_rows_of t (tables db1) (tables db')"
        "gone \<subseteq> rowid ` set rs" "r = Ok (res + 1 + int (card gone))"
        "tables db' t = Some (map_trows (filter (\<lambda>x. rowid x \<notin> gone)) ?T)"
      by blast
    have fin: "finite gone" using g(4) by (rule finite_subset) simp
    have "card (insert (rowid x) gone) = Suc (card gone)" using fin g(4) new by (intro card_insert_disjoint) auto
    moreover have "tables db' t = Some (map_trows (filter (\<lambda>r. rowid r \<notin> insert (rowid x) gone)) T)"
      using g(6) by (simp add: conj_commute)
    ultimately show ?thesis
      using g d by (intro conjI exI [of _ "insert (rowid x) gone"]) (auto intro: only_rows_of_trans)
  next
    case (Throw e)
    with law Y Cons.prems have d: "inv db1" "saved db1 = saved db" "tables db1 = tables db"
      "remove_rows P t ?rows res db1 = (r, db')" by auto
    from d(3) Cons.prems(3) have t: "tables db1 t = Some T" by simp
    from Cons.prems(4) have "distinct (map rowid rs)" by simp
    from Cons.IH [OF d(1,4) t this] d(2,3) obtain gone where
      "inv db'" "saved db' = saved db" "only_rows_of t (tables db) (tables db')"
      "gone \<subseteq> rowid ` set rs" "r = Ok (res + int (card gone))"
      "tables db' t = Some (map_trows (filter (\<lambda>x. rowid x \<notin> gone)) T)"
      by metis
    then show ?thesis by (intro conjI exI [of _ gone]) auto
  qed (use law in simp)
qed

lemma Select_rowid:
  assumes "inv db" "storage_table (tables db) t" "flds_ok storage_keys flds"
    and "Select P t flds (module_filters mn mt) AND [col_name ROW_ID_COLUMN_NAME ty] ASC n db = Ok rows"
  shows "\<exists>T. tables db t = Some T \<and>
    rows = map (project T flds) (limit_rows n (filter (\<lambda>r. entry_in mn mt (entry_of r)) (trows T)))"
proof -
  from assms(2) obtain T where T: "tables db t = Some T" "cols T = storage_keys" by (rule storage_tableE)
  have "flds_ok (cols T) flds" "crits_ok (cols T) (module_filters mn mt)"
    using assms(3) T(2) by (simp_all add: storage_crits_ok)
  from Select_rowid_law [OF assms(1) T(1) this _ assms(4)] T(1) show ?thesis
    by (simp add: col_name_def ROW_ID_COLUMN_NAME_def sel_module)
qed

text \<open>
  What a removal can do, whatever fails on the way: it deletes as many messages as it reports, all of
  them messages of the module it was asked for, at most \<open>n\<close> if \<open>n\<close> is positive.
\<close>

lemma remove_body_law:
  assumes "inv d" "storage_table (tables d) t" "remove_body P n t mn mt d = (b, d')"
  shows "inv d' \<and> saved d' = saved d \<and> only_rows_of t (tables d) (tables d') \<and>
    (\<exists>k. b = Ok (int k) \<and> removed_some (entry_in mn mt) k (stored (tables d) t) (stored (tables d') t) \<and>
      (n > 0 \<longrightarrow> int k \<le> n))"
proof (cases "Select P t [col_name ROW_ID_COLUMN_NAME INTEGER] (module_filters mn mt) AND
    [col_name ROW_ID_COLUMN_NAME INTEGER] ASC n d")
  case (Ok rows)
  from Select_rowid [OF assms(1,2) storage_flds_ok(2) Ok] obtain T where T: "tables d t = Some T" and
    rows: "rows = map (project T [col_name ROW_ID_COLUMN_NAME INTEGER])
      (limit_rows n (filter (\<lambda>r. entry_in mn mt (entry_of r)) (trows T)))" by blast
  let ?rs = "limit_rows n (filter (\<lambda>r. entry_in mn mt (entry_of r)) (trows T))"
  have sub: "subseq ?rs (trows T)"
    by (metis limit_rows_prefix prefix_imp_subseq subseq_filter_left subseq_order.order_trans take_is_prefix)
  from distinct_rowids [OF assms(1) T] have dT: "distinct (map rowid (trows T))" .
  with sub have d: "distinct (map rowid ?rs)" by (meson subseq_imp_distinct subseq_map)
  from Ok assms(3) rows have
    run: "remove_rows P t (map (project T [col_name ROW_ID_COLUMN_NAME INTEGER]) ?rs) 0 d = (b, d')"
    by (simp add: remove_body_def)
  from remove_rows_law [OF assms(1) run T d] obtain gone where
    g: "inv d'" "saved d' = saved d" "only_rows_of t (tables d) (tables d')"
      "gone \<subseteq> rowid ` set ?rs" "b = Ok (int (card gone))"
      "tables d' t = Some (map_trows (filter (\<lambda>x. rowid x \<notin> gone)) T)"
    by auto
  have "gone \<subseteq> rowid ` set (filter (\<lambda>r. entry_in mn mt (entry_of r)) (trows T))"
    using g(4) by (auto simp: limit_rows_def split: if_splits dest!: in_set_takeD)
  then have "removed_some (entry_in mn mt) (card gone) (stored (tables d) t) (stored (tables d') t)"
    unfolding stored_Some [where ts = "tables d", OF T] stored_Some [where ts = "tables d'", OF g(6)]
    using removed_some_key [OF dT] by (auto intro: removed_some_map)
  moreover have "n > 0 \<longrightarrow> int (card gone) \<le> n"
    using card_mono [OF _ g(4)] card_length [of "map rowid ?rs"] by (auto simp: length_limit_rows)
  ultimately show ?thesis using g by auto
qed (use assms in \<open>auto simp: remove_body_def Let_def removed_some_refl Select_returns\<close>)

end

context persistence_laws
begin

lemma RemoveMultiple_law:
  assumes "inv db" "storage_table (tables db) t" "RemoveMultiple P n t mn mt db = (r, db')"
  shows "inv db' \<and> only_rows_of t (tables db) (tables db') \<and> r \<noteq> Terminate \<and>
    (is_ok r \<longrightarrow> saved db' = None) \<and>
    (\<exists>k. (is_ok r \<longrightarrow> r = Ok (int k)) \<and> (n > 0 \<longrightarrow> int k \<le> n) \<and>
       removed_some (entry_in mn mt) k (stored (tables db) t) (stored (tables db') t))"
proof -
  let ?Q = "\<lambda>ts b ts'. only_rows_of t ts ts' \<and>
    (\<exists>k. b = Ok (int k) \<and> (n > 0 \<longrightarrow> int k \<le> n) \<and> removed_some (entry_in mn mt) k (stored ts t) (stored ts' t))"
  have body: "\<forall>d b d'. inv d \<and> tables d = tables db \<and> remove_body P n t mn mt d = (b, d') \<longrightarrow>
      inv d' \<and> saved d' = saved d \<and> ?Q (tables d) b (tables d')"
  proof (intro allI impI)
    fix d b d'
    assume d: "inv d \<and> tables d = tables db \<and> remove_body P n t mn mt d = (b, d')"
    then have "inv d" "storage_table (tables d) t" "remove_body P n t mn mt d = (b, d')" using assms(2) by simp_all
    from remove_body_law [OF this] show "inv d' \<and> saved d' = saved d \<and> ?Q (tables d) b (tables d')" by blast
  qed
  note law = in_transaction_law [OF assms(1) assms(3) [unfolded RemoveMultiple_def], of ?Q, OF body]
  show ?thesis
  proof (cases r)
    case (Throw e)
    show ?thesis
    proof (cases "tables db' = tables db")
      case True
      with Throw law show ?thesis by (auto simp: removed_some_refl intro!: exI [of _ "0::nat"])
    next
      case False
      with Throw law show ?thesis by auto
    qed
  qed (use law in auto)
qed

lemma RetrieveMultiple_selected:
  assumes "inv db" "storage_table (tables db) t" "list_all (entry_ok J) (stored (tables db) t)"
    and Ok: "Select P t storage_columns (module_filters mn mt) AND order_columns ASC n db = Ok rows"
  shows "RetrieveMultiple P J n t mn mt db =
    Ok (JArr (map (entry_output J) (limit_rows n (filter (entry_in mn mt) (stored (tables db) t)))))"
proof -
  from Select_rowid [OF assms(1,2) storage_flds_ok(1) Ok [unfolded order_columns_def]] obtain T where
    T: "tables db t = Some T" and
    rows: "rows = map (project T storage_columns)
      (limit_rows n (filter (\<lambda>r. entry_in mn mt (entry_of r)) (trows T)))" by blast
  have "process_rows J 0 0 rows = Ok (map (entry_output J)
      (map entry_of (limit_rows n (filter (\<lambda>r. entry_in mn mt (entry_of r)) (trows T)))))"
    unfolding rows using assms(3) T
    by (intro process_rows_all)
      (auto simp: stored_Some list_all_iff limit_rows_def dest!: in_set_takeD split: if_splits)
  with Ok T show ?thesis
    by (simp add: RetrieveMultiple_def ProcessRequest_def stored_Some filter_map o_def limit_rows_def take_map
        split: if_splits)
qed

lemma RetrieveBySize_selected:
  assumes "inv db" "storage_table (tables db) t" "list_all (entry_ok J) (stored (tables db) t)" "n \<noteq> 0"
    and Ok: "Select P t storage_columns (module_filters mn mt) AND order_columns ASC 0 db = Ok rows"
  shows "RetrieveBySize P J n t mn mt db =
    Ok (JArr (map (entry_output J) (batch J n 0 (filter (entry_in mn mt) (stored (tables db) t)))))"
proof -
  from Select_rowid [OF assms(1,2) storage_flds_ok(1) Ok [unfolded order_columns_def]] obtain T where
    T: "tables db t = Some T" and
    rows: "rows = map (project T storage_columns)
      (filter (\<lambda>r. entry_in mn mt (entry_of r)) (trows T))" by (auto simp: limit_rows_def)
  have "process_rows J n 0 rows = Ok (map (entry_output J)
      (batch J n 0 (map entry_of (filter (\<lambda>r. entry_in mn mt (entry_of r)) (trows T)))))"
    unfolding rows using assms T
    by (intro process_rows_batch) (auto simp: stored_Some list_all_iff)
  with Ok T show ?thesis
    by (simp add: RetrieveBySize_def ProcessRequest_def stored_Some filter_map o_def)
qed

lemma RetrieveMultiple_law:
  assumes "inv db" "storage_table (tables db) t" "list_all (entry_ok J) (stored (tables db) t)"
  shows "RetrieveMultiple P J n t mn mt db = Ok JNull \<or>
    RetrieveMultiple P J n t mn mt db =
      Ok (JArr (map (entry_output J) (limit_rows n (filter (entry_in mn mt) (stored (tables db) t)))))"
proof (cases "Select P t storage_columns (module_filters mn mt) AND order_columns ASC n db")
  case (Ok rows)
  with RetrieveMultiple_selected [OF assms] show ?thesis by blast
qed (use assms in \<open>auto simp: RetrieveMultiple_def Select_returns\<close>)

lemma RetrieveBySize_law:
  assumes "inv db" "storage_table (tables db) t" "list_all (entry_ok J) (stored (tables db) t)" "n \<noteq> 0"
  shows "RetrieveBySize P J n t mn mt db = Ok JNull \<or>
    RetrieveBySize P J n t mn mt db =
      Ok (JArr (map (entry_output J) (batch J n 0 (filter (entry_in mn mt) (stored (tables db) t)))))"
proof (cases "Select P t storage_columns (module_filters mn mt) AND order_columns ASC 0 db")
  case (Ok rows)
  with RetrieveBySize_selected [OF assms] show ?thesis by blast
qed (use assms in \<open>auto simp: RetrieveBySize_def Select_returns\<close>)

lemma GetElementCount_law:
  assumes "inv db" "storage_table (tables db) t" "GetElementCount P t mn mt db = Ok n"
  shows "n = 0 \<or> n = as_int32 (int (length (filter (entry_in mn mt) (stored (tables db) t))))"
proof -
  from assms(2) obtain T where T: "tables db t = Some T" "cols T = storage_keys" by (rule storage_tableE)
  have "crits_ok (cols T) (module_filters mn mt)" by (simp add: T(2) storage_crits_ok)
  from GetCount_law [OF assms(1) T(1) this] assms(3) T(1) show ?thesis
    by (fastforce simp: GetElementCount_def stored_Some filter_map o_def sel_module split: result.splits)
qed

end

context reliable_persistence
begin

lemma in_transaction_exact:
  assumes "inv db" "saved db = None"
    and body: "\<And>d. inv d \<Longrightarrow> tables d = tables db \<Longrightarrow>
      \<exists>d'. body d = (Ok x, d') \<and> inv d' \<and> saved d' = saved d \<and> R (tables d')"
  shows "\<exists>db'. in_transaction P body db = (Ok x, db') \<and> inv db' \<and> saved db' = None \<and> R (tables db')"
proof -
  obtain k db1 where B: "BeginTransaction P db = (Ok k, db1)"
    using Begin_ok [OF assms(1,2)] by (metis is_ok_iff prod.collapse)
  note bl = Begin_law [OF assms(1) B]
  obtain db2 where X: "body db1 = (Ok x, db2)" "inv db2" "saved db2 = saved db1" "R (tables db2)"
    using body [of db1] bl by auto
  from X(3) bl have "saved db2 = Some (k, tables db)" by simp
  from Commit_ok [OF X(2) this] obtain db3 where C: "CommitTransaction P k db2 = (Ok (), db3)"
    by (metis prod.collapse)
  from B X C Commit_law [OF X(2) C] show ?thesis by (simp add: in_transaction_def)
qed

lemma insert_entry_ok:
  assumes "inv db" "storage_table (tables db) t" "plain mn" "plain mt" "plain md" "plain s"
  shows "fst (Insert P t (store_fields mn mt md @ [col_value MESSAGE_COLUMN_NAME TEXT s]) db) = Ok ()"
proof -
  from assms(2) obtain T where T: "tables db t = Some T" "cols T = storage_keys"
    by (rule storage_tableE)
  have "row_admissible canon T (store_fields mn mt md @ [col_value MESSAGE_COLUMN_NAME TEXT s])"
    using T(2) by (rule admissible_storage) (auto simp: storage_defs)
  moreover have "row_ok (cols T) (store_fields mn mt md @ [col_value MESSAGE_COLUMN_NAME TEXT s])"
    using storage_row_ok [OF shared_store_fields] T(2) by simp
  ultimately show ?thesis
    using Insert_ok [OF assms(1) T(1)] assms by (simp add: nul_free_def plain_def store_fields_def col_value_def)
qed

lemma store_messages_exact:
  assumes "inv db" "storage_table (tables db) t" "plain mn" "plain mt" "plain md"
    and "list_all (printable J) ms"
  shows "\<exists>db'. store_messages P J t (store_fields mn mt md) ms res db = (Ok (res + int (length ms)), db') \<and>
    inv db' \<and> saved db' = saved db \<and>
    stored (tables db') t = stored (tables db) t @ map (msg_entry J mn mt md) ms"
  using assms
proof (induction ms arbitrary: res db)
  case (Cons m ms)
  then obtain s where s: "dump J m = Some s" "plain s" by (auto elim: printableE)
  obtain db1 where
    X: "Insert P t (store_fields mn mt md @ [col_value MESSAGE_COLUMN_NAME TEXT s]) db = (Ok (), db1)"
    using insert_entry_ok [OF Cons.prems(1-5) s(2)] by (metis prod.collapse)
  note law = storage_insert [OF Cons.prems(1,2) shared_store_fields X] insert_entry [OF Cons.prems(1,2) X]
  from law(3) Cons.prems(2) have "storage_table (tables db1) t" by (simp add: only_rows_of_table)
  with Cons.IH [of db1 "res + 1"] law Cons.prems X s show ?case by (auto simp: msg_entry_Some)
qed simp

lemma store_body_exact:
  assumes "inv db" "storage_table (tables db) t" "plain mn" "plain mt" "plain md"
    and "list_all (printable J) (messages m)"
  shows "\<exists>db'. store_body P J m t (store_fields mn mt md) db = (Ok (int (length (messages m))), db') \<and>
    inv db' \<and> saved db' = saved db \<and>
    stored (tables db') t = stored (tables db) t @ map (msg_entry J mn mt md) (messages m)"
proof (cases "is_array m")
  case True
  then obtain ms where "m = JArr ms" by (auto simp: is_array_iff)
  with store_messages_exact [OF assms(1-5), of J ms 0] assms(6) show ?thesis by simp
next
  case False
  with assms(6) obtain s where s: "dump J m = Some s" "plain s" by (auto elim: printableE)
  obtain db1 where
    X: "Insert P t (store_fields mn mt md @ [col_value MESSAGE_COLUMN_NAME TEXT s]) db = (Ok (), db1)"
    using insert_entry_ok [OF assms(1-5) s(2)] by (metis prod.collapse)
  then show ?thesis
    using storage_insert [OF assms(1,2) shared_store_fields X] insert_entry [OF assms(1,2) X] False s
    by (auto simp: store_single_def msg_entry_Some)
qed

lemma Store_exact:
  assumes "inv db" "saved db = None" "storage_table (tables db) t" "plain mn" "plain mt" "plain md"
    and "list_all (printable J) (messages m)"
  shows "\<exists>db'. Store P J m t mn mt md db = (Ok (int (length (messages m))), db') \<and>
    inv db' \<and> saved db' = None \<and> only_rows_of t (tables db) (tables db') \<and>
    stored (tables db') t = stored (tables db) t @ map (msg_entry J mn mt md) (messages m)"
proof -
  let ?R = "\<lambda>ts. stored ts t = stored (tables db) t @ map (msg_entry J mn mt md) (messages m)"
  have body: "\<exists>d'. store_body P J m t (store_fields mn mt md) d = (Ok (int (length (messages m))), d') \<and>
      inv d' \<and> saved d' = saved d \<and> ?R (tables d')"
    if "inv d" "tables d = tables db" for d
    using store_body_exact [OF that(1) _ assms(4-7)] assms(3) that(2) by simp
  from in_transaction_exact [OF assms(1,2), of _ _ ?R, OF body] obtain db' where
    "Store P J m t mn mt md db = (Ok (int (length (messages m))), db')" "inv db'" "saved db' = None"
    "?R (tables db')" by (auto simp: Store_def)
  with Store_law [OF assms(1,3)] show ?thesis by blast
qed

lemma remove_rows_exact:
  assumes "inv db" "tables db t = Some T"
  shows "fst (remove_rows P t (map (project T' [col_name ROW_ID_COLUMN_NAME INTEGER]) rs) res db)
    = Ok (res + int (length rs))"
  using assms
proof (induction rs arbitrary: res db T)
  case (Cons x rs)
  let ?c = "[col_value ROW_ID_COLUMN_NAME INTEGER (dec_int (rowid x))]"
  have nul: "nul_free ?c"
    using plain_dec_int [of "rowid x"] by (simp add: nul_free_def col_value_def plain_def)
  obtain db1 where Y: "Remove P t ?c AND db = (Ok (), db1)"
    using Remove_ok [OF Cons.prems rowid_crits_ok nul, of AND] by (metis prod.collapse)
  from remove_rowid [OF Cons.prems Y] Cons.IH [of db1 _ "res + 1"] Y Cons.prems show ?case by auto
qed simp

lemma remove_body_exact:
  assumes "inv d" "storage_table (tables d) t" "plain mn" "plain mt"
  shows "\<exists>d'. remove_body P n t mn mt d =
      (Ok (int (limit_count n (filter (entry_in mn mt) (stored (tables d) t)))), d') \<and>
    inv d' \<and> saved d' = saved d \<and>
    stored (tables d') t =
      remove_n (limit_count n (filter (entry_in mn mt) (stored (tables d) t))) (entry_in mn mt) (stored (tables d) t)"
proof -
  let ?ids = "[col_name ROW_ID_COLUMN_NAME INTEGER]"
  from assms(2) obtain T where T: "tables d t = Some T" "cols T = storage_keys" by (rule storage_tableE)
  have "is_ok (Select P t ?ids (module_filters mn mt) AND ?ids ASC n d)"
    by (rule Select_ok [OF assms(1) T(1)])
      (use storage_flds_ok(2) in \<open>simp_all add: T(2) storage_crits_ok nul_free_module_filters assms(3,4)
        col_name_def column_name_defs\<close>)
  then obtain rows where S: "Select P t ?ids (module_filters mn mt) AND ?ids ASC n d = Ok rows" by auto
  note T = T(1)
  let ?p = "\<lambda>r. entry_in mn mt (entry_of r)"
  let ?rs = "limit_rows n (filter ?p (trows T))"
  from Select_rowid [OF assms(1,2) storage_flds_ok(2) S] T have rows: "rows = map (project T ?ids) ?rs" by auto
  let ?k = "limit_count n (filter (entry_in mn mt) (stored (tables d) t))"
  have rs: "?rs = take ?k (filter ?p (trows T))"
    by (auto simp: limit_rows_def limit_count_def stored_Some T filter_map o_def take_min_length)
  have dist: "distinct (map rowid (trows T))" by (rule distinct_rowids [OF assms(1) T])
  then have d: "distinct (map rowid ?rs)"
    unfolding rs by (simp add: distinct_map_filter flip: take_map)
  obtain b d' where run: "remove_rows P t (map (project T ?ids) ?rs) 0 d = (b, d')" by fastforce
  have "b = Ok (int (length ?rs))" using remove_rows_exact [OF assms(1) T, of T ?rs 0] run by simp
  with remove_rows_law [OF assms(1) run T d] obtain gone where
    g: "inv d'" "saved d' = saved d" "gone \<subseteq> rowid ` set ?rs" "card gone = length ?rs"
      "tables d' t = Some (map_trows (filter (\<lambda>x. rowid x \<notin> gone)) T)" by auto
  have "gone = rowid ` set ?rs"
    using g(3,4) d by (metis card_subset_eq distinct_card finite_imageI finite_set length_map set_map)
  with g(5) dist rs have "stored (tables d') t = remove_n ?k (entry_in mn mt) (stored (tables d) t)"
    by (simp add: stored_Some T filter_key_remove_n map_remove_n)
  moreover have "length ?rs = ?k"
    unfolding rs by (simp add: limit_count_def stored_Some T filter_map o_def)
  ultimately show ?thesis
    using S rows run g \<open>b = _\<close> by (auto simp: remove_body_def)
qed

lemma RemoveMultiple_exact:
  assumes "inv db" "saved db = None" "storage_table (tables db) t" "plain mn" "plain mt"
  shows "\<exists>db'. RemoveMultiple P n t mn mt db =
      (Ok (int (limit_count n (filter (entry_in mn mt) (stored (tables db) t)))), db') \<and>
    inv db' \<and> saved db' = None \<and> only_rows_of t (tables db) (tables db') \<and>
    stored (tables db') t =
      remove_n (limit_count n (filter (entry_in mn mt) (stored (tables db) t))) (entry_in mn mt)
        (stored (tables db) t)"
proof -
  let ?k = "limit_count n (filter (entry_in mn mt) (stored (tables db) t))"
  let ?R = "\<lambda>ts. stored ts t = remove_n ?k (entry_in mn mt) (stored (tables db) t)"
  have body: "\<exists>d'. remove_body P n t mn mt d = (Ok (int ?k), d') \<and> inv d' \<and> saved d' = saved d \<and> ?R (tables d')"
    if "inv d" "tables d = tables db" for d
    using remove_body_exact [OF that(1) _ assms(4,5)] assms(3) that(2) by simp
  from in_transaction_exact [OF assms(1,2), of _ _ ?R, OF body] obtain db' where
    "RemoveMultiple P n t mn mt db = (Ok (int ?k), db')" "inv db'" "saved db' = None" "?R (tables db')"
    by (auto simp: RemoveMultiple_def)
  with RemoveMultiple_law [OF assms(1,3)] show ?thesis by blast
qed

lemma Select_storage_ok:
  assumes "inv db" "storage_table (tables db) t" "plain mn" "plain mt"
  obtains rows where
    "Select P t storage_columns (module_filters mn mt) AND order_columns ASC n db = Ok rows"
proof -
  from assms(2) obtain T where T: "tables db t = Some T" "cols T = storage_keys" by (rule storage_tableE)
  have "is_ok (Select P t storage_columns (module_filters mn mt) AND order_columns ASC n db)"
    by (rule Select_ok [OF assms(1) T(1)])
      (use storage_flds_ok(1) in \<open>simp_all add: T(2) storage_crits_ok nul_free_module_filters assms(3,4)
        order_columns_def col_name_def column_name_defs\<close>)
  with that show ?thesis by auto
qed

lemma RetrieveMultiple_exact:
  assumes "inv db" "storage_table (tables db) t" "plain mn" "plain mt"
    and "list_all (entry_ok J) (stored (tables db) t)"
  shows "RetrieveMultiple P J n t mn mt db =
    Ok (JArr (map (entry_output J) (limit_rows n (filter (entry_in mn mt) (stored (tables db) t)))))"
  using Select_storage_ok [OF assms(1-4)] RetrieveMultiple_selected [OF assms(1,2,5)] by metis

lemma RetrieveBySize_exact:
  assumes "inv db" "storage_table (tables db) t" "plain mn" "plain mt"
    and "list_all (entry_ok J) (stored (tables db) t)" "n \<noteq> 0"
  shows "RetrieveBySize P J n t mn mt db =
    Ok (JArr (map (entry_output J) (batch J n 0 (filter (entry_in mn mt) (stored (tables db) t)))))"
  using Select_storage_ok [OF assms(1-4)] RetrieveBySize_selected [OF assms(1,2,5,6)] by metis

lemma GetElementCount_exact:
  assumes "inv db" "storage_table (tables db) t" "plain mn" "plain mt"
    and "length (filter (entry_in mn mt) (stored (tables db) t)) < 2 ^ 31"
  shows "GetElementCount P t mn mt db = Ok (int (length (filter (entry_in mn mt) (stored (tables db) t))))"
proof -
  from assms(2) obtain T where T: "tables db t = Some T" "cols T = storage_keys" by (rule storage_tableE)
  have cs: "crits_ok (cols T) (module_filters mn mt)" by (simp add: T(2) storage_crits_ok)
  from GetCount_ok [OF assms(1) T(1) cs nul_free_module_filters [OF assms(3,4)]] obtain n where
    G: "GetCount P t (module_filters mn mt) AND db = Ok n" by fastforce
  from GetCount_law [OF assms(1) T(1) cs G] T assms(5) have
    "n = int (length (filter (entry_in mn mt) (stored (tables db) t)))"
    by (simp add: stored_Some filter_map o_def sel_module)
  with G show ?thesis by (simp add: GetElementCount_def)
qed

text \<open>The constructor leaves every table of the queue in place, with the rows it had.\<close>

lemma create_tables_exact:
  assumes "inv db" and "\<forall>t\<in>set ts. tables db t = None \<or> storage_table (tables db) t"
    and "list_all ident ts" and "\<forall>t\<in>set ts. name_free (tables db) t"
    and "\<forall>t\<in>set ts. \<forall>u\<in>set ts. same_name t u \<longrightarrow> t = u"
  shows "\<exists>db'. create_tables P ts db = (Ok (), db') \<and> inv db' \<and> saved db' = saved db \<and>
    (\<forall>t\<in>set ts. storage_table (tables db') t) \<and> (\<forall>t. stored (tables db') t = stored (tables db) t) \<and>
    (\<forall>t. tables db t \<noteq> None \<longrightarrow> tables db' t = tables db t)"
  using assms
proof (induction ts arbitrary: db)
  case (Cons t ts)
  show ?case
  proof (cases "TableExists P t db")
    case True
    have "ident t" using Cons.prems(3) by simp
    with TableExists_law [OF Cons.prems(1) _ True] Cons.prems(2) have
      st: "storage_table (tables db) t" by auto
    have pre: "\<forall>u\<in>set ts. tables db u = None \<or> storage_table (tables db) u"
      using Cons.prems(2) by simp
    have ids: "list_all ident ts" using Cons.prems(3) by simp
    from Cons.IH [OF Cons.prems(1) pre ids] Cons.prems(4,5) obtain db' where db': "create_tables P ts db = (Ok (), db')"
      "inv db'" "saved db' = saved db" "\<forall>t\<in>set ts. storage_table (tables db') t"
      "\<forall>t. stored (tables db') t = stored (tables db) t"
      "\<forall>t. tables db t \<noteq> None \<longrightarrow> tables db' t = tables db t" by auto
    moreover have "storage_table (tables db') t" using st db'(6) by (auto simp: storage_table_def)
    ultimately show ?thesis using True by simp
  next
    case False
    have id: "ident t" using Cons.prems(3) by simp
    with False TableExists_ok [OF Cons.prems(1) id] have none: "tables db t = None" by blast
    obtain db1 where C: "CreateTable P t storage_keys db = (Ok (), db1)"
      using CreateTable_ok [OF Cons.prems(1) id storage_keys_ok] by (metis prod.collapse)
    from CreateTable_law [OF Cons.prems(1) id storage_keys_ok _ C] Cons.prems(4) none have d: "inv db1" "saved db1 = saved db"
      "tables db1 = (tables db)(t \<mapsto> \<lparr>cols = storage_keys, trows = []\<rparr>)" by auto
    have st: "storage_table (tables db1) t" and same: "stored (tables db1) u = stored (tables db) u" for u
      using d(3) none by (auto simp: storage_table_def stored_def entries_def)
    have pre: "\<forall>u\<in>set ts. tables db1 u = None \<or> storage_table (tables db1) u"
      using Cons.prems(2) st d(3) by (auto simp: storage_table_def)
    have ids: "list_all ident ts" using Cons.prems(3) by simp
    have free: "\<forall>u\<in>set ts. name_free (tables db1) u"
      using Cons.prems(4,5) d(3) by (auto simp: name_free_def)
    from Cons.IH [OF d(1) pre ids free] Cons.prems(5) obtain db' where db': "create_tables P ts db1 = (Ok (), db')" "inv db'"
      "saved db' = saved db1" "\<forall>t\<in>set ts. storage_table (tables db') t"
      "\<forall>t. stored (tables db') t = stored (tables db1) t"
      "\<forall>t. tables db1 t \<noteq> None \<longrightarrow> tables db' t = tables db1 t" by auto
    moreover have "storage_table (tables db') t" using st db'(6) by (auto simp: storage_table_def)
    moreover have "tables db' u = tables db u" if "tables db u \<noteq> None" for u
      using that db'(6) d(3) none by (cases "u = t") auto
    ultimately show ?thesis using False C d same by (auto simp: Storage_CreateTable_def)
  qed
qed simp

end

context reliable_persistence
begin

lemma store_body_drops_metadata:
  assumes "inv db" "storage_table (tables db) t" "plain mn" "plain mt"
    and "dump J bad = None" "printable J good"
  shows "\<exists>db'. store_body P J (JArr [bad, good]) t (store_fields mn mt md) db = (Ok 1, db') \<and>
    inv db' \<and> saved db' = saved db \<and>
    stored (tables db') t = stored (tables db) t @ [msg_entry J mn mt [] good]"
proof -
  let ?fs = "[col_value MODULE_NAME_COLUMN_NAME TEXT mn, col_value MODULE_TYPE_COLUMN_NAME TEXT mt]"
  obtain s where s: "dump J good = Some s" "plain s" using assms(6) by (rule printableE)
  from assms(2) obtain T where T: "tables db t = Some T" "cols T = storage_keys"
    by (rule storage_tableE)
  have adm: "row_admissible canon T (?fs @ [col_value MESSAGE_COLUMN_NAME TEXT s])"
    using T(2) by (rule admissible_storage) (auto simp: storage_defs)
  have row: "row_ok (cols T) (?fs @ [col_value MESSAGE_COLUMN_NAME TEXT s])"
    using storage_row_ok [of ?fs s] T(2) by (simp add: shared_fields_def col_value_def column_name_defs)
  have nul: "nul_free (?fs @ [col_value MESSAGE_COLUMN_NAME TEXT s])"
    using assms(3,4) s(2) by (simp add: nul_free_def plain_def col_value_def)
  obtain db' where I: "Insert P t (?fs @ [col_value MESSAGE_COLUMN_NAME TEXT s]) db = (Ok (), db')"
    using Insert_ok [OF assms(1) T(1) row adm nul] by (metis prod.collapse)
  have "entry_of (new_row canon i (?fs @ [col_value MESSAGE_COLUMN_NAME TEXT s])) = msg_entry J mn mt [] good" for i
    using s(1) by (simp add: entry_of_def msg_entry_def cell_text_def storage_defs stored_cell_def canon_text)
  with Insert_law [OF assms(1) T(1) row I] T(1) have "inv db'" "saved db' = saved db"
    "stored (tables db') t = stored (tables db) t @ [msg_entry J mn mt [] good]"
    by (auto simp: stored_Some)
  moreover have "store_body P J (JArr [bad, good]) t (store_fields mn mt md) db = (Ok 1, db')"
    using I s(1) assms(5) by (simp add: store_fields_def)
  ultimately show ?thesis by blast
qed

lemma Store_drops_metadata_exact:
  assumes "inv db" "saved db = None" "storage_table (tables db) t" "plain mn" "plain mt"
    and "dump J bad = None" "printable J good"
  shows "\<exists>db'. Store P J (JArr [bad, good]) t mn mt md db = (Ok 1, db') \<and>
    stored (tables db') t = stored (tables db) t @ [msg_entry J mn mt [] good]"
proof -
  let ?R = "\<lambda>ts. stored ts t = stored (tables db) t @ [msg_entry J mn mt [] good]"
  have body: "\<exists>d'. store_body P J (JArr [bad, good]) t (store_fields mn mt md) d = (Ok 1, d') \<and>
      inv d' \<and> saved d' = saved d \<and> ?R (tables d')" if "inv d" "tables d = tables db" for d
    using store_body_drops_metadata [OF that(1) _ assms(4-7), of t md] assms(3) that(2) by simp
  from in_transaction_exact [OF assms(1,2), of _ _ ?R, OF body] show ?thesis
    unfolding Store_def by blast
qed

end

subsection \<open>Properties\<close>

text \<open>
  C3: storing messages, whatever single insertions fail: the table only grows, at its end, the result is the
  number of entries added, no other table changes, and the undefined \<^verbatim>\<open>pop_back\<close> needs more than
  three messages that cannot be printed. When every message of the call can be printed, the entries
  added are messages of the call, in their order. Without that condition an entry may differ from every
  message of the call: it may lack the metadata.
\<close>

theorem Store_appends:
  assumes "persistence_laws P tables saved canon dinv" and "dinv db" "storage_table (tables db) t"
    and "Store P J m t mn mt md db = (r, db')"
  shows "dinv db' \<and> only_rows_of t (tables db) (tables db') \<and>
    (\<exists>new. stored (tables db') t = stored (tables db) t @ new \<and>
       (\<forall>n. r = Ok n \<longrightarrow> n = int (length new)) \<and>
       (list_all (\<lambda>x. dump J x \<noteq> None) (messages m) \<longrightarrow>
          subseq new (map (msg_entry J mn mt md) (messages m))) \<and>
       (r = Terminate \<longrightarrow> 3 < length (filter (\<lambda>m. dump J m = None) (messages m))))"
  using persistence_laws.Store_law [OF assms] by (simp add: list_all_iff)

definition mem_storage_db :: "trow list \<Rightarrow> mem_db" where
  "mem_storage_db rs = mem_empty\<lparr>m_tables := [''T'' \<mapsto> \<lparr>cols = storage_keys, trows = rs\<rparr>]\<rparr>"

lemma mem_storage_db_ok:
  assumes "sorted_wrt (<) (map rowid rs)"
  shows "mem_inv (mem_storage_db rs)" and "m_saved (mem_storage_db rs) = None"
    and "storage_table (m_tables (mem_storage_db rs)) ''T''"
    and "stored (m_tables (mem_storage_db rs)) ''T'' = map entry_of rs"
  using assms key_cols_storage [of "\<lparr>cols = storage_keys, trows = rs\<rparr>"]
  by (auto simp: mem_storage_db_def mem_empty_def mem_inv_def tables_ok_def table_ok_def keys_unique_def
      storage_table_def stored_def entries_def split: if_splits)

theorem Store_appends_witness:
  "\<exists>r db' new. Store mem_persistence tiny_lib (JArr [JStr ''a'', JStr ''b'']) ''T'' ''m'' [] ''x''
       (mem_storage_db []) = (r, db') \<and>
     stored (m_tables db') ''T'' = new \<and> (\<forall>n. r = Ok n \<longrightarrow> n = int (length new)) \<and>
     subseq new (map (msg_entry tiny_lib ''m'' [] ''x'') [JStr ''a'', JStr ''b''])"
proof -
  let ?m = "JArr [JStr ''a'', JStr ''b'']"
  obtain r db' where
    run: "Store mem_persistence tiny_lib ?m ''T'' ''m'' [] ''x'' (mem_storage_db []) = (r, db')"
    by fastforce
  have dump: "list_all (\<lambda>x. dump tiny_lib x \<noteq> None) (messages ?m)" by (simp add: tiny_eval)
  from Store_appends [OF mem.persistence_laws_axioms, OF mem_storage_db_ok(1,3) run] dump
    mem_storage_db_ok(4) [of "[]"] run
  show ?thesis by auto
qed

text \<open>
  C4: a removal, whatever fails on the way, deletes only messages of the module it was asked for, as many
  as it reports; the others stay in their order and no other table changes. For a positive \<open>n\<close> it
  deletes at most \<open>n\<close>; for \<open>n \<le> 0\<close> there is no such bound.
\<close>

theorem RemoveMultiple_removes:
  assumes "persistence_laws P tables saved canon dinv" and "dinv db" "storage_table (tables db) t"
    and "RemoveMultiple P n t mn mt db = (r, db')"
  shows "dinv db' \<and> only_rows_of t (tables db) (tables db') \<and> r \<noteq> Terminate \<and>
    (\<exists>k. (is_ok r \<longrightarrow> r = Ok (int k)) \<and> (n > 0 \<longrightarrow> int k \<le> n) \<and>
       removed_some (entry_in mn mt) k (stored (tables db) t) (stored (tables db') t))"
  using persistence_laws.RemoveMultiple_law [OF assms] by simp

text \<open>Rows as the storage writes them, for the examples.\<close>

definition example_row :: "int \<Rightarrow> string \<Rightarrow> string \<Rightarrow> trow" where
  "example_row i mn s =
     new_row mem_canon i (store_fields mn [] [] @ [col_value MESSAGE_COLUMN_NAME TEXT s])"

lemma example_row_simps [simp]:
  "rowid (example_row i mn s) = i"
  "entry_of (example_row i mn s) = \<lparr>e_module = mn, e_type = [], e_meta = [], e_text = s\<rparr>"
  by (simp_all add: example_row_def mem.entry_of_new_row)

theorem RemoveMultiple_removes_witness:
  "\<exists>r db' k. RemoveMultiple mem_persistence 1 ''T'' ''m'' []
       (mem_storage_db [example_row 1 ''m'' ''a'', example_row 2 ''n'' ''b'', example_row 3 ''m'' ''c''])
     = (r, db') \<and> int k \<le> 1 \<and>
     removed_some (entry_in ''m'' []) k
       (stored (m_tables (mem_storage_db
          [example_row 1 ''m'' ''a'', example_row 2 ''n'' ''b'', example_row 3 ''m'' ''c''])) ''T'')
       (stored (m_tables db') ''T'')"
proof -
  let ?db = "mem_storage_db [example_row 1 ''m'' ''a'', example_row 2 ''n'' ''b'', example_row 3 ''m'' ''c'']"
  have inv: "mem_inv ?db" by (rule mem_storage_db_ok) simp
  obtain r db' where run: "RemoveMultiple mem_persistence 1 ''T'' ''m'' [] ?db = (r, db')" by fastforce
  have st: "storage_table (m_tables ?db) ''T''" by (rule mem_storage_db_ok) simp
  from RemoveMultiple_removes [OF mem.persistence_laws_axioms, OF inv st run] run show ?thesis by auto
qed

text \<open>
  C8: with a storage that keeps its contract, a request to remove \<open>n \<le> 0\<close> messages removes all the messages
  of the module: the limit is only written into the query when it is positive.
\<close>

theorem RemoveMultiple_non_positive:
  assumes "reliable_persistence P tables saved canon dinv" and "dinv db" "saved db = None"
    and "storage_table (tables db) t" "plain mn" "plain mt" "n \<le> 0"
  shows "\<exists>db'. RemoveMultiple P n t mn mt db =
      (Ok (int (length (filter (entry_in mn mt) (stored (tables db) t)))), db') \<and>
    stored (tables db') t = filter (\<lambda>e. \<not> entry_in mn mt e) (stored (tables db) t)"
  using reliable_persistence.RemoveMultiple_exact [OF assms(1-6), of n] assms(7)
  by (auto simp: limit_count_def remove_n_all)

theorem RemoveMultiple_non_positive_witness:
  "\<exists>db'. RemoveMultiple mem_persistence 0 ''T'' [] [] (mem_storage_db [example_row 1 ''m'' ''a'', example_row 2 ''n'' ''b''])
     = (Ok 2, db') \<and> stored (m_tables db') ''T'' = []"
proof -
  let ?rs = "[example_row 1 ''m'' ''a'', example_row 2 ''n'' ''b'']"
  have "sorted_wrt (<) (map rowid ?rs)" by simp
  note ok = mem_storage_db_ok [OF this]
  have "plain []" by (simp add: plain_def)
  from RemoveMultiple_non_positive [OF memr.reliable_persistence_axioms, OF ok(1-3) this this order_refl]
  obtain db' where db': "RemoveMultiple mem_persistence 0 ''T'' [] [] (mem_storage_db ?rs) =
      (Ok (int (length (filter (entry_in [] []) (map entry_of ?rs)))), db')"
    "stored (m_tables db') ''T'' = filter (\<lambda>e. \<not> entry_in [] [] e) (map entry_of ?rs)"
    unfolding ok(4) by blast
  have "entry_in [] [] = (\<lambda>_. True)" by (simp add: entry_in_def fun_eq_iff)
  with db' show ?thesis by auto
qed

text \<open>
  C9: in an array, a message that cannot be printed costs the next one its metadata: the loop pops the
  shared metadata column instead of the message it did not append, and stores the following message
  with an empty metadata, whatever the caller passed.
\<close>

theorem Store_drops_metadata:
  assumes "reliable_persistence P tables saved canon dinv" and "dinv db" "saved db = None"
    and "storage_table (tables db) t" "plain mn" "plain mt"
    and "dump J bad = None" "printable J good"
  shows "\<exists>db'. Store P J (JArr [bad, good]) t mn mt md db = (Ok 1, db') \<and>
    stored (tables db') t = stored (tables db) t @ [msg_entry J mn mt [] good]"
  by (rule reliable_persistence.Store_drops_metadata_exact [OF assms])

theorem Store_drops_metadata_witness:
  "\<exists>db'. Store mem_persistence tiny_lib (JArr [JBool True, JStr ''a'']) ''T'' ''m'' [] ''metadata'' (mem_storage_db [])
     = (Ok 1, db') \<and> map e_meta (stored (m_tables db') ''T'') = [[]]"
proof -
  have "sorted_wrt (<) (map rowid [])" by simp
  note ok = mem_storage_db_ok [OF this]
  have "plain ''m''" "plain []" "dump tiny_lib (JBool True) = None" "printable tiny_lib (JStr ''a'')"
    by (simp_all add: plain_def printable_def tiny_eval)
  from Store_drops_metadata [OF memr.reliable_persistence_axioms, OF ok(1-3) this, of "''metadata''"]
  show ?thesis unfolding ok(4) by (auto simp: msg_entry_def)
qed

end
