(* ===== verification/Command_Entry.thy ===== *)
theory Command_Entry
  imports Json_Value
begin

section \<open>Commands\<close>

text \<open>
  \<^verbatim>\<open>src/src/agent/command_handler/include/command_entry/command_entry.hpp\<close>: the commands of the manager,
  shared by the queue utilities, the command store and the command handler. \<^verbatim>\<open>Time\<close> is kept as the
  decimal text of the \<^verbatim>\<open>double\<close>; nothing computes with it.
\<close>

definition SET_GROUP_COMMAND :: string where "SET_GROUP_COMMAND = ''set-group''"
definition FETCH_CONFIG_COMMAND :: string where "FETCH_CONFIG_COMMAND = ''fetch-config''"
definition RESTART_COMMAND :: string where "RESTART_COMMAND = ''restart''"
definition GROUPS_ARG :: string where "GROUPS_ARG = ''groups''"
definition CENTRALIZED_CONFIGURATION_MODULE :: string where
  "CENTRALIZED_CONFIGURATION_MODULE = ''CentralizedConfiguration''"
definition RESTART_HANDLER_MODULE :: string where "RESTART_HANDLER_MODULE = ''RestartHandler''"

lemmas command_name_defs =
  SET_GROUP_COMMAND_def FETCH_CONFIG_COMMAND_def RESTART_COMMAND_def GROUPS_ARG_def
  CENTRALIZED_CONFIGURATION_MODULE_def RESTART_HANDLER_MODULE_def

datatype Status = SUCCESS | FAILURE | IN_PROGRESS | TIMEOUT | UNKNOWN

datatype CommandExecutionMode = SYNC | ASYNC

text \<open>\<^verbatim>\<open>static_cast<int>\<close> of the enumerations: the position of the enumerator.\<close>

fun status_int :: "Status \<Rightarrow> int" where
  "status_int SUCCESS = 0"
| "status_int FAILURE = 1"
| "status_int IN_PROGRESS = 2"
| "status_int TIMEOUT = 3"
| "status_int UNKNOWN = 4"

fun mode_int :: "CommandExecutionMode \<Rightarrow> int" where
  "mode_int SYNC = 0"
| "mode_int ASYNC = 1"

record CommandExecutionResult =
  ErrorCode :: Status
  ResultMessage :: string

record CommandEntry =
  Id :: string
  Module :: string
  Command :: string
  Parameters :: json
  Time :: string
  ExecutionMode :: CommandExecutionMode
  ExecutionResult :: CommandExecutionResult

definition execution_result :: "Status \<Rightarrow> string \<Rightarrow> CommandExecutionResult" where
  "execution_result code msg = \<lparr>ErrorCode = code, ResultMessage = msg\<rparr>"

text \<open>The two constructors; the default one leaves \<^verbatim>\<open>ExecutionMode\<close> unset, which every reader overwrites.\<close>

definition default_entry :: CommandEntry where
  "default_entry =
     \<lparr>Id = [], Module = [], Command = [], Parameters = JNull, Time = ''0'', ExecutionMode = SYNC,
      ExecutionResult = execution_result UNKNOWN []\<rparr>"

definition command_entry ::
  "string \<Rightarrow> string \<Rightarrow> string \<Rightarrow> json \<Rightarrow> CommandExecutionMode \<Rightarrow> string \<Rightarrow> Status \<Rightarrow> CommandEntry" where
  "command_entry i mo cmd params mode res st =
     \<lparr>Id = i, Module = mo, Command = cmd, Parameters = params, Time = ''0'', ExecutionMode = mode,
      ExecutionResult = execution_result st res\<rparr>"

lemma status_int_inject [simp]: "status_int a = status_int b \<longleftrightarrow> a = b"
  by (cases a; cases b) simp_all

lemma mode_int_inject [simp]: "mode_int a = mode_int b \<longleftrightarrow> a = b"
  by (cases a; cases b) simp_all

lemma execution_result_sel [simp]:
  "ErrorCode (execution_result c s) = c" "ResultMessage (execution_result c s) = s"
  by (simp_all add: execution_result_def)

end
