(* ===== verification/ICommand_Store.thy ===== *)
theory ICommand_Store
  imports Command_Entry "HOL-Library.Multiset"
begin

section \<open>The interface of the command store\<close>

text \<open>
  \<^verbatim>\<open>src/src/agent/command_handler/include/icommand_store.hpp\<close>: the abstract class through which the command
  handler uses the store, as a record of its virtual methods over a type \<open>'s\<close> of store states, and
  its contract. \<open>commands\<close> is the store as the list of the commands it holds.
  \<^item> \<open>command_store_laws\<close>: what each call did, when it reports success and when it reports failure.
  \<^item> \<open>reliable_command_store\<close>: a call fails only for its documented reason, which for storing is an
    identifier that is taken.
\<close>

record 's icommand_store =
  S_Clear :: "'s \<Rightarrow> bool result \<times> 's"
  S_GetCount :: "'s \<Rightarrow> int result"
  S_StoreCommand :: "string \<Rightarrow> CommandEntry \<Rightarrow> 's \<Rightarrow> bool result \<times> 's"
  S_DeleteCommand :: "string \<Rightarrow> 's \<Rightarrow> bool result \<times> 's"
  S_GetCommand :: "string \<Rightarrow> 's \<Rightarrow> CommandEntry option result"
  S_GetCommandByStatus :: "Status \<Rightarrow> 's \<Rightarrow> CommandEntry list option result"
  S_UpdateCommand :: "CommandEntry \<Rightarrow> 's \<Rightarrow> bool result \<times> 's"

abbreviation code_of :: "CommandEntry \<Rightarrow> Status" where
  "code_of c \<equiv> ErrorCode (ExecutionResult c)"

abbreviation text_of :: "CommandEntry \<Rightarrow> string" where
  "text_of c \<equiv> ResultMessage (ExecutionResult c)"

text \<open>The commands that can be written and read back: no NUL byte, and parameters that print and parse.\<close>

definition params_ok :: "json_lib \<Rightarrow> json \<Rightarrow> bool" where
  "params_ok J j \<longleftrightarrow> (case dump J j of None \<Rightarrow> False | Some s \<Rightarrow> CHR 0x00 \<notin> set s \<and> parse J s = Some j)"

definition storable :: "json_lib \<Rightarrow> CommandEntry \<Rightarrow> bool" where
  "storable J c \<longleftrightarrow>
     CHR 0x00 \<notin> set (Id c) \<and> CHR 0x00 \<notin> set (Module c) \<and> CHR 0x00 \<notin> set (Command c) \<and>
     CHR 0x00 \<notin> set (text_of c) \<and> params_ok J (Parameters c)"

text \<open>An update leaves alone what it does not carry.\<close>

definition upd_entry :: "CommandEntry \<Rightarrow> CommandEntry \<Rightarrow> CommandEntry" where
  "upd_entry u c =
     c\<lparr>Module := (if Module u = [] then Module c else Module u),
       Command := (if Command u = [] then Command c else Command u),
       Parameters := (if json_empty (Parameters u) then Parameters c else Parameters u),
       ExecutionResult :=
         \<lparr>ErrorCode = (if code_of u = UNKNOWN then code_of c else code_of u),
          ResultMessage = (if text_of u = [] then text_of c else text_of u)\<rparr>\<rparr>"

locale command_store_laws =
  fixes S :: "'s icommand_store"
    and J :: json_lib
    and commands :: "'s \<Rightarrow> CommandEntry list"
    and sinv :: "'s \<Rightarrow> bool"
    and clock :: "string \<Rightarrow> bool"
  assumes ids_distinct: "sinv s \<Longrightarrow> distinct (map Id (commands s))"
    and commands_storable: "sinv s \<Longrightarrow> c \<in> set (commands s) \<Longrightarrow> storable J c"
    and store_law: "sinv s \<Longrightarrow> storable J c \<Longrightarrow> clock now \<Longrightarrow> S_StoreCommand S now c s = (r, s') \<Longrightarrow>
      sinv s' \<and>
      ((r = Ok True \<and> Id c \<notin> Id ` set (commands s) \<and> (\<exists>t. commands s' = commands s @ [c\<lparr>Time := t\<rparr>])) \<or>
       (r = Ok False \<and> commands s' = commands s))"
    and update_law: "sinv s \<Longrightarrow> storable J c \<Longrightarrow> Module c \<noteq> [] \<or> code_of c \<noteq> UNKNOWN \<Longrightarrow> S_UpdateCommand S c s = (r, s') \<Longrightarrow>
      sinv s' \<and>
      ((r = Ok True \<and> commands s' = map (\<lambda>x. if Id x = Id c then upd_entry c x else x) (commands s)) \<or>
       (r = Ok False \<and> commands s' = commands s))"
    and by_status_law: "sinv s \<Longrightarrow> S_GetCommandByStatus S st s = Ok None \<or>
      (\<exists>cs. S_GetCommandByStatus S st s = Ok (Some cs) \<and> mset cs = mset (filter (\<lambda>c. code_of c = st) (commands s)))"

locale reliable_command_store = command_store_laws +
  assumes store_ok: "sinv s \<Longrightarrow> storable J c \<Longrightarrow> clock now \<Longrightarrow> Id c \<notin> Id ` set (commands s) \<Longrightarrow>
      fst (S_StoreCommand S now c s) = Ok True"
    and update_ok: "sinv s \<Longrightarrow> storable J c \<Longrightarrow> Module c \<noteq> [] \<or> code_of c \<noteq> UNKNOWN \<Longrightarrow> fst (S_UpdateCommand S c s) = Ok True"
    and by_status_ok: "sinv s \<Longrightarrow> filter (\<lambda>c. code_of c = st) (commands s) \<noteq> [] \<Longrightarrow>
      S_GetCommandByStatus S st s \<noteq> Ok None"

lemma upd_entry_id [simp]: "Id (upd_entry u c) = Id c"
  by (simp add: upd_entry_def)

lemma storableE:
  assumes "storable J c"
  obtains p where "dump J (Parameters c) = Some p" "CHR 0x00 \<notin> set p" "parse J p = Some (Parameters c)"
  using assms by (auto simp: storable_def params_ok_def split: option.splits)

lemma storable_upd: "storable J u \<Longrightarrow> storable J c \<Longrightarrow> storable J (upd_entry u c)"
  by (auto simp: storable_def upd_entry_def)

lemma storable_result:
  "storable J c \<Longrightarrow> CHR 0x00 \<notin> set msg \<Longrightarrow> storable J (c\<lparr>ExecutionResult := \<lparr>ErrorCode = st, ResultMessage = msg\<rparr>\<rparr>)"
  by (simp add: storable_def)

end
