(* ===== verification/Command_Store.thy ===== *)
theory Command_Store
  imports Storage ICommand_Store
begin

section \<open>The command store\<close>

text \<open>
  \<^verbatim>\<open>src/src/agent/command_handler/src/command_store.cpp\<close>: the table in which the commands of the manager
  are kept, over the persistence interface. \<open>now\<close> is the text that \<^verbatim>\<open>std::to_string\<close> gives for the
  current time.

  \<open>crow\<close> is a row of the table as the contract of the database shows it, and the lemmas state each
  operation as a function on the list of these rows: storing appends unless the identifier is taken,
  updating rewrites the fields of one row, reading finds it.
\<close>

definition COMMANDSTORE_DB_NAME :: string where "COMMANDSTORE_DB_NAME = ''command_store.db''"
definition COMMAND_STORE_TABLE_NAME :: string where "COMMAND_STORE_TABLE_NAME = ''command_store''"
definition COMMAND_STORE_ID_COLUMN_NAME :: string where "COMMAND_STORE_ID_COLUMN_NAME = ''id''"
definition COMMAND_STORE_MODULE_COLUMN_NAME :: string where "COMMAND_STORE_MODULE_COLUMN_NAME = ''module''"
definition COMMAND_STORE_COMMAND_COLUMN_NAME :: string where "COMMAND_STORE_COMMAND_COLUMN_NAME = ''command''"
definition COMMAND_STORE_PARAMETERS_COLUMN_NAME :: string where
  "COMMAND_STORE_PARAMETERS_COLUMN_NAME = ''parameters''"
definition COMMAND_STORE_EXECUTION_MODE_COLUMN_NAME :: string where
  "COMMAND_STORE_EXECUTION_MODE_COLUMN_NAME = ''execution_mode''"
definition COMMAND_STORE_RESULT_COLUMN_NAME :: string where "COMMAND_STORE_RESULT_COLUMN_NAME = ''result''"
definition COMMAND_STORE_STATUS_COLUMN_NAME :: string where "COMMAND_STORE_STATUS_COLUMN_NAME = ''status''"
definition COMMAND_STORE_TIME_COLUMN_NAME :: string where "COMMAND_STORE_TIME_COLUMN_NAME = ''time''"

lemmas command_column_defs =
  COMMAND_STORE_ID_COLUMN_NAME_def COMMAND_STORE_MODULE_COLUMN_NAME_def COMMAND_STORE_COMMAND_COLUMN_NAME_def
  COMMAND_STORE_PARAMETERS_COLUMN_NAME_def COMMAND_STORE_EXECUTION_MODE_COLUMN_NAME_def
  COMMAND_STORE_RESULT_COLUMN_NAME_def COMMAND_STORE_STATUS_COLUMN_NAME_def COMMAND_STORE_TIME_COLUMN_NAME_def

subsection \<open>Operations\<close>

definition StatusFromInt :: "int \<Rightarrow> Status" where
  "StatusFromInt i =
     (if i = 0 then SUCCESS else if i = 1 then FAILURE else if i = 2 then IN_PROGRESS
      else if i = 3 then TIMEOUT else UNKNOWN)"

definition ExecutionModeFromInt :: "int \<Rightarrow> CommandExecutionMode" where
  "ExecutionModeFromInt i = (if i = 0 then SYNC else ASYNC)"

definition command_keys :: Keys where
  "command_keys =
     [col_key COMMAND_STORE_ID_COLUMN_NAME TEXT (NOT_NULL + PRIMARY_KEY),
      col_key COMMAND_STORE_MODULE_COLUMN_NAME TEXT NOT_NULL,
      col_key COMMAND_STORE_COMMAND_COLUMN_NAME TEXT NOT_NULL,
      col_key COMMAND_STORE_PARAMETERS_COLUMN_NAME TEXT NOT_NULL,
      col_key COMMAND_STORE_EXECUTION_MODE_COLUMN_NAME INTEGER NOT_NULL,
      col_key COMMAND_STORE_RESULT_COLUMN_NAME TEXT NOT_NULL,
      col_key COMMAND_STORE_STATUS_COLUMN_NAME INTEGER NOT_NULL,
      col_key COMMAND_STORE_TIME_COLUMN_NAME REAL NOT_NULL]"

text \<open>The constructor: \<open>opened\<close> is the persistence object, given or created, or \<open>None\<close> where creating it throws.\<close>

definition CommandStore_init :: "string \<Rightarrow> 'db persistence option \<Rightarrow> 'db \<Rightarrow> 'db persistence result \<times> 'db" where
  "CommandStore_init dbFolderPath opened db =
     (let failed = Throw (''Cannot open database: '' @ dbFolderPath @ ''/'' @ COMMANDSTORE_DB_NAME) in
      case opened of
        None \<Rightarrow> (failed, db)
      | Some P \<Rightarrow>
          if TableExists P COMMAND_STORE_TABLE_NAME db then (Ok P, db)
          else (case CreateTable P COMMAND_STORE_TABLE_NAME command_keys db of
                  (Ok _, db') \<Rightarrow> (Ok P, db')
                | (Throw _, db') \<Rightarrow> (failed, db')
                | (Terminate, db') \<Rightarrow> (Terminate, db')))"

text \<open>The \<^verbatim>\<open>try\<close> of the operations that return a \<^verbatim>\<open>bool\<close>: an exception becomes \<^verbatim>\<open>false\<close>.\<close>

fun success_of :: "unit result \<times> 'db \<Rightarrow> bool result \<times> 'db" where
  "success_of (Ok _, db) = (Ok True, db)"
| "success_of (Throw _, db) = (Ok False, db)"
| "success_of (Terminate, db) = (Terminate, db)"

definition CommandStore_Clear :: "'db persistence \<Rightarrow> 'db \<Rightarrow> bool result \<times> 'db" where
  "CommandStore_Clear P db = success_of (Remove P COMMAND_STORE_TABLE_NAME [] AND db)"

definition CommandStore_GetCount :: "'db persistence \<Rightarrow> 'db \<Rightarrow> int result" where
  "CommandStore_GetCount P db =
     (case GetCount P COMMAND_STORE_TABLE_NAME [] AND db of Throw _ \<Rightarrow> Ok 0 | r \<Rightarrow> r)"

definition command_fields :: "string \<Rightarrow> CommandEntry \<Rightarrow> string \<Rightarrow> Row" where
  "command_fields now cmd parameters =
     [col_value COMMAND_STORE_ID_COLUMN_NAME TEXT (Id cmd),
      col_value COMMAND_STORE_MODULE_COLUMN_NAME TEXT (Module cmd),
      col_value COMMAND_STORE_COMMAND_COLUMN_NAME TEXT (Command cmd),
      col_value COMMAND_STORE_TIME_COLUMN_NAME REAL now,
      col_value COMMAND_STORE_PARAMETERS_COLUMN_NAME TEXT parameters,
      col_value COMMAND_STORE_EXECUTION_MODE_COLUMN_NAME INTEGER (dec_int (mode_int (ExecutionMode cmd))),
      col_value COMMAND_STORE_RESULT_COLUMN_NAME TEXT (ResultMessage (ExecutionResult cmd)),
      col_value COMMAND_STORE_STATUS_COLUMN_NAME INTEGER (dec_int (status_int (ErrorCode (ExecutionResult cmd))))]"

definition StoreCommand ::
  "'db persistence \<Rightarrow> json_lib \<Rightarrow> string \<Rightarrow> CommandEntry \<Rightarrow> 'db \<Rightarrow> bool result \<times> 'db" where
  "StoreCommand P J now cmd db =
     (case dump J (Parameters cmd) of
        None \<Rightarrow> (Throw ''invalid UTF-8 byte'', db)
      | Some parameters \<Rightarrow> success_of (Insert P COMMAND_STORE_TABLE_NAME (command_fields now cmd parameters) db))"

definition id_filter :: "string \<Rightarrow> Criteria" where
  "id_filter i = [col_value COMMAND_STORE_ID_COLUMN_NAME TEXT i]"

definition DeleteCommand :: "'db persistence \<Rightarrow> string \<Rightarrow> 'db \<Rightarrow> bool result \<times> 'db" where
  "DeleteCommand P i db = success_of (Remove P COMMAND_STORE_TABLE_NAME (id_filter i) AND db)"

definition read_column :: "json_lib \<Rightarrow> ColumnValue \<Rightarrow> CommandEntry \<Rightarrow> CommandEntry result" where
  "read_column J col cmd =
     (if Name col = COMMAND_STORE_ID_COLUMN_NAME then Ok (cmd\<lparr>Id := Value col\<rparr>)
      else if Name col = COMMAND_STORE_MODULE_COLUMN_NAME then Ok (cmd\<lparr>Module := Value col\<rparr>)
      else if Name col = COMMAND_STORE_COMMAND_COLUMN_NAME then Ok (cmd\<lparr>Command := Value col\<rparr>)
      else if Name col = COMMAND_STORE_PARAMETERS_COLUMN_NAME then
        (case parse J (Value col) of
           None \<Rightarrow> Throw ''parse error'' | Some j \<Rightarrow> Ok (cmd\<lparr>Parameters := j\<rparr>))
      else if Name col = COMMAND_STORE_EXECUTION_MODE_COLUMN_NAME then
        map_result (\<lambda>i. cmd\<lparr>ExecutionMode := ExecutionModeFromInt i\<rparr>) (stoi (Value col))
      else if Name col = COMMAND_STORE_RESULT_COLUMN_NAME then
        Ok (cmd\<lparr>ExecutionResult := (ExecutionResult cmd)\<lparr>ResultMessage := Value col\<rparr>\<rparr>)
      else if Name col = COMMAND_STORE_STATUS_COLUMN_NAME then
        map_result (\<lambda>i. cmd\<lparr>ExecutionResult := (ExecutionResult cmd)\<lparr>ErrorCode := StatusFromInt i\<rparr>\<rparr>)
          (stoi (Value col))
      else if Name col = COMMAND_STORE_TIME_COLUMN_NAME then
        (if stod_accepts (Value col) then Ok (cmd\<lparr>Time := Value col\<rparr>) else Throw ''stod'')
      else Ok cmd)"

fun read_row :: "json_lib \<Rightarrow> Row \<Rightarrow> CommandEntry \<Rightarrow> CommandEntry result" where
  "read_row J [] cmd = Ok cmd"
| "read_row J (col # row) cmd =
     (case read_column J col cmd of
        Ok cmd' \<Rightarrow> read_row J row cmd' | Throw e \<Rightarrow> Throw e | Terminate \<Rightarrow> Terminate)"

definition GetCommand :: "'db persistence \<Rightarrow> json_lib \<Rightarrow> string \<Rightarrow> 'db \<Rightarrow> CommandEntry option result" where
  "GetCommand P J i db =
     (case Select P COMMAND_STORE_TABLE_NAME [] (id_filter i) AND [] ASC 0 db of
        Ok [] \<Rightarrow> Ok None
      | Ok (row # _) \<Rightarrow>
          (case read_row J row default_entry of
             Ok cmd \<Rightarrow> Ok (Some cmd) | Throw _ \<Rightarrow> Ok None | Terminate \<Rightarrow> Terminate)
      | Throw _ \<Rightarrow> Ok None
      | Terminate \<Rightarrow> Terminate)"

fun read_rows :: "json_lib \<Rightarrow> Row list \<Rightarrow> CommandEntry list result" where
  "read_rows J [] = Ok []"
| "read_rows J (row # rows) =
     (case read_row J row default_entry of
        Ok cmd \<Rightarrow> map_result ((#) cmd) (read_rows J rows)
      | Throw e \<Rightarrow> Throw e | Terminate \<Rightarrow> Terminate)"

definition status_filter :: "Status \<Rightarrow> Criteria" where
  "status_filter st = [col_value COMMAND_STORE_STATUS_COLUMN_NAME INTEGER (dec_int (status_int st))]"

definition GetCommandByStatus ::
  "'db persistence \<Rightarrow> json_lib \<Rightarrow> Status \<Rightarrow> 'db \<Rightarrow> CommandEntry list option result" where
  "GetCommandByStatus P J st db =
     (case Select P COMMAND_STORE_TABLE_NAME [] (status_filter st) AND [] ASC 0 db of
        Ok [] \<Rightarrow> Ok None
      | Ok rows \<Rightarrow>
          (case read_rows J rows of
             Ok cmds \<Rightarrow> Ok (Some cmds) | Throw _ \<Rightarrow> Ok None | Terminate \<Rightarrow> Terminate)
      | Throw _ \<Rightarrow> Ok None
      | Terminate \<Rightarrow> Terminate)"

definition update_fields :: "CommandEntry \<Rightarrow> string \<Rightarrow> Row" where
  "update_fields cmd parameters =
     (if Module cmd = [] then [] else [col_value COMMAND_STORE_MODULE_COLUMN_NAME TEXT (Module cmd)]) @
     (if Command cmd = [] then [] else [col_value COMMAND_STORE_COMMAND_COLUMN_NAME TEXT (Command cmd)]) @
     (if json_empty (Parameters cmd) then []
      else [col_value COMMAND_STORE_PARAMETERS_COLUMN_NAME TEXT parameters]) @
     (if ResultMessage (ExecutionResult cmd) = [] then []
      else [col_value COMMAND_STORE_RESULT_COLUMN_NAME TEXT (ResultMessage (ExecutionResult cmd))]) @
     (if ErrorCode (ExecutionResult cmd) = UNKNOWN then []
      else [col_value COMMAND_STORE_STATUS_COLUMN_NAME INTEGER
              (dec_int (status_int (ErrorCode (ExecutionResult cmd))))])"

definition UpdateCommand ::
  "'db persistence \<Rightarrow> json_lib \<Rightarrow> CommandEntry \<Rightarrow> 'db \<Rightarrow> bool result \<times> 'db" where
  "UpdateCommand P J cmd db =
     (case (if json_empty (Parameters cmd) then Some [] else dump J (Parameters cmd)) of
        None \<Rightarrow> (Throw ''invalid UTF-8 byte'', db)
      | Some parameters \<Rightarrow>
          success_of (Update P COMMAND_STORE_TABLE_NAME (update_fields cmd parameters) (id_filter (Id cmd)) AND db))"

subsection \<open>The table as a list of commands\<close>

record crow =
  c_id :: string
  c_module :: string
  c_command :: string
  c_params :: string
  c_mode :: string
  c_result :: string
  c_status :: string
  c_time :: string

definition crow_of :: "trow \<Rightarrow> crow" where
  "crow_of r =
     \<lparr>c_id = cell_text r COMMAND_STORE_ID_COLUMN_NAME, c_module = cell_text r COMMAND_STORE_MODULE_COLUMN_NAME,
      c_command = cell_text r COMMAND_STORE_COMMAND_COLUMN_NAME,
      c_params = cell_text r COMMAND_STORE_PARAMETERS_COLUMN_NAME,
      c_mode = cell_text r COMMAND_STORE_EXECUTION_MODE_COLUMN_NAME,
      c_result = cell_text r COMMAND_STORE_RESULT_COLUMN_NAME,
      c_status = cell_text r COMMAND_STORE_STATUS_COLUMN_NAME, c_time = cell_text r COMMAND_STORE_TIME_COLUMN_NAME\<rparr>"

definition crows :: "(string \<Rightarrow> table option) \<Rightarrow> crow list" where
  "crows ts = (case ts COMMAND_STORE_TABLE_NAME of None \<Rightarrow> [] | Some T \<Rightarrow> map crow_of (trows T))"

definition row_complete :: "trow \<Rightarrow> bool" where
  "row_complete r \<longleftrightarrow> list_all (\<lambda>c. \<exists>v. cell r (Name c) = Some (Type c, v)) command_keys"

definition command_table :: "(string \<Rightarrow> table option) \<Rightarrow> bool" where
  "command_table ts \<longleftrightarrow>
     (\<exists>T. ts COMMAND_STORE_TABLE_NAME = Some T \<and> cols T = command_keys \<and> list_all row_complete (trows T))"

text \<open>The command a row stands for, if every column reads.\<close>

definition crow_command :: "json_lib \<Rightarrow> crow \<Rightarrow> CommandEntry option" where
  "crow_command J c =
     (case (parse J (c_params c), stoi (c_mode c), stoi (c_status c)) of
        (Some j, Ok m, Ok s) \<Rightarrow>
          if stod_accepts (c_time c)
          then Some \<lparr>Id = c_id c, Module = c_module c, Command = c_command c, Parameters = j, Time = c_time c,
                     ExecutionMode = ExecutionModeFromInt m,
                     ExecutionResult = execution_result (StatusFromInt s) (c_result c)\<rparr>
          else None
      | _ \<Rightarrow> None)"

definition new_crow :: "canon \<Rightarrow> string \<Rightarrow> CommandEntry \<Rightarrow> string \<Rightarrow> crow" where
  "new_crow canon now cmd parameters =
     \<lparr>c_id = Id cmd, c_module = Module cmd, c_command = Command cmd, c_params = parameters,
      c_mode = dec_int (mode_int (ExecutionMode cmd)), c_result = ResultMessage (ExecutionResult cmd),
      c_status = dec_int (status_int (ErrorCode (ExecutionResult cmd))), c_time = canon REAL now\<rparr>"

definition upd_crow :: "CommandEntry \<Rightarrow> string \<Rightarrow> crow \<Rightarrow> crow" where
  "upd_crow cmd parameters c =
     c\<lparr>c_module := (if Module cmd = [] then c_module c else Module cmd),
       c_command := (if Command cmd = [] then c_command c else Command cmd),
       c_params := (if json_empty (Parameters cmd) then c_params c else parameters),
       c_result := (if ResultMessage (ExecutionResult cmd) = [] then c_result c
                    else ResultMessage (ExecutionResult cmd)),
       c_status := (if ErrorCode (ExecutionResult cmd) = UNKNOWN then c_status c
                    else dec_int (status_int (ErrorCode (ExecutionResult cmd))))\<rparr>"

lemmas command_key_defs = command_keys_def col_key_def command_column_defs

lemma command_table_simps:
  "row_complete r \<longleftrightarrow>
     (\<exists>v. cell r ''id'' = Some (TEXT, v)) \<and> (\<exists>v. cell r ''module'' = Some (TEXT, v)) \<and>
     (\<exists>v. cell r ''command'' = Some (TEXT, v)) \<and> (\<exists>v. cell r ''parameters'' = Some (TEXT, v)) \<and>
     (\<exists>v. cell r ''execution_mode'' = Some (INTEGER, v)) \<and> (\<exists>v. cell r ''result'' = Some (TEXT, v)) \<and>
     (\<exists>v. cell r ''status'' = Some (INTEGER, v)) \<and> (\<exists>v. cell r ''time'' = Some (REAL, v))"
  by (simp add: row_complete_def command_key_defs)

lemma StatusFromInt_int [simp]: "StatusFromInt (status_int s) = s"
  by (cases s) (simp_all add: StatusFromInt_def)

lemma ExecutionModeFromInt_int [simp]: "ExecutionModeFromInt (mode_int m) = m"
  by (cases m) (simp_all add: ExecutionModeFromInt_def)

lemma stoi_status [simp]: "stoi (dec_int (status_int s)) = Ok (status_int s)"
  by (rule stoi_dec_int) (cases s; simp)+

lemma stoi_mode [simp]: "stoi (dec_int (mode_int m)) = Ok (mode_int m)"
  by (rule stoi_dec_int) (cases m; simp)+

lemma crow_command_new:
  assumes "parse J parameters = Some (Parameters cmd)" "stod_accepts (canon REAL now)"
  shows "crow_command J (new_crow canon now cmd parameters) = Some (cmd\<lparr>Time := canon REAL now\<rparr>)"
  using assms by (simp add: crow_command_def new_crow_def execution_result_def)

text \<open>Reading a row gives the command it stands for, and throws when a column does not read.\<close>

lemma stoi_not_Terminate [simp]: "stoi s \<noteq> Terminate"
  by (auto simp: stoi_def Let_def split: prod.splits)

lemma read_row_command:
  assumes "cols T = command_keys"
  shows "case crow_command J (crow_of r) of
    Some cmd \<Rightarrow> read_row J (project T [] r) default_entry = Ok cmd
  | None \<Rightarrow> \<exists>e. read_row J (project T [] r) default_entry = Throw e"
  using assms stoi_not_Terminate [of "c_mode (crow_of r)"] stoi_not_Terminate [of "c_status (crow_of r)"]
  by (auto simp: project_def command_key_defs crow_of_def crow_command_def read_column_def default_entry_def
      execution_result_def split: option.splits result.splits)

lemma read_rows_commands:
  assumes "cols T = command_keys"
  shows "case those (map (\<lambda>r. crow_command J (crow_of r)) rs) of
    Some cmds \<Rightarrow> read_rows J (map (project T []) rs) = Ok cmds
  | None \<Rightarrow> \<exists>e. read_rows J (map (project T []) rs) = Throw e"
proof (induction rs)
  case (Cons r rs)
  with read_row_command [OF assms, of J r] show ?case by (auto split: option.splits)
qed simp

subsection \<open>The operations on the list\<close>

lemma crows_Some: "ts COMMAND_STORE_TABLE_NAME = Some T \<Longrightarrow> crows ts = map crow_of (trows T)"
  by (simp add: crows_def)

lemma crows_upd [simp]: "crows (ts(COMMAND_STORE_TABLE_NAME \<mapsto> T\<lparr>trows := rs\<rparr>)) = map crow_of rs"
  by (simp add: crows_def)

lemma command_tableE:
  assumes "command_table ts"
  obtains T where "ts COMMAND_STORE_TABLE_NAME = Some T" "cols T = command_keys" "list_all row_complete (trows T)"
    "crows ts = map crow_of (trows T)"
  using assms by (auto simp: command_table_def crows_def)

lemma command_table_upd:
  "cols T = command_keys \<Longrightarrow>
     command_table (ts(COMMAND_STORE_TABLE_NAME \<mapsto> T\<lparr>trows := rs\<rparr>)) \<longleftrightarrow> list_all row_complete rs"
  by (simp add: command_table_def)

lemma key_cols_command: "cols T = command_keys \<Longrightarrow> key_cols T = [''id'']"
  by (simp add: key_cols_def command_key_defs attr_defs)

lemma key_of_command:
  "cols T = command_keys \<Longrightarrow> row_complete r \<Longrightarrow> key_of T r = [Some (TEXT, c_id (crow_of r))]"
  by (auto simp: key_of_def key_cols_command command_table_simps crow_of_def cell_text_def cell_def
      command_column_defs)

text \<open>The calls of the store are within the contract of its table.\<close>

lemma command_keys_ok: "keys_ok command_keys" "ident COMMAND_STORE_TABLE_NAME"
  by (simp_all add: keys_ok_def key_ok_def attr_defs command_key_defs ident_eval
      same_name_def COMMAND_STORE_TABLE_NAME_def)

lemma status_value_ok [simp]: "value_ok INTEGER (dec_int (status_int st))"
  by (rule value_ok_digit) (cases st; simp)

lemma mode_value_ok [simp]: "value_ok INTEGER (dec_int (mode_int m))"
  by (rule value_ok_digit) (cases m; simp)

lemma command_row_ok: "number_text now \<Longrightarrow> row_ok command_keys (command_fields now cmd p)"
  by (simp add: row_ok_def col_ok_def attr_defs command_fields_def col_value_def command_key_defs number_text_dec_int)

lemma update_row_ok:
  "Module cmd \<noteq> [] \<or> code_of cmd \<noteq> UNKNOWN \<Longrightarrow> row_ok command_keys (update_fields cmd p)"
  by (auto simp: row_ok_def col_ok_def attr_defs update_fields_def col_value_def command_key_defs number_text_dec_int)

lemma command_crits_ok: "crits_ok command_keys (id_filter i)" "crits_ok command_keys (status_filter st)"
  by (simp_all add: crits_ok_def crit_ok_def col_ok_def attr_defs id_filter_def status_filter_def col_value_def
      command_key_defs number_text_dec_int)

lemma command_flds_ok: "flds_ok command_keys []"
  by (simp add: flds_ok_def command_key_defs attr_defs)

context persistence_laws
begin

lemmas new_command_defs = new_row_def command_fields_def stored_cell_def col_value_def canon_text canon_integer
  command_column_defs

lemma crow_of_new_row:
  "crow_of (new_row canon i (command_fields now cmd parameters)) = new_crow canon now cmd parameters"
  by (simp add: crow_of_def new_crow_def cell_text_def cell_def new_command_defs)

lemma row_complete_new_row: "row_complete (new_row canon i (command_fields now cmd parameters))"
  by (simp add: command_table_simps cell_def new_command_defs)

lemma row_complete_upd: "row_complete r \<Longrightarrow> row_complete (upd_row canon (update_fields cmd parameters) r)"
  by (auto simp: command_table_simps cell_def upd_row_def update_fields_def stored_cell_def col_value_def
      command_column_defs)

lemma crow_of_upd: "crow_of (upd_row canon (update_fields cmd parameters) r) = upd_crow cmd parameters (crow_of r)"
  by (auto simp: crow_of_def upd_crow_def cell_text_def cell_def upd_row_def update_fields_def stored_cell_def
      col_value_def canon_text canon_integer command_column_defs)

lemma row_matches_id: "row_complete r \<Longrightarrow> row_matches canon AND (id_filter i) r \<longleftrightarrow> c_id (crow_of r) = i"
  by (auto simp: command_table_simps row_matches_def id_filter_def crit_holds_def col_value_def canon_text
      crow_of_def cell_text_def command_column_defs)

lemma row_matches_status:
  "row_complete r \<Longrightarrow>
     row_matches canon AND (status_filter st) r \<longleftrightarrow> c_status (crow_of r) = dec_int (status_int st)"
  by (auto simp: command_table_simps row_matches_def status_filter_def crit_holds_def col_value_def canon_integer
      crow_of_def cell_text_def command_column_defs)

lemma command_ids_distinct:
  assumes "inv db" "command_table (tables db)"
  shows "distinct (map c_id (crows (tables db)))"
proof -
  from assms(2) obtain T where T: "tables db COMMAND_STORE_TABLE_NAME = Some T" "cols T = command_keys"
    "list_all row_complete (trows T)" "crows (tables db) = map crow_of (trows T)" by (rule command_tableE)
  have "map (key_of T) (trows T) = map (\<lambda>i. [Some (TEXT, i)]) (map c_id (crows (tables db)))"
    using T key_of_command by (simp add: list_all_iff)
  with table_keys [OF assms(1) T(1)] T(2) show ?thesis
    by (auto simp: keys_unique_def key_cols_command distinct_map inj_on_def)
qed

lemma command_admissible:
  assumes "cols T = command_keys" "list_all row_complete (trows T)"
  shows "row_admissible canon T (command_fields now cmd parameters) \<longleftrightarrow>
    Id cmd \<notin> c_id ` set (map crow_of (trows T))"
proof -
  have "key_of T (new_row canon 0 (command_fields now cmd parameters)) = [Some (TEXT, Id cmd)]"
    using key_of_command [OF assms(1) row_complete_new_row] by (simp add: crow_of_new_row new_crow_def)
  moreover have "key_of T ` set (trows T) = (\<lambda>i. [Some (TEXT, i)]) ` c_id ` set (map crow_of (trows T))"
    using assms key_of_command by (force simp: list_all_iff image_iff)
  moreover have "set (map Name (command_fields now cmd parameters)) = set (map Name (cols T))"
    "distinct (map Name (command_fields now cmd parameters))"
    by (auto simp: assms(1) command_fields_def col_value_def command_key_defs)
  ultimately show ?thesis
    by (auto simp: row_admissible_def key_cols_command [OF assms(1)])
qed

text \<open>Storing appends the command when it reports success, and changes nothing when it does not.\<close>

lemma StoreCommand_law:
  assumes "inv db" "command_table (tables db)" "number_text now" "StoreCommand P J now cmd db = (r, db')"
  shows "inv db' \<and> saved db' = saved db \<and> command_table (tables db') \<and>
    only_rows_of COMMAND_STORE_TABLE_NAME (tables db) (tables db') \<and> r \<noteq> Terminate \<and>
    (if r = Ok True
     then Id cmd \<notin> c_id ` set (crows (tables db)) \<and>
       (\<exists>parameters. dump J (Parameters cmd) = Some parameters \<and>
         crows (tables db') = crows (tables db) @ [new_crow canon now cmd parameters])
     else tables db' = tables db)"
proof (cases "dump J (Parameters cmd)")
  case None
  with assms show ?thesis by (auto simp: StoreCommand_def)
next
  case (Some parameters)
  obtain x d where x: "Insert P COMMAND_STORE_TABLE_NAME (command_fields now cmd parameters) db = (x, d)" by fastforce
  from assms(2) obtain T where T: "tables db COMMAND_STORE_TABLE_NAME = Some T" "cols T = command_keys"
    "list_all row_complete (trows T)" "crows (tables db) = map crow_of (trows T)" by (rule command_tableE)
  have "row_ok (cols T) (command_fields now cmd parameters)" using command_row_ok [OF assms(3)] T(2) by simp
  from Insert_law [OF assms(1) T(1) this x] assms(2,4) Some x T show ?thesis
    by (cases x) (auto simp: StoreCommand_def command_admissible command_table_upd crow_of_new_row
        row_complete_new_row)
qed

text \<open>Updating rewrites the row of that identifier, and nothing when it fails.\<close>

lemma UpdateCommand_law:
  assumes "inv db" "command_table (tables db)" "UpdateCommand P J cmd db = (r, db')"
    and "Module cmd \<noteq> [] \<or> code_of cmd \<noteq> UNKNOWN"
  shows "inv db' \<and> saved db' = saved db \<and> command_table (tables db') \<and>
    only_rows_of COMMAND_STORE_TABLE_NAME (tables db) (tables db') \<and> r \<noteq> Terminate \<and>
    (if r = Ok True
     then \<exists>parameters. (json_empty (Parameters cmd) \<or> dump J (Parameters cmd) = Some parameters) \<and>
       crows (tables db') =
         map (\<lambda>c. if c_id c = Id cmd then upd_crow cmd parameters c else c) (crows (tables db))
     else tables db' = tables db)"
proof (cases "if json_empty (Parameters cmd) then Some [] else dump J (Parameters cmd)")
  case None
  with assms show ?thesis by (auto simp: UpdateCommand_def split: if_splits)
next
  case (Some parameters)
  let ?fs = "update_fields cmd parameters"
  obtain x d where x: "Update P COMMAND_STORE_TABLE_NAME ?fs (id_filter (Id cmd)) AND db = (x, d)" by fastforce
  from assms(2) obtain T where T: "tables db COMMAND_STORE_TABLE_NAME = Some T" "cols T = command_keys"
    "list_all row_complete (trows T)" "crows (tables db) = map crow_of (trows T)" by (rule command_tableE)
  have ok: "row_ok (cols T) ?fs" "crits_ok (cols T) (id_filter (Id cmd))"
    using update_row_ok [OF assms(4)] command_crits_ok T(2) by simp_all
  have r: "success_of (x, d) = (r, db')" using assms(3) Some x by (simp add: UpdateCommand_def)
  have rows: "map crow_of (map (\<lambda>x. if row_matches canon AND (id_filter (Id cmd)) x then upd_row canon ?fs x else x) (trows T)) =
      map (\<lambda>c. if c_id c = Id cmd then upd_crow cmd parameters c else c) (map crow_of (trows T))"
    using T(3) by (auto simp: list_all_iff row_matches_id crow_of_upd)
  have comp: "list_all row_complete (map (\<lambda>x. if row_matches canon AND (id_filter (Id cmd)) x then upd_row canon ?fs x else x) (trows T))"
    using T(3) row_complete_upd by (auto simp: list_all_iff)
  have p: "json_empty (Parameters cmd) \<or> dump J (Parameters cmd) = Some parameters"
    using Some by (auto split: if_splits)
  show ?thesis
  proof (cases x)
    case (Ok u)
    with Update_law [OF assms(1) T(1) ok x] T(1) have d: "inv d" "saved d = saved db"
      "tables d = (tables db)(COMMAND_STORE_TABLE_NAME \<mapsto>
        T\<lparr>trows := map (\<lambda>x. if row_matches canon AND (id_filter (Id cmd)) x then upd_row canon ?fs x else x) (trows T)\<rparr>)"
      by auto
    have "r = Ok True" "db' = d" using r Ok by simp_all
    with d T(1,4) rows comp p show ?thesis
      by (auto simp: command_table_upd [OF T(2)] simp del: map_map)
  next
    case (Throw e)
    with Update_law [OF assms(1) T(1) ok x] r assms(2) show ?thesis by auto
  next
    case Terminate
    with Update_law [OF assms(1) T(1) ok x] show ?thesis by simp
  qed
qed

end

lemma mset_map_perm: "mset ys = mset (map f xs) \<Longrightarrow> \<exists>zs. mset zs = mset xs \<and> ys = map f zs"
proof (induction ys arbitrary: xs)
  case Nil
  then show ?case by simp
next
  case (Cons y ys)
  then have "y \<in> set (map f xs)" by (metis list.set_intros(1) set_mset_mset)
  then obtain x where x: "x \<in> set xs" "f x = y" by auto
  then have "mset ys = mset (map f (remove1 x xs))"
    using Cons.prems by (simp add: image_mset_Diff) (metis add_mset_remove_trivial)
  from Cons.IH [OF this] obtain zs where "mset zs = mset (remove1 x xs)" "ys = map f zs" by blast
  with x show ?case by (intro exI [of _ "x # zs"]) simp
qed

lemma find_distinct: "distinct (map f xs) \<Longrightarrow> x \<in> set xs \<Longrightarrow> find (\<lambda>y. f y = f x) xs = Some x"
  by (induction xs) auto

lemma those_None: "those xs = None \<longleftrightarrow> None \<in> set xs"
  by (induction xs) (auto split: option.splits)

lemma those_Some: "those xs = Some ys \<longleftrightarrow> xs = map Some ys"
  by (induction xs arbitrary: ys) (auto split: option.splits)

context persistence_laws
begin

lemma GetCommandByStatus_law:
  assumes "inv db" "command_table (tables db)"
  shows "GetCommandByStatus P J st db = Ok None \<or>
    (\<exists>cs. mset cs = mset (filter (\<lambda>c. c_status c = dec_int (status_int st)) (crows (tables db))) \<and> cs \<noteq> [] \<and>
       GetCommandByStatus P J st db = Ok (those (map (crow_command J) cs)))"
proof (cases "Select P COMMAND_STORE_TABLE_NAME [] (status_filter st) AND [] ASC 0 db")
  case (Ok rows)
  from assms(2) obtain T where T: "tables db COMMAND_STORE_TABLE_NAME = Some T" "cols T = command_keys"
    "list_all row_complete (trows T)" "crows (tables db) = map crow_of (trows T)" by (rule command_tableE)
  have ok: "flds_ok (cols T) []" "crits_ok (cols T) (status_filter st)"
    using command_flds_ok command_crits_ok T(2) by simp_all
  from Select_law [OF assms(1) T(1) ok Ok] obtain rs where
    rs: "mset rs = mset (sel canon AND (status_filter st) T)" "rows = map (project T []) rs"
    using mset_map_perm by fastforce
  have "sel canon AND (status_filter st) T = filter (\<lambda>r. c_status (crow_of r) = dec_int (status_int st)) (trows T)"
    using T(3) by (intro filter_cong refl) (simp add: list_all_iff row_matches_status)
  with rs(1) have "mset (map crow_of rs) =
      mset (filter (\<lambda>c. c_status c = dec_int (status_int st)) (crows (tables db)))"
    by (simp add: T(4) filter_map o_def flip: mset_filter)
  moreover have "GetCommandByStatus P J st db = (if rs = [] then Ok None else Ok (those (map (crow_command J) (map crow_of rs))))"
    using Ok rs(2) read_rows_commands [OF T(2), of J rs]
    by (cases rs) (auto simp: GetCommandByStatus_def o_def split: option.splits list.splits)
  ultimately show ?thesis by (cases "rs = []") (simp, metis map_is_Nil_conv)
qed (use Select_returns [OF assms(1)] in \<open>auto simp: GetCommandByStatus_def\<close>)

lemma GetCommand_selected:
  assumes "inv db" "command_table (tables db)"
    and Ok: "Select P COMMAND_STORE_TABLE_NAME [] (id_filter i) AND [] ASC 0 db = Ok rows"
  shows "GetCommand P J i db = Ok (Option.bind (find (\<lambda>c. c_id c = i) (crows (tables db))) (crow_command J))"
proof -
  from assms(2) obtain T where T: "tables db COMMAND_STORE_TABLE_NAME = Some T" "cols T = command_keys"
    "list_all row_complete (trows T)" "crows (tables db) = map crow_of (trows T)" by (rule command_tableE)
  have ok: "flds_ok (cols T) []" "crits_ok (cols T) (id_filter i)"
    using command_flds_ok command_crits_ok T(2) by simp_all
  from Select_law [OF assms(1) T(1) ok Ok] obtain rs where
    rs: "mset rs = mset (sel canon AND (id_filter i) T)" "rows = map (project T []) rs"
    using mset_map_perm by fastforce
  have "sel canon AND (id_filter i) T = filter (\<lambda>r. c_id (crow_of r) = i) (trows T)"
    using T(3) by (intro filter_cong refl) (simp add: list_all_iff row_matches_id)
  with rs(1) have set: "set rs = {r \<in> set (trows T). c_id (crow_of r) = i}"
    by (metis set_filter set_mset_mset)
  show ?thesis
  proof (cases rs)
    case Nil
    with set have "find (\<lambda>c. c_id c = i) (crows (tables db)) = None" by (auto simp: find_None_iff T(4))
    with Ok rs(2) Nil show ?thesis by (simp add: GetCommand_def)
  next
    case (Cons r rs')
    then have r: "r \<in> set (trows T)" "c_id (crow_of r) = i" using set by auto
    have "find (\<lambda>c. c_id c = i) (crows (tables db)) = Some (crow_of r)"
      using find_distinct [OF command_ids_distinct [OF assms(1,2)], of "crow_of r"] r T(4) by simp
    with Ok rs(2) Cons read_row_command [OF T(2), of J r] show ?thesis
      by (auto simp: GetCommand_def split: option.splits)
  qed
qed

end

subsection \<open>The implementation of the interface\<close>

definition command_store :: "'db persistence \<Rightarrow> json_lib \<Rightarrow> 'db icommand_store" where
  "command_store P J =
     \<lparr>S_Clear = CommandStore_Clear P, S_GetCount = CommandStore_GetCount P, S_StoreCommand = StoreCommand P J,
      S_DeleteCommand = DeleteCommand P, S_GetCommand = GetCommand P J,
      S_GetCommandByStatus = GetCommandByStatus P J, S_UpdateCommand = UpdateCommand P J\<rparr>"

text \<open>The texts of the clock: they read as a number after they have been stored.\<close>

definition clock_text :: "canon \<Rightarrow> string \<Rightarrow> bool" where
  "clock_text canon now \<longleftrightarrow> stod_accepts (canon REAL now) \<and> number_text now"

text \<open>The row that holds a command, and the tables whose rows all do.\<close>

definition entry_row :: "json_lib \<Rightarrow> CommandEntry \<Rightarrow> crow" where
  "entry_row J c = new_crow (\<lambda>_ t. t) (Time c) c (the (dump J (Parameters c)))"

definition entry_good :: "json_lib \<Rightarrow> CommandEntry \<Rightarrow> bool" where
  "entry_good J c \<longleftrightarrow> storable J c \<and> stod_accepts (Time c)"

definition store_commands :: "json_lib \<Rightarrow> (string \<Rightarrow> table option) \<Rightarrow> CommandEntry list" where
  "store_commands J ts = map (\<lambda>c. the (crow_command J c)) (crows ts)"

definition store_good :: "json_lib \<Rightarrow> (string \<Rightarrow> table option) \<Rightarrow> bool" where
  "store_good J ts \<longleftrightarrow> command_table ts \<and> list_all (\<lambda>c. \<exists>e. entry_good J e \<and> c = entry_row J e) (crows ts)"

lemma crow_command_entry: "entry_good J e \<Longrightarrow> crow_command J (entry_row J e) = Some e"
  by (auto simp: entry_good_def entry_row_def elim!: storableE intro: crow_command_new [THEN trans])

lemma crows_of_commands:
  assumes "store_good J ts"
  shows "crows ts = map (entry_row J) (store_commands J ts)" "list_all (entry_good J) (store_commands J ts)"
  using assms crow_command_entry
  by (fastforce simp: store_good_def store_commands_def list_all_iff intro: map_idI [symmetric])+

lemma store_goodI:
  assumes "command_table ts" "crows ts = map (entry_row J) es" "list_all (entry_good J) es"
  shows "store_good J ts" "store_commands J ts = es"
  using assms crow_command_entry by (auto simp: store_good_def store_commands_def list_all_iff intro!: map_idI)

lemma entry_row_sel [simp]:
  "c_id (entry_row J e) = Id e" "c_status (entry_row J e) = dec_int (status_int (code_of e))"
  by (simp_all add: entry_row_def new_crow_def)

lemma upd_crow_entry:
  assumes "json_empty (Parameters u) \<or> dump J (Parameters u) = Some p"
  shows "upd_crow u p (entry_row J e) = entry_row J (upd_entry u e)"
  using assms by (auto simp: upd_crow_def entry_row_def new_crow_def upd_entry_def)

lemma entry_good_upd: "storable J u \<Longrightarrow> entry_good J e \<Longrightarrow> entry_good J (upd_entry u e)"
  by (auto simp: entry_good_def storable_upd) (simp add: upd_entry_def)

context persistence_laws
begin

definition store_inv :: "json_lib \<Rightarrow> 'db \<Rightarrow> bool" where
  "store_inv J db \<longleftrightarrow> inv db \<and> store_good J (tables db)"

lemma store_inv_parts:
  assumes "store_inv J db"
  shows "inv db" "command_table (tables db)" "crows (tables db) = map (entry_row J) (store_commands J (tables db))"
    "list_all (entry_good J) (store_commands J (tables db))"
  using assms crows_of_commands by (auto simp: store_inv_def store_good_def)

lemma store_command_law:
  assumes "store_inv J db" "storable J c" "clock_text canon now" "StoreCommand P J now c db = (r, db')"
  shows "store_inv J db' \<and>
    ((r = Ok True \<and> Id c \<notin> Id ` set (store_commands J (tables db)) \<and>
      store_commands J (tables db') = store_commands J (tables db) @ [c\<lparr>Time := canon REAL now\<rparr>]) \<or>
     (r = Ok False \<and> store_commands J (tables db') = store_commands J (tables db)))"
proof -
  note s = store_inv_parts [OF assms(1)]
  have "number_text now" "stod_accepts (canon REAL now)" using assms(3) by (simp_all add: clock_text_def)
  note law = StoreCommand_law [OF s(1,2) this(1) assms(4)]
  from assms(2) obtain p where p: "dump J (Parameters c) = Some p" "parse J p = Some (Parameters c)" by (rule storableE)
  show ?thesis
  proof (cases "r = Ok True")
    case True
    let ?e = "c\<lparr>Time := canon REAL now\<rparr>"
    have "crows (tables db') = map (entry_row J) (store_commands J (tables db) @ [?e])"
      using law True p s(3) by (auto simp: entry_row_def new_crow_def)
    moreover have "list_all (entry_good J) (store_commands J (tables db) @ [?e])"
      using s(4) assms(2,3) by (simp add: entry_good_def storable_def clock_text_def)
    ultimately have "store_good J (tables db')" "store_commands J (tables db') = store_commands J (tables db) @ [?e]"
      using store_goodI law by blast+
    with law True s(3) show ?thesis by (auto simp: store_inv_def image_iff)
  next
    case False
    moreover have "r = Ok False"
      using False assms(4) p(1) law
      by (cases "Insert P COMMAND_STORE_TABLE_NAME (command_fields now c p) db" rule: success_of.cases)
        (auto simp: StoreCommand_def)
    ultimately show ?thesis using law assms(1) by (auto simp: store_inv_def)
  qed
qed

lemma update_command_law:
  assumes "store_inv J db" "storable J c" "Module c \<noteq> [] \<or> code_of c \<noteq> UNKNOWN" "UpdateCommand P J c db = (r, db')"
  shows "store_inv J db' \<and>
    ((r = Ok True \<and> store_commands J (tables db') =
        map (\<lambda>x. if Id x = Id c then upd_entry c x else x) (store_commands J (tables db))) \<or>
     (r = Ok False \<and> store_commands J (tables db') = store_commands J (tables db)))"
proof -
  note s = store_inv_parts [OF assms(1)]
  note law = UpdateCommand_law [OF s(1,2) assms(4,3)]
  from assms(2) obtain p where p: "dump J (Parameters c) = Some p" "parse J p = Some (Parameters c)" by (rule storableE)
  let ?es = "map (\<lambda>x. if Id x = Id c then upd_entry c x else x) (store_commands J (tables db))"
  show ?thesis
  proof (cases "r = Ok True")
    case True
    with law obtain q where q: "json_empty (Parameters c) \<or> dump J (Parameters c) = Some q"
      "crows (tables db') = map (\<lambda>x. if c_id x = Id c then upd_crow c q x else x) (crows (tables db))" by auto
    have "crows (tables db') = map (entry_row J) ?es"
      using q(2) s(3) upd_crow_entry [OF q(1)] by auto
    moreover have "list_all (entry_good J) ?es"
      using s(4) entry_good_upd [OF assms(2)] by (auto simp: list_all_iff)
    ultimately have "store_good J (tables db')" "store_commands J (tables db') = ?es"
      using store_goodI law by blast+
    with law True show ?thesis by (simp add: store_inv_def)
  next
    case False
    moreover have "r = Ok False"
      using False assms(4) p(1) law by (auto simp: UpdateCommand_def split: if_splits elim: success_of.elims)
    ultimately show ?thesis using law assms(1) by (auto simp: store_inv_def)
  qed
qed

end

lemma command_store_sel [simp]:
  "S_StoreCommand (command_store P J) = StoreCommand P J" "S_UpdateCommand (command_store P J) = UpdateCommand P J"
  "S_GetCommandByStatus (command_store P J) = GetCommandByStatus P J" "S_GetCommand (command_store P J) = GetCommand P J"
  by (simp_all add: command_store_def)

lemma those_entries:
  assumes "mset cs = mset (map (entry_row J) es)" "list_all (entry_good J) es"
  shows "\<exists>xs. mset xs = mset es \<and> those (map (crow_command J) cs) = Some xs"
proof -
  obtain xs where xs: "mset xs = mset es" "cs = map (entry_row J) xs" using mset_map_perm [OF assms(1)] by blast
  then have "list_all (entry_good J) xs" using assms(2) by (metis list_all_iff set_mset_mset)
  with xs show ?thesis by (auto simp: those_Some list_all_iff crow_command_entry)
qed

lemma filter_entry_rows:
  "filter (\<lambda>c. c_status c = dec_int (status_int st)) (map (entry_row J) es) =
   map (entry_row J) (filter (\<lambda>e. code_of e = st) es)"
  by (simp add: filter_map o_def)

context persistence_laws
begin

lemma by_status_command_law:
  assumes "store_inv J db"
  shows "GetCommandByStatus P J st db = Ok None \<or>
    (\<exists>cs. GetCommandByStatus P J st db = Ok (Some cs) \<and>
       mset cs = mset (filter (\<lambda>c. code_of c = st) (store_commands J (tables db))))"
proof -
  note s = store_inv_parts [OF assms(1)]
  have "list_all (entry_good J) (filter (\<lambda>c. code_of c = st) (store_commands J (tables db)))"
    using s(4) by (auto simp: list_all_iff)
  from those_entries [OF _ this] GetCommandByStatus_law [OF s(1,2), of J st]
  show ?thesis unfolding s(3) filter_entry_rows by metis
qed

end

sublocale persistence_laws \<subseteq> cs: command_store_laws "command_store P J" J
  "\<lambda>db. store_commands J (tables db)" "store_inv J" "clock_text canon" for J
proof unfold_locales
  fix db assume db: "store_inv J db"
  note s = store_inv_parts [OF db]
  show "distinct (map Id (store_commands J (tables db)))"
    using command_ids_distinct [OF s(1,2)] by (simp add: s(3) o_def)
  show "storable J c" if "c \<in> set (store_commands J (tables db))" for c
    using s(4) that by (auto simp: list_all_iff entry_good_def)
  show "S_GetCommandByStatus (command_store P J) st db = Ok None \<or>
    (\<exists>cs. S_GetCommandByStatus (command_store P J) st db = Ok (Some cs) \<and>
       mset cs = mset (filter (\<lambda>c. code_of c = st) (store_commands J (tables db))))" for st
    using by_status_command_law [OF db] by simp
next
  fix db c now r db'
  assume "store_inv J db" "storable J c" "clock_text canon now"
    "S_StoreCommand (command_store P J) now c db = (r, db')"
  then show "store_inv J db' \<and>
    (r = Ok True \<and> Id c \<notin> Id ` set (store_commands J (tables db)) \<and>
     (\<exists>t. store_commands J (tables db') = store_commands J (tables db) @ [c\<lparr>Time := t\<rparr>]) \<or>
     r = Ok False \<and> store_commands J (tables db') = store_commands J (tables db))"
    using store_command_law [of J db c now r db'] by auto
next
  fix db c r db'
  assume "store_inv J db" "storable J c" "Module c \<noteq> [] \<or> code_of c \<noteq> UNKNOWN"
    "S_UpdateCommand (command_store P J) c db = (r, db')"
  then show "store_inv J db' \<and>
    (r = Ok True \<and> store_commands J (tables db') =
       map (\<lambda>x. if Id x = Id c then upd_entry c x else x) (store_commands J (tables db)) \<or>
     r = Ok False \<and> store_commands J (tables db') = store_commands J (tables db))"
    using update_command_law [of J db c r db'] by simp
qed

context reliable_persistence
begin

lemma StoreCommand_ok:
  assumes "inv db" "command_table (tables db)" "storable J c" "number_text now"
    and "Id c \<notin> c_id ` set (crows (tables db))"
  shows "fst (StoreCommand P J now c db) = Ok True"
proof -
  from assms(3) obtain p where p: "dump J (Parameters c) = Some p" "CHR 0x00 \<notin> set p" by (rule storableE)
  from assms(2) obtain T where T: "tables db COMMAND_STORE_TABLE_NAME = Some T" "cols T = command_keys"
    "list_all row_complete (trows T)" "crows (tables db) = map crow_of (trows T)" by (rule command_tableE)
  have "nul_free (command_fields now c p)"
    using assms(3) number_text_nul [OF assms(4)] p plain_dec_int
    by (simp add: nul_free_def command_fields_def col_value_def storable_def plain_def)
  moreover have "row_ok (cols T) (command_fields now c p)" using command_row_ok [OF assms(4)] T(2) by simp
  ultimately have "fst (Insert P COMMAND_STORE_TABLE_NAME (command_fields now c p) db) = Ok ()"
    using Insert_ok [OF assms(1) T(1)] command_admissible [OF T(2,3)] assms(5) T(4) by simp
  with p(1) show ?thesis
    by (cases "Insert P COMMAND_STORE_TABLE_NAME (command_fields now c p) db") (simp add: StoreCommand_def)
qed

lemma UpdateCommand_ok:
  assumes "inv db" "command_table (tables db)" "storable J c" "Module c \<noteq> [] \<or> code_of c \<noteq> UNKNOWN"
  shows "fst (UpdateCommand P J c db) = Ok True"
proof -
  from assms(3) obtain p where p: "dump J (Parameters c) = Some p" "CHR 0x00 \<notin> set p" by (rule storableE)
  from assms(2) obtain T where T: "tables db COMMAND_STORE_TABLE_NAME = Some T" "cols T = command_keys"
    by (rule command_tableE)
  let ?p = "if json_empty (Parameters c) then [] else p"
  have "row_ok (cols T) (update_fields c ?p)" "crits_ok (cols T) (id_filter (Id c))"
    using update_row_ok [OF assms(4)] command_crits_ok T(2) by simp_all
  moreover have "nul_free (update_fields c ?p)" "nul_free (id_filter (Id c))"
    "set (map Name (update_fields c ?p)) \<inter> set (key_cols T) = {}"
    using assms(3,4) p plain_dec_int
    by (auto simp: update_fields_def id_filter_def nul_free_def col_value_def storable_def plain_def T(2)
        key_cols_command [OF T(2)] command_key_defs)
  ultimately have "fst (Update P COMMAND_STORE_TABLE_NAME (update_fields c ?p) (id_filter (Id c)) AND db) = Ok ()"
    using Update_ok [OF assms(1) T(1)] by blast
  with p(1) show ?thesis
    by (cases "Update P COMMAND_STORE_TABLE_NAME (update_fields c ?p) (id_filter (Id c)) AND db")
      (simp add: UpdateCommand_def split: if_splits)
qed

lemma GetCommandByStatus_ok:
  assumes "store_inv J db" "filter (\<lambda>c. code_of c = st) (store_commands J (tables db)) \<noteq> []"
  shows "GetCommandByStatus P J st db \<noteq> Ok None"
proof -
  note s = store_inv_parts [OF assms(1)]
  from s(2) obtain T where T: "tables db COMMAND_STORE_TABLE_NAME = Some T" "cols T = command_keys"
    "list_all row_complete (trows T)" "crows (tables db) = map crow_of (trows T)" by (rule command_tableE)
  have "nul_free (status_filter st)" using plain_dec_int by (simp add: nul_free_def status_filter_def col_value_def plain_def)
  moreover have ok: "flds_ok (cols T) []" "crits_ok (cols T) (status_filter st)"
    using command_flds_ok command_crits_ok T(2) by simp_all
  ultimately obtain rows where
    rows: "Select P COMMAND_STORE_TABLE_NAME [] (status_filter st) AND [] ASC 0 db = Ok rows"
    using Select_ok [OF s(1) T(1), of "[]" "status_filter st" "[]" AND ASC 0] by auto
  with Select_law [OF s(1) T(1) ok rows] obtain rs where
    rs: "mset rs = mset (sel canon AND (status_filter st) T)" "rows = map (project T []) rs"
    using mset_map_perm by fastforce
  have sel: "sel canon AND (status_filter st) T = filter (\<lambda>r. c_status (crow_of r) = dec_int (status_int st)) (trows T)"
    using T(3) by (intro filter_cong refl) (simp add: list_all_iff row_matches_status)
  have m: "mset (map crow_of rs) = mset (map (entry_row J) (filter (\<lambda>c. code_of c = st) (store_commands J (tables db))))"
    using rs(1) unfolding sel filter_entry_rows [symmetric] s(3) [symmetric] T(4)
    by (simp add: filter_map o_def flip: mset_filter)
  then have "rs \<noteq> []" using assms(2) by (metis list.map_disc_iff mset_zero_iff)
  moreover obtain xs where "those (map (crow_command J) (map crow_of rs)) = Some xs"
    using those_entries [OF m] s(4) by (auto simp: list_all_iff)
  ultimately show ?thesis
    using rows rs(2) read_rows_commands [OF T(2), of J rs]
    by (cases rs) (auto simp: GetCommandByStatus_def o_def split: option.splits)
qed

end

sublocale reliable_persistence \<subseteq> csr: reliable_command_store "command_store P J" J
  "\<lambda>db. store_commands J (tables db)" "store_inv J" "clock_text canon" for J
proof unfold_locales
  fix db c now
  assume a: "store_inv J db" "storable J c" "clock_text canon now" "Id c \<notin> Id ` set (store_commands J (tables db))"
  note s = store_inv_parts [OF a(1)]
  have "Id c \<notin> c_id ` set (crows (tables db))" using a(4) by (auto simp: s(3))
  with a(2,3) StoreCommand_ok [OF s(1,2)] show "fst (S_StoreCommand (command_store P J) now c db) = Ok True"
    by (simp add: clock_text_def)
next
  fix db c
  assume a: "store_inv J db" "storable J c" "Module c \<noteq> [] \<or> code_of c \<noteq> UNKNOWN"
  from UpdateCommand_ok [OF store_inv_parts(1,2) [OF a(1)] a(2,3)]
  show "fst (S_UpdateCommand (command_store P J) c db) = Ok True" by simp
next
  fix db st
  assume "store_inv J db" "filter (\<lambda>c. code_of c = st) (store_commands J (tables db)) \<noteq> []"
  from GetCommandByStatus_ok [OF this] show "S_GetCommandByStatus (command_store P J) st db \<noteq> Ok None" by simp
qed

context persistence_laws
begin

lemma command_store_contract:
  "command_store_laws (command_store P J) J (\<lambda>db. store_commands J (tables db)) (store_inv J) (clock_text canon)"
  by unfold_locales

end

context reliable_persistence
begin

lemma reliable_command_store_contract:
  "reliable_command_store (command_store P J) J (\<lambda>db. store_commands J (tables db)) (store_inv J) (clock_text canon)"
  by unfold_locales

end

subsection \<open>Properties\<close>

context reliable_persistence
begin

lemma GetCommand_exact:
  assumes "inv db" "command_table (tables db)" "plain i"
  shows "GetCommand P J i db = Ok (Option.bind (find (\<lambda>c. c_id c = i) (crows (tables db))) (crow_command J))"
proof -
  from assms(2) obtain T where T: "tables db COMMAND_STORE_TABLE_NAME = Some T" "cols T = command_keys"
    by (rule command_tableE)
  have "flds_ok (cols T) []" "crits_ok (cols T) (id_filter i)"
    using command_flds_ok command_crits_ok T(2) by simp_all
  moreover have "nul_free (id_filter i)" using assms(3) by (simp add: nul_free_def id_filter_def col_value_def plain_def)
  ultimately obtain rows where "Select P COMMAND_STORE_TABLE_NAME [] (id_filter i) AND [] ASC 0 db = Ok rows"
    using Select_ok [OF assms(1) T(1), of "[]" "id_filter i" "[]" AND ASC 0] by auto
  from GetCommand_selected [OF assms(1,2) this] show ?thesis .
qed

lemma StoreCommand_taken:
  assumes "inv db" "command_table (tables db)" "storable J c" "Id c \<in> c_id ` set (crows (tables db))"
    and "number_text now"
  shows "\<exists>db'. StoreCommand P J now c db = (Ok False, db') \<and> tables db' = tables db"
proof -
  obtain r db' where r: "StoreCommand P J now c db = (r, db')" by fastforce
  note law = StoreCommand_law [OF assms(1,2,5) r]
  then have "r \<noteq> Ok True" using assms(4) by auto
  moreover from assms(3) obtain p where "dump J (Parameters c) = Some p" by (rule storableE)
  ultimately have "r = Ok False"
    using r law by (auto simp: StoreCommand_def elim: success_of.elims)
  with r law \<open>r \<noteq> Ok True\<close> show ?thesis by auto
qed

end

text \<open>
  C20: a stored command reads back. Storing a command under a new identifier succeeds, reading that
  identifier then gives exactly that command with the time it was stored at, and storing any command
  under the same identifier again reports failure and changes nothing.
\<close>

theorem StoreCommand_GetCommand:
  assumes "reliable_persistence P tables saved canon dinv" "dinv db" "command_table (tables db)"
    and "storable J cmd" "clock_text canon now" "Id cmd \<notin> c_id ` set (crows (tables db))"
    and "storable J cmd2" "Id cmd2 = Id cmd" "clock_text canon now2"
  shows "\<exists>db'. StoreCommand P J now cmd db = (Ok True, db') \<and>
    GetCommand P J (Id cmd) db' = Ok (Some (cmd\<lparr>Time := canon REAL now\<rparr>)) \<and>
    (\<exists>db''. StoreCommand P J now2 cmd2 db' = (Ok False, db'') \<and> tables db'' = tables db')"
proof -
  note R = assms(1)
  have L: "persistence_laws P tables saved canon dinv" using R by (simp add: reliable_persistence_def)
  obtain r db' where r: "StoreCommand P J now cmd db = (r, db')" by fastforce
  have n: "number_text now" "number_text now2" using assms(5,9) by (simp_all add: clock_text_def)
  from reliable_persistence.StoreCommand_ok [OF R assms(2-4) n(1) assms(6)] r have "r = Ok True" by simp
  with persistence_laws.StoreCommand_law [OF L assms(2,3) n(1) r] obtain p where
    d: "dinv db'" "command_table (tables db')" "dump J (Parameters cmd) = Some p"
      "crows (tables db') = crows (tables db) @ [new_crow canon now cmd p]" by auto
  let ?c = "new_crow canon now cmd p"
  have i: "c_id ?c = Id cmd" by (simp add: new_crow_def)
  have "find (\<lambda>c. c_id c = Id cmd) (crows (tables db')) = Some ?c"
    using find_distinct [OF persistence_laws.command_ids_distinct [OF L d(1,2)], of ?c] d(4) i by simp
  moreover have "parse J p = Some (Parameters cmd)" "plain (Id cmd)"
    using assms(4) d(3) by (auto simp: storable_def params_ok_def plain_def)
  ultimately have "GetCommand P J (Id cmd) db' = Ok (Some (cmd\<lparr>Time := canon REAL now\<rparr>))"
    using reliable_persistence.GetCommand_exact [OF R d(1,2)] crow_command_new assms(5) by (simp add: clock_text_def)
  moreover have "Id cmd2 \<in> c_id ` set (crows (tables db'))" using d(4) i assms(8) by simp
  ultimately show ?thesis
    using r \<open>r = Ok True\<close> reliable_persistence.StoreCommand_taken [OF R d(1,2) assms(7) _ n(2)] by blast
qed

definition mem_command_db :: mem_db where
  "mem_command_db = mem_empty\<lparr>m_tables := [COMMAND_STORE_TABLE_NAME \<mapsto> \<lparr>cols = command_keys, trows = []\<rparr>]\<rparr>"

lemma mem_command_db_ok:
  "mem_inv mem_command_db" "command_table (m_tables mem_command_db)" "crows (m_tables mem_command_db) = []"
  by (simp_all add: mem_command_db_def mem_empty_def mem_inv_def tables_ok_def table_ok_empty command_table_def
      crows_def)

theorem StoreCommand_GetCommand_witness:
  "\<exists>db'. StoreCommand mem_persistence tiny_lib ''12.5'' (command_entry ''7'' [] ''restart'' (JObj []) SYNC [] IN_PROGRESS)
       mem_command_db = (Ok True, db') \<and>
     GetCommand mem_persistence tiny_lib ''7'' db' =
       Ok (Some ((command_entry ''7'' [] ''restart'' (JObj []) SYNC [] IN_PROGRESS)\<lparr>Time := ''12.5''\<rparr>))"
proof -
  let ?c = "command_entry ''7'' [] ''restart'' (JObj []) SYNC [] IN_PROGRESS"
  have c: "storable tiny_lib ?c" by (simp add: storable_def params_ok_def command_entry_def tiny_eval)
  have t: "clock_text mem_canon ''12.5''"
    by (simp add: clock_text_def mem_canon_def stod_accepts_def isspace_def isdigit_def number_text_def)
  have i: "Id ?c \<notin> c_id ` set (crows (m_tables mem_command_db))" by (simp add: mem_command_db_ok)
  from StoreCommand_GetCommand [OF memr.reliable_persistence_axioms, OF mem_command_db_ok(1,2) c t i c refl t]
  show ?thesis by (auto simp: command_entry_def mem_canon_def)
qed

end
