(* ===== verification/Utf8_Op.thy ===== *)
theory Utf8_Op
  imports Prelude "HOL-Library.Word"
begin

section \<open>UTF-8 checks\<close>

text \<open>
  \<^verbatim>\<open>src/src/common/utf8_op/src/utf8_op.c\<close>: \<^verbatim>\<open>w_utf8_drop\<close>, \<^verbatim>\<open>w_utf8_valid\<close> and \<^verbatim>\<open>w_utf8_filter\<close>. A C string
  is the list of its bytes before the terminating zero; a read at the end of the list reads that
  zero. The writes of \<^verbatim>\<open>w_utf8_filter\<close> are checked against the size of its buffer. Its
  allocations succeed: a failed \<^verbatim>\<open>os_malloc\<close> or \<^verbatim>\<open>os_realloc\<close> ends the process and is not modelled.

  The lemmas relate the byte tests to the Unicode standard's encoding of scalar values, and show that
  the filter keeps its writes inside the buffer and returns UTF-8.
\<close>

unbundle bit_operations_syntax

subsection \<open>The byte tests\<close>

definition byte_at :: "string \<Rightarrow> nat \<Rightarrow> nat" where
  "byte_at x i = (if i < length x then of_char (x ! i) else 0)"

text \<open>The value of a byte as a signed \<^verbatim>\<open>char\<close>.\<close>

definition schar :: "nat \<Rightarrow> int" where
  "schar b = (if b < 128 then int b else int b - 256)"

definition valid_1 :: "string \<Rightarrow> bool" where
  "valid_1 x \<longleftrightarrow> byte_at x 0 AND 0x80 = 0"

definition valid_2 :: "string \<Rightarrow> bool" where
  "valid_2 x \<longleftrightarrow> byte_at x 0 AND 0xE0 = 0xC0 \<and> schar (byte_at x 0) \<ge> schar 0xC2 \<and> byte_at x 1 AND 0xC0 = 0x80"

definition valid_3 :: "string \<Rightarrow> bool" where
  "valid_3 x \<longleftrightarrow>
     byte_at x 0 AND 0xF0 = 0xE0 \<and> byte_at x 1 AND 0xC0 = 0x80 \<and> byte_at x 2 AND 0xC0 = 0x80 \<and>
     (byte_at x 0 \<noteq> 0xE0 \<or> byte_at x 1 \<ge> 0xA0) \<and> (byte_at x 0 \<noteq> 0xED \<or> byte_at x 1 < 0xA0) \<and>
     (byte_at x 0 \<noteq> 0xEF \<or> byte_at x 1 \<le> 0xBF)"

definition valid_4 :: "string \<Rightarrow> bool" where
  "valid_4 x \<longleftrightarrow>
     byte_at x 0 AND 0xF8 = 0xF0 \<and> byte_at x 0 \<le> 0xF4 \<and>
     byte_at x 1 AND 0xC0 = 0x80 \<and> byte_at x 2 AND 0xC0 = 0x80 \<and> byte_at x 3 AND 0xC0 = 0x80 \<and>
     (byte_at x 0 \<noteq> 0xF0 \<or> byte_at x 1 \<ge> 0x90) \<and> (byte_at x 0 \<noteq> 0xF4 \<or> byte_at x 1 \<le> 0x8F)"

subsection \<open>Dropping, checking, filtering\<close>

function w_utf8_drop :: "string \<Rightarrow> string" where
  "w_utf8_drop x =
     (if byte_at x 0 = 0 then x
      else if valid_1 x then w_utf8_drop (drop 1 x)
      else if valid_2 x then w_utf8_drop (drop 2 x)
      else if valid_3 x then w_utf8_drop (drop 3 x)
      else if valid_4 x then w_utf8_drop (drop 4 x)
      else x)"
  by pat_completeness auto
termination
  by (relation "measure length") (auto simp: byte_at_def split: if_splits)

definition w_utf8_valid :: "string \<Rightarrow> bool" where
  "w_utf8_valid x \<longleftrightarrow> byte_at (w_utf8_drop x) 0 = 0"

definition REPLACEMENT_INC :: nat where "REPLACEMENT_INC = 4096"

text \<open>
  The buffer: what has been written, so that \<^verbatim>\<open>i\<close> is its length, and its size. \<open>put_bytes\<close> writes
  bytes at \<^verbatim>\<open>copy[i++]\<close>; a write past the end is undefined.
\<close>

record buf =
  copy :: string
  buf_size :: nat

definition put_bytes :: "string \<Rightarrow> buf \<Rightarrow> buf result" where
  "put_bytes bs b = (if length (copy b) + length bs \<le> buf_size b then Ok (b\<lparr>copy := copy b @ bs\<rparr>) else Terminate)"

definition replacement_char :: string where
  "replacement_char = [CHR 0xEF, CHR 0xBF, CHR 0xBD]"

text \<open>\<open>grow\<close>: the reallocation, when less than three spare bytes are left.\<close>

definition grow :: "nat \<Rightarrow> buf \<Rightarrow> nat \<times> buf" where
  "grow repl b =
     (if repl < 3 then (repl + REPLACEMENT_INC, b\<lparr>buf_size := buf_size b + REPLACEMENT_INC\<rparr>) else (repl, b))"

function filter_loop :: "bool \<Rightarrow> string \<Rightarrow> nat \<Rightarrow> buf \<Rightarrow> string result" where
  "filter_loop replacement x repl b =
     (if byte_at x 0 = 0 then map_result (\<lambda>_. copy b) (put_bytes [CHR 0x00] b)
      else
        let n = (if valid_1 x then 1 else if valid_2 x then 2 else if valid_3 x then 3 else if valid_4 x then 4 else 0)
        in if n > 0 then
             (case put_bytes (take n x) b of
                Ok b' \<Rightarrow> filter_loop replacement (drop n x) repl b' | Throw e \<Rightarrow> Throw e | Terminate \<Rightarrow> Terminate)
           else if replacement then
             (let (repl', b1) = grow repl b in
              case put_bytes replacement_char b1 of
                Ok b' \<Rightarrow> filter_loop replacement (drop 1 x) (repl' - 3) b' | Throw e \<Rightarrow> Throw e | Terminate \<Rightarrow> Terminate)
           else filter_loop replacement (drop 1 x) repl b)"
  by pat_completeness auto
termination
  by (relation "measure (\<lambda>(r, x, p, b). length x)") (auto simp: byte_at_def split: if_splits)

text \<open>\<^verbatim>\<open>strlen\<close>.\<close>

definition c_strlen :: "string \<Rightarrow> nat" where
  "c_strlen x = length (takeWhile (\<lambda>c. c \<noteq> CHR 0x00) x)"

definition w_utf8_filter :: "string \<Rightarrow> bool \<Rightarrow> string result" where
  "w_utf8_filter x replacement =
     (let valid = w_utf8_drop x in
      if byte_at valid 0 = 0 then Ok (take (c_strlen x) x)
      else
        let size = c_strlen x + 1; i = length x - length valid
        in filter_loop replacement valid 0 \<lparr>copy = take i x, buf_size = size\<rparr>)"

declare w_utf8_drop.simps [simp del] filter_loop.simps [simp del]

subsection \<open>The encoding, by the standard\<close>

definition scalar :: "nat \<Rightarrow> bool" where
  "scalar cp \<longleftrightarrow> cp < 0xD800 \<or> 0xE000 \<le> cp \<and> cp < 0x110000"

definition utf8_encode :: "nat \<Rightarrow> nat list" where
  "utf8_encode cp =
     (if cp < 0x80 then [cp]
      else if cp < 0x800 then [0xC0 + cp div 64, 0x80 + cp mod 64]
      else if cp < 0x10000 then [0xE0 + cp div 4096, 0x80 + cp div 64 mod 64, 0x80 + cp mod 64]
      else [0xF0 + cp div 262144, 0x80 + cp div 4096 mod 64, 0x80 + cp div 64 mod 64, 0x80 + cp mod 64])"

definition bytes :: "string \<Rightarrow> nat list" where
  "bytes x = map of_char x"

definition c_string :: "string \<Rightarrow> bool" where
  "c_string x \<longleftrightarrow> CHR 0x00 \<notin> set x"


subsection \<open>The masks\<close>

lemma and_high_mask:
  fixes b :: nat
  assumes "b < 2 ^ k"
  shows "b AND push_bit m (mask (k - m)) = b div 2 ^ m * 2 ^ m"
proof -
  have "b AND push_bit m (mask (k - m)) = push_bit m (drop_bit m b)"
  proof (rule bit_eqI)
    fix n
    have "\<not> bit b n" if "k \<le> n"
    proof -
      have "b < 2 ^ n" using assms that by (meson less_le_trans one_le_numeral power_increasing)
      then show ?thesis by (simp add: bit_iff_odd)
    qed
    then show "bit (b AND push_bit m (mask (k - m))) n = bit (push_bit m (drop_bit m b)) n"
      by (cases "k \<le> n") (auto simp: bit_simps)
  qed
  then show ?thesis by (simp add: push_bit_eq_mult drop_bit_eq_div)
qed

lemma high_masks:
  "push_bit 7 (mask (8 - 7)) = (0x80 :: nat)" "push_bit 6 (mask (8 - 6)) = (0xC0 :: nat)"
  "push_bit 5 (mask (8 - 5)) = (0xE0 :: nat)" "push_bit 4 (mask (8 - 4)) = (0xF0 :: nat)"
  "push_bit 3 (mask (8 - 3)) = (0xF8 :: nat)"
  by (simp_all add: push_bit_eq_mult mask_eq_exp_minus_1)

lemma and_masks:
  fixes b :: nat
  assumes "b < 256"
  shows "b AND 0x80 = b div 128 * 128" "b AND 0xC0 = b div 64 * 64" "b AND 0xE0 = b div 32 * 32"
    "b AND 0xF0 = b div 16 * 16" "b AND 0xF8 = b div 8 * 8"
proof -
  have b: "b < 2 ^ 8" using assms by simp
  show "b AND 0x80 = b div 128 * 128" using and_high_mask [OF b, of 7] unfolding high_masks by simp
  show "b AND 0xC0 = b div 64 * 64" using and_high_mask [OF b, of 6] unfolding high_masks by simp
  show "b AND 0xE0 = b div 32 * 32" using and_high_mask [OF b, of 5] unfolding high_masks by simp
  show "b AND 0xF0 = b div 16 * 16" using and_high_mask [OF b, of 4] unfolding high_masks by simp
  show "b AND 0xF8 = b div 8 * 8" using and_high_mask [OF b, of 3] unfolding high_masks by simp
qed

lemma byte_at_less: "byte_at x i < 256"
  by (simp add: byte_at_def)

lemma div_times_eq_iff:
  fixes b k m :: nat
  assumes "0 < k"
  shows "b div k * k = m * k \<longleftrightarrow> m * k \<le> b \<and> b < m * k + k"
proof
  assume "b div k * k = m * k"
  then have "b div k = m" using assms by simp
  then show "m * k \<le> b \<and> b < m * k + k"
    using assms by (metis add.commute div_mult_mod_eq le_add2 mod_less_divisor nat_add_left_cancel_less)
next
  assume "m * k \<le> b \<and> b < m * k + k"
  then have "b div k = m" by (intro div_nat_eqI) (simp_all add: mult.commute)
  then show "b div k * k = m * k" by simp
qed

lemma byte_tests:
  "byte_at x i AND 0x80 = 0 \<longleftrightarrow> byte_at x i < 0x80"
  "byte_at x i AND 0xC0 = 0x80 \<longleftrightarrow> 0x80 \<le> byte_at x i \<and> byte_at x i < 0xC0"
  "byte_at x i AND 0xE0 = 0xC0 \<longleftrightarrow> 0xC0 \<le> byte_at x i \<and> byte_at x i < 0xE0"
  "byte_at x i AND 0xF0 = 0xE0 \<longleftrightarrow> 0xE0 \<le> byte_at x i \<and> byte_at x i < 0xF0"
  "byte_at x i AND 0xF8 = 0xF0 \<longleftrightarrow> 0xF0 \<le> byte_at x i \<and> byte_at x i < 0xF8"
  unfolding and_masks [OF byte_at_less]
  using div_times_eq_iff [of 128 "byte_at x i" 0] div_times_eq_iff [of 64 "byte_at x i" 2]
    div_times_eq_iff [of 32 "byte_at x i" 6] div_times_eq_iff [of 16 "byte_at x i" 14]
    div_times_eq_iff [of 8 "byte_at x i" 30] by simp_all

lemma valid_ranges:
  "valid_1 x \<longleftrightarrow> byte_at x 0 < 0x80"
  "valid_2 x \<longleftrightarrow> 0xC2 \<le> byte_at x 0 \<and> byte_at x 0 < 0xE0 \<and> 0x80 \<le> byte_at x 1 \<and> byte_at x 1 < 0xC0"
  "valid_3 x \<longleftrightarrow> 0xE0 \<le> byte_at x 0 \<and> byte_at x 0 < 0xF0 \<and> 0x80 \<le> byte_at x 1 \<and> byte_at x 1 < 0xC0 \<and>
     0x80 \<le> byte_at x 2 \<and> byte_at x 2 < 0xC0 \<and>
     (byte_at x 0 = 0xE0 \<longrightarrow> 0xA0 \<le> byte_at x 1) \<and> (byte_at x 0 = 0xED \<longrightarrow> byte_at x 1 < 0xA0)"
  "valid_4 x \<longleftrightarrow> 0xF0 \<le> byte_at x 0 \<and> byte_at x 0 \<le> 0xF4 \<and> 0x80 \<le> byte_at x 1 \<and> byte_at x 1 < 0xC0 \<and>
     0x80 \<le> byte_at x 2 \<and> byte_at x 2 < 0xC0 \<and> 0x80 \<le> byte_at x 3 \<and> byte_at x 3 < 0xC0 \<and>
     (byte_at x 0 = 0xF0 \<longrightarrow> 0x90 \<le> byte_at x 1) \<and> (byte_at x 0 = 0xF4 \<longrightarrow> byte_at x 1 < 0x90)"
  unfolding valid_1_def valid_2_def valid_3_def valid_4_def byte_tests
  using byte_at_less [of x 0] by (auto simp: schar_def)

text \<open>The length of the sequence at the front, zero if there is none.\<close>

definition seq_len :: "string \<Rightarrow> nat" where
  "seq_len x = (if valid_1 x then 1 else if valid_2 x then 2 else if valid_3 x then 3 else if valid_4 x then 4 else 0)"

lemma byte_at_length: "byte_at x i \<noteq> 0 \<Longrightarrow> i < length x"
  by (simp add: byte_at_def split: if_splits)

lemma valid_lengths:
  "valid_2 x \<Longrightarrow> 2 \<le> length x" "valid_3 x \<Longrightarrow> 3 \<le> length x" "valid_4 x \<Longrightarrow> 4 \<le> length x"
proof -
  have b: "i < length x" if "0x80 \<le> byte_at x i" for i
    by (rule byte_at_length) (use that in linarith)
  show "valid_2 x \<Longrightarrow> 2 \<le> length x" using b [of 1] by (simp add: valid_ranges)
  show "valid_3 x \<Longrightarrow> 3 \<le> length x" using b [of 2] by (simp add: valid_ranges)
  show "valid_4 x \<Longrightarrow> 4 \<le> length x" using b [of 3] by (simp add: valid_ranges)
qed

lemma seq_len_le: "byte_at x 0 \<noteq> 0 \<Longrightarrow> seq_len x \<le> length x"
  using byte_at_length [of x 0] valid_lengths [of x] by (simp add: seq_len_def Suc_le_eq)

lemma w_utf8_drop_step:
  "w_utf8_drop x = (if byte_at x 0 = 0 \<or> seq_len x = 0 then x else w_utf8_drop (drop (seq_len x) x))"
  by (subst w_utf8_drop.simps) (simp add: seq_len_def)

text \<open>A sequence at the front is the encoding of a scalar value, and of one only.\<close>

lemma bytes_take: "k \<le> length x \<Longrightarrow> bytes (take k x) = map (byte_at x) [0..<k]"
  by (rule nth_equalityI) (simp_all add: bytes_def byte_at_def)

lemma digits64:
  fixes p q r t :: nat
  assumes "q < 64" "r < 64" "t < 64"
  shows "(p * 64 + q) div 64 = p" "(p * 64 + q) mod 64 = q"
    "(p * 4096 + q * 64 + r) div 4096 = p" "(p * 4096 + q * 64 + r) div 64 mod 64 = q" "(p * 4096 + q * 64 + r) mod 64 = r"
    "(p * 262144 + q * 4096 + r * 64 + t) div 262144 = p" "(p * 262144 + q * 4096 + r * 64 + t) div 4096 mod 64 = q"
    "(p * 262144 + q * 4096 + r * 64 + t) div 64 mod 64 = r" "(p * 262144 + q * 4096 + r * 64 + t) mod 64 = t"
proof -
  have two: "(a * 64 + b) div 64 = a" "(a * 64 + b) mod 64 = b" if "b < 64" for a b :: nat
    using that by simp_all
  have s3: "p * 4096 + q * 64 + r = (p * 64 + q) * 64 + r" by simp
  have s4: "p * 262144 + q * 4096 + r * 64 + t = ((p * 64 + q) * 64 + r) * 64 + t" by simp
  have d: "n div 4096 = n div 64 div 64" "n div 262144 = n div 64 div 64 div 64" for n :: nat
    by (simp_all add: div_mult2_eq [symmetric])
  show "(p * 64 + q) div 64 = p" "(p * 64 + q) mod 64 = q" using two assms by simp_all
  show "(p * 4096 + q * 64 + r) div 4096 = p" "(p * 4096 + q * 64 + r) div 64 mod 64 = q"
    "(p * 4096 + q * 64 + r) mod 64 = r" unfolding s3 d using two assms by metis+
  show "(p * 262144 + q * 4096 + r * 64 + t) div 262144 = p" "(p * 262144 + q * 4096 + r * 64 + t) div 4096 mod 64 = q"
    "(p * 262144 + q * 4096 + r * 64 + t) div 64 mod 64 = r" "(p * 262144 + q * 4096 + r * 64 + t) mod 64 = t"
    unfolding s4 d using two assms by metis+
qed

lemma utf8_encode_digits:
  "2 \<le> p \<Longrightarrow> p < 32 \<Longrightarrow> q < 64 \<Longrightarrow> utf8_encode (p * 64 + q) = [0xC0 + p, 0x80 + q]"
  "p < 16 \<Longrightarrow> q < 64 \<Longrightarrow> r < 64 \<Longrightarrow> (p = 0 \<longrightarrow> 32 \<le> q) \<Longrightarrow>
    utf8_encode (p * 4096 + q * 64 + r) = [0xE0 + p, 0x80 + q, 0x80 + r]"
  "p < 5 \<Longrightarrow> q < 64 \<Longrightarrow> r < 64 \<Longrightarrow> t < 64 \<Longrightarrow> (p = 0 \<longrightarrow> 16 \<le> q) \<Longrightarrow>
    utf8_encode (p * 262144 + q * 4096 + r * 64 + t) = [0xF0 + p, 0x80 + q, 0x80 + r, 0x80 + t]"
proof -
  assume a: "2 \<le> p" "p < 32" "q < 64"
  then have "\<not> p * 64 + q < 0x80" "p * 64 + q < 0x800" by linarith+
  with a show "utf8_encode (p * 64 + q) = [0xC0 + p, 0x80 + q]" by (simp add: utf8_encode_def digits64)
next
  assume a: "p < 16" "q < 64" "r < 64" "p = 0 \<longrightarrow> 32 \<le> q"
  let ?n = "p * 4096 + q * 64 + r"
  have "\<not> ?n < 0x800" using a by (cases p) auto
  moreover have "?n < 0x10000" using a by linarith
  ultimately show "utf8_encode ?n = [0xE0 + p, 0x80 + q, 0x80 + r]"
    unfolding utf8_encode_def using digits64(3-5) [of q r r p] a by simp
next
  assume a: "p < 5" "q < 64" "r < 64" "t < 64" "p = 0 \<longrightarrow> 16 \<le> q"
  let ?n = "p * 262144 + q * 4096 + r * 64 + t"
  have "\<not> ?n < 0x10000" using a by (cases p) auto
  then show "utf8_encode ?n = [0xF0 + p, 0x80 + q, 0x80 + r, 0x80 + t]"
    unfolding utf8_encode_def using digits64(6-9) [of q r t p] a by simp
qed


lemma upts: "[0..<2] = [0, 1 :: nat]" "[0..<3] = [0, 1, 2 :: nat]" "[0..<4] = [0, 1, 2, 3 :: nat]"
  by code_simp+

lemma seq_len_encodes:
  assumes "byte_at x 0 \<noteq> 0" "seq_len x \<noteq> 0"
  shows "\<exists>cp. scalar cp \<and> cp \<noteq> 0 \<and> bytes (take (seq_len x) x) = utf8_encode cp"
proof -
  let ?b = "byte_at x"
  have take: "bytes (take (seq_len x) x) = map ?b [0..<seq_len x]" by (rule bytes_take [OF seq_len_le [OF assms(1)]])
  consider (1) "valid_1 x" "seq_len x = 1" | (2) "valid_2 x" "seq_len x = 2" | (3) "valid_3 x" "seq_len x = 3"
    | (4) "valid_4 x" "seq_len x = 4" using assms(2) by (auto simp: seq_len_def split: if_splits)
  then show ?thesis
  proof cases
    case 1
    then show ?thesis using take assms(1) by (intro exI [of _ "?b 0"]) (simp add: valid_ranges scalar_def utf8_encode_def)
  next
    case 2
    define p q where "p = ?b 0 - 0xC0" and "q = ?b 1 - 0x80"
    have pq: "2 \<le> p" "p < 32" "q < 64" "?b 0 = 0xC0 + p" "?b 1 = 0x80 + q"
      using 2(1) by (auto simp: valid_ranges p_def q_def)
    have "bytes (take (seq_len x) x) = utf8_encode (p * 64 + q)"
      unfolding take unfolding 2(2) using utf8_encode_digits(1) [OF pq(1-3)] pq(4,5) by (simp add: upts)
    moreover have "scalar (p * 64 + q)" "p * 64 + q \<noteq> 0" using pq by (simp_all add: scalar_def)
    ultimately show ?thesis by blast
  next
    case 3
    define p q r where "p = ?b 0 - 0xE0" and "q = ?b 1 - 0x80" and "r = ?b 2 - 0x80"
    have pq: "p < 16" "q < 64" "r < 64" "p = 0 \<longrightarrow> 32 \<le> q" "p = 13 \<longrightarrow> q < 32"
      "?b 0 = 0xE0 + p" "?b 1 = 0x80 + q" "?b 2 = 0x80 + r"
      using 3(1) by (auto simp: valid_ranges p_def q_def r_def)
    have "bytes (take (seq_len x) x) = utf8_encode (p * 4096 + q * 64 + r)"
      unfolding take unfolding 3(2) using utf8_encode_digits(2) [OF pq(1-4)] pq(6-8) by (simp add: upts)
    moreover have "scalar (p * 4096 + q * 64 + r)"
    proof -
      consider "p \<le> 12" | "p = 13" | "14 \<le> p" by linarith
      then show ?thesis using pq(1-5) by cases (simp_all add: scalar_def)
    qed
    moreover have "p * 4096 + q * 64 + r \<noteq> 0" using pq(4) by (cases p) simp_all
    ultimately show ?thesis by blast
  next
    case 4
    define p q r t where "p = ?b 0 - 0xF0" and "q = ?b 1 - 0x80" and "r = ?b 2 - 0x80" and "t = ?b 3 - 0x80"
    have pq: "p < 5" "q < 64" "r < 64" "t < 64" "p = 0 \<longrightarrow> 16 \<le> q" "p = 4 \<longrightarrow> q < 16"
      "?b 0 = 0xF0 + p" "?b 1 = 0x80 + q" "?b 2 = 0x80 + r" "?b 3 = 0x80 + t"
      using 4(1) by (auto simp: valid_ranges p_def q_def r_def t_def)
    have "bytes (take (seq_len x) x) = utf8_encode (p * 262144 + q * 4096 + r * 64 + t)"
      unfolding take unfolding 4(2) using utf8_encode_digits(3) [OF pq(1-5)] pq(7-10)
      by (simp add: upts)
    moreover have "scalar (p * 262144 + q * 4096 + r * 64 + t)"
    proof -
      consider "p = 0" | "1 \<le> p" "p \<le> 3" | "p = 4" using pq(1) by linarith
      then show ?thesis using pq(1-6) by cases (simp_all add: scalar_def)
    qed
    moreover have "p * 262144 + q * 4096 + r * 64 + t \<noteq> 0" using pq(5) by (cases p) simp_all
    ultimately show ?thesis by blast
  qed
qed


lemma byte_at_bytes: "byte_at x i = (if i < length (bytes x) then bytes x ! i else 0)"
  by (simp add: byte_at_def bytes_def)

lemma digits64_sum:
  fixes n :: nat
  shows "n = n div 64 * 64 + n mod 64" "n = n div 4096 * 4096 + n div 64 mod 64 * 64 + n mod 64"
    "n = n div 262144 * 262144 + n div 4096 mod 64 * 4096 + n div 64 mod 64 * 64 + n mod 64"
proof -
  have d: "n div 4096 = n div 64 div 64" "n div 262144 = n div 64 div 64 div 64"
    by (simp_all add: div_mult2_eq [symmetric])
  have s: "m = m div 64 * 64 + m mod 64" for m :: nat by simp
  show "n = n div 64 * 64 + n mod 64" by (rule s)
  show "n = n div 4096 * 4096 + n div 64 mod 64 * 64 + n mod 64"
    unfolding d using s [of n] s [of "n div 64"] by linarith
  show "n = n div 262144 * 262144 + n div 4096 mod 64 * 4096 + n div 64 mod 64 * 64 + n mod 64"
    unfolding d using s [of n] s [of "n div 64"] s [of "n div 64 div 64"] by linarith
qed

lemma seq_len_of_encode:
  assumes "bytes x = utf8_encode cp @ rest" "scalar cp" "cp \<noteq> 0"
  shows "seq_len x = length (utf8_encode cp)" "byte_at x 0 \<noteq> 0"
proof -
  consider (1) "cp < 0x80" | (2) "0x80 \<le> cp" "cp < 0x800" | (3) "0x800 \<le> cp" "cp < 0x10000" | (4) "0x10000 \<le> cp"
    by linarith
  then have "seq_len x = length (utf8_encode cp) \<and> byte_at x 0 \<noteq> 0"
  proof cases
    case 1
    then show ?thesis using assms by (simp add: byte_at_bytes seq_len_def valid_ranges utf8_encode_def)
  next
    case 2
    define p q where "p = cp div 64" and "q = cp mod 64"
    have e: "utf8_encode cp = [0xC0 + p, 0x80 + q]" using 2 by (simp add: utf8_encode_def p_def q_def)
    have "q < 64" "cp = p * 64 + q" by (simp_all add: p_def q_def)
    then have "2 \<le> p" "p < 32" "q < 64" using 2 by linarith+
    then show ?thesis unfolding e using assms(1) [unfolded e] by (simp add: byte_at_bytes seq_len_def valid_ranges)
  next
    case 3
    define p q r where "p = cp div 4096" and "q = cp div 64 mod 64" and "r = cp mod 64"
    have e: "utf8_encode cp = [0xE0 + p, 0x80 + q, 0x80 + r]" using 3 by (simp add: utf8_encode_def p_def q_def r_def)
    have c: "q < 64" "r < 64" "cp = p * 4096 + q * 64 + r"
      using digits64_sum(2) [of cp] by (simp_all add: p_def q_def r_def)
    then have "p < 16" "p = 0 \<longrightarrow> 32 \<le> q" "p = 13 \<longrightarrow> q < 32"
      using 3 assms(2) unfolding scalar_def by auto
    then show ?thesis unfolding e using assms(1) [unfolded e] c(1,2) by (simp add: byte_at_bytes seq_len_def valid_ranges)
  next
    case 4
    define p q r t where "p = cp div 262144" and "q = cp div 4096 mod 64" and "r = cp div 64 mod 64" and "t = cp mod 64"
    have e: "utf8_encode cp = [0xF0 + p, 0x80 + q, 0x80 + r, 0x80 + t]"
      using 4 by (simp add: utf8_encode_def p_def q_def r_def t_def)
    have c: "q < 64" "r < 64" "t < 64" "cp = p * 262144 + q * 4096 + r * 64 + t"
      using digits64_sum(3) [of cp] by (simp_all add: p_def q_def r_def t_def)
    then have "p \<le> 4" "p = 0 \<longrightarrow> 16 \<le> q" "p = 4 \<longrightarrow> q < 16"
      using 4 assms(2) unfolding scalar_def by auto
    then show ?thesis unfolding e using assms(1) [unfolded e] c(1-3)
      by (simp add: byte_at_bytes seq_len_def valid_ranges)
  qed
  then show "seq_len x = length (utf8_encode cp)" "byte_at x 0 \<noteq> 0" by simp_all
qed

text \<open>The strings that are UTF-8, by the standard.\<close>

definition is_utf8 :: "string \<Rightarrow> bool" where
  "is_utf8 x \<longleftrightarrow> (\<exists>cps. list_all (\<lambda>cp. scalar cp \<and> cp \<noteq> 0) cps \<and> bytes x = concat (map utf8_encode cps))"

lemma bytes_append [simp]: "bytes (x @ y) = bytes x @ bytes y"
  by (simp add: bytes_def)

lemma bytes_drop: "bytes (drop n x) = drop n (bytes x)"
  by (simp add: bytes_def drop_map)

lemma length_bytes [simp]: "length (bytes x) = length x"
  by (simp add: bytes_def)

lemma c_string_drop: "c_string x \<Longrightarrow> c_string (drop n x)"
  by (auto simp: c_string_def dest: in_set_dropD)

lemma of_char_zero: "(of_char c :: nat) = 0 \<longleftrightarrow> c = CHR 0x00"
  using of_char_eq_iff [of c "CHR 0x00", where 'a = nat] by simp

lemma c_string_end:
  assumes "c_string x"
  shows "byte_at x 0 = 0 \<longleftrightarrow> x = []"
proof (cases x)
  case Nil
  then show ?thesis by (simp add: byte_at_def)
next
  case (Cons c cs)
  with assms have "c \<noteq> CHR 0x00" by (auto simp: c_string_def)
  then have "(of_char c :: nat) \<noteq> 0" unfolding of_char_zero .
  then show ?thesis by (simp add: Cons byte_at_def)
qed

lemma drop_is_utf8:
  assumes "is_utf8 x" "x \<noteq> []"
  shows "byte_at x 0 \<noteq> 0" "seq_len x \<noteq> 0" "is_utf8 (drop (seq_len x) x)"
proof -
  from assms obtain cp cps where cps: "list_all (\<lambda>cp. scalar cp \<and> cp \<noteq> 0) (cp # cps)"
    "bytes x = utf8_encode cp @ concat (map utf8_encode cps)"
  proof -
    from assms(1) obtain l where l: "list_all (\<lambda>cp. scalar cp \<and> cp \<noteq> 0) l" "bytes x = concat (map utf8_encode l)"
      by (auto simp: is_utf8_def)
    with assms(2) have "l \<noteq> []" by (auto simp: bytes_def)
    with l that show ?thesis by (cases l) auto
  qed
  note s = seq_len_of_encode [OF cps(2)]
  from cps(1) s show "byte_at x 0 \<noteq> 0" "seq_len x \<noteq> 0" by (simp_all add: utf8_encode_def)
  show "is_utf8 (drop (seq_len x) x)"
    unfolding is_utf8_def using cps s by (intro exI [of _ cps]) (simp add: bytes_drop)
qed

lemma is_utf8_cons:
  assumes "byte_at x 0 \<noteq> 0" "seq_len x \<noteq> 0" "is_utf8 (drop (seq_len x) x)"
  shows "is_utf8 x"
proof -
  from seq_len_encodes [OF assms(1,2)] obtain cp where cp: "scalar cp" "cp \<noteq> 0" "bytes (take (seq_len x) x) = utf8_encode cp" by blast
  from assms(3) obtain cps where "list_all (\<lambda>cp. scalar cp \<and> cp \<noteq> 0) cps" "bytes (drop (seq_len x) x) = concat (map utf8_encode cps)"
    by (auto simp: is_utf8_def)
  moreover have "bytes x = bytes (take (seq_len x) x) @ bytes (drop (seq_len x) x)"
    by (simp flip: bytes_append)
  ultimately show ?thesis unfolding is_utf8_def using cp by (intro exI [of _ "cp # cps"]) simp
qed

lemma is_utf8_Nil [simp]: "is_utf8 []"
  by (auto simp: is_utf8_def bytes_def intro: exI [of _ "[]"])

lemma w_utf8_drop_is_utf8:
  assumes "c_string x"
  shows "w_utf8_drop x = [] \<longleftrightarrow> is_utf8 x"
  using assms
proof (induction x rule: length_induct)
  case (1 x)
  show ?case
  proof (cases "x = []")
    case True
    then show ?thesis by (subst w_utf8_drop_step) (simp add: byte_at_def)
  next
    case False
    then have b: "byte_at x 0 \<noteq> 0" using 1(2) by (simp add: c_string_end)
    show ?thesis
    proof (cases "seq_len x = 0")
      case True
      then show ?thesis using False drop_is_utf8(2) [of x] by (subst w_utf8_drop_step) auto
    next
      case s: False
      have "w_utf8_drop (drop (seq_len x) x) = [] \<longleftrightarrow> is_utf8 (drop (seq_len x) x)"
        using 1 False s c_string_drop [OF 1(2)] by auto
      then show ?thesis using b s False is_utf8_cons [OF b s] drop_is_utf8(3) [of x]
        by (subst w_utf8_drop_step) auto
    qed
  qed
qed


subsection \<open>The filter\<close>

text \<open>What the filter returns, without its buffer.\<close>

function clean :: "bool \<Rightarrow> string \<Rightarrow> string" where
  "clean r x =
     (if x = [] then []
      else if seq_len x = 0 then (if r then replacement_char else []) @ clean r (drop 1 x)
      else take (seq_len x) x @ clean r (drop (seq_len x) x))"
  by pat_completeness auto
termination
  by (relation "measure (\<lambda>(r, x). length x)") auto

declare clean.simps [simp del]

lemma clean_Nil [simp]: "clean r [] = []"
  by (simp add: clean.simps)

lemma is_utf8_append: "is_utf8 x \<Longrightarrow> is_utf8 y \<Longrightarrow> is_utf8 (x @ y)"
  unfolding is_utf8_def by (metis (no_types, lifting) bytes_append concat_append list_all_append map_append)

lemma is_utf8_seq:
  assumes "byte_at x 0 \<noteq> 0" "seq_len x \<noteq> 0"
  shows "is_utf8 (take (seq_len x) x)"
proof -
  from seq_len_encodes [OF assms] obtain cp where "scalar cp" "cp \<noteq> 0" "bytes (take (seq_len x) x) = utf8_encode cp"
    by blast
  then show ?thesis unfolding is_utf8_def by (intro exI [of _ "[cp]"]) simp
qed

lemma is_utf8_replacement: "is_utf8 replacement_char"
  unfolding is_utf8_def
  by (intro exI [of _ "[0xFFFD]"]) (simp add: replacement_char_def bytes_def utf8_encode_def scalar_def)

lemma clean_is_utf8: "c_string x \<Longrightarrow> is_utf8 (clean r x)"
proof (induction r x rule: clean.induct)
  case (1 r x)
  show ?case
  proof (cases "x = []")
    case False
    then have b: "byte_at x 0 \<noteq> 0" using 1(3) by (simp add: c_string_end)
    show ?thesis
    proof (cases "seq_len x = 0")
      case True
      then show ?thesis using 1(1) [OF False True] c_string_drop [OF 1(3)] False
        by (subst clean.simps) (simp add: is_utf8_append is_utf8_replacement)
    next
      case s: False
      then show ?thesis using 1(2) [OF False s] c_string_drop [OF 1(3)] False is_utf8_seq [OF b s]
        by (subst clean.simps) (simp add: is_utf8_append)
    qed
  qed simp
qed

lemma clean_valid: "c_string x \<Longrightarrow> is_utf8 x \<Longrightarrow> clean r x = x"
proof (induction r x rule: clean.induct)
  case (1 r x)
  show ?case
  proof (cases "x = []")
    case False
    note d = drop_is_utf8 [OF 1(4) False]
    from 1(2) [OF False d(2) c_string_drop [OF 1(3)] d(3)] show ?thesis
      using False d(2) by (subst clean.simps) simp
  qed simp
qed

lemma w_utf8_drop_suffix: "suffix (w_utf8_drop x) x"
proof (induction x rule: w_utf8_drop.induct)
  case (1 x)
  then show ?case by (subst w_utf8_drop.simps) (auto intro: suffix_order.trans [OF _ suffix_drop])
qed

lemma c_strlen_string: "c_string x \<Longrightarrow> c_strlen x = length x"
proof -
  assume "c_string x"
  then have "takeWhile (\<lambda>c. c \<noteq> CHR 0x00) x = x" unfolding takeWhile_eq_all_conv by (auto simp: c_string_def)
  then show ?thesis unfolding c_strlen_def by (rule arg_cong)
qed

lemma clean_drop: "c_string x \<Longrightarrow> clean r x = take (length x - length (w_utf8_drop x)) x @ clean r (w_utf8_drop x)"
proof (induction x rule: length_induct)
  case (1 x)
  show ?case
  proof (cases "x = [] \<or> seq_len x = 0")
    case True
    then have "w_utf8_drop x = x" by (subst w_utf8_drop_step) (auto simp: byte_at_def)
    then show ?thesis by simp
  next
    case False
    then have b: "byte_at x 0 \<noteq> 0" and n: "seq_len x \<le> length x" "seq_len x \<noteq> 0" "x \<noteq> []"
      using c_string_end [OF 1(2)] seq_len_le by auto
    let ?y = "drop (seq_len x) x"
    have d: "w_utf8_drop x = w_utf8_drop ?y" using b n by (subst w_utf8_drop_step) simp
    have le: "length (w_utf8_drop ?y) \<le> length ?y" by (rule suffix_length_le [OF w_utf8_drop_suffix])
    have "clean r ?y = take (length ?y - length (w_utf8_drop ?y)) ?y @ clean r (w_utf8_drop ?y)"
      using 1 n c_string_drop [OF 1(2)] by simp
    moreover have "clean r x = take (seq_len x) x @ clean r ?y" using n by (subst clean.simps) simp
    moreover have "take (seq_len x) x @ take (length ?y - length (w_utf8_drop ?y)) ?y =
        take (length x - length (w_utf8_drop ?y)) x"
      using n le by (simp add: take_add [symmetric])
    ultimately show ?thesis using d by simp
  qed
qed

text \<open>The writes stay inside the buffer: what is left to copy, the spare bytes and the final zero fit.\<close>

lemma filter_loop_clean:
  "c_string x \<Longrightarrow> length (copy b) + length x + 1 + repl \<le> buf_size b \<Longrightarrow>
   filter_loop r x repl b = Ok (copy b @ clean r x)"
proof (induction x arbitrary: repl b rule: length_induct)
  case (1 x)
  show ?case
  proof (cases "x = []")
    case True
    then show ?thesis using 1(3) by (subst filter_loop.simps) (simp add: byte_at_def put_bytes_def)
  next
    case False
    then have b0: "byte_at x 0 \<noteq> 0" using c_string_end [OF 1(2)] by simp
    note n = seq_len_le [OF b0]
    have IH: "filter_loop r (drop k x) p b' = Ok (copy b' @ clean r (drop k x))"
      if "0 < k" "length (copy b') + length (drop k x) + 1 + p \<le> buf_size b'" for k p b'
      using 1(1) that False c_string_drop [OF 1(2)] by auto
    have step: "filter_loop r x repl b =
        (if seq_len x > 0 then
           (case put_bytes (take (seq_len x) x) b of
              Ok b' \<Rightarrow> filter_loop r (drop (seq_len x) x) repl b' | Throw e \<Rightarrow> Throw e | Terminate \<Rightarrow> Terminate)
         else if r then
           (let (repl', b1) = grow repl b in
            case put_bytes replacement_char b1 of
              Ok b' \<Rightarrow> filter_loop r (drop 1 x) (repl' - 3) b' | Throw e \<Rightarrow> Throw e | Terminate \<Rightarrow> Terminate)
         else filter_loop r (drop 1 x) repl b)"
      unfolding filter_loop.simps [of r x repl b] seq_len_def [of x, symmetric] Let_def using b0 by simp
    have len: "0 < length x" using False by simp
    show ?thesis
    proof (cases "seq_len x = 0")
      case s: False
      then show ?thesis using step n 1(3) False IH [of "seq_len x"] by (subst clean.simps) (simp add: put_bytes_def)
    next
      case s: True
      have rc: "length replacement_char = 3" by (simp add: replacement_char_def)
      show ?thesis
      proof (cases r)
        case True
        with s step rc 1(3) False len IH [of 1] show ?thesis
          by (subst clean.simps) (simp add: put_bytes_def grow_def REPLACEMENT_INC_def)
      next
        case r: False
        with s step 1(3) False len IH [of 1] show ?thesis by (subst clean.simps) simp
      qed
    qed
  qed
qed

lemma w_utf8_filter_clean:
  assumes "c_string x"
  shows "w_utf8_filter x r = Ok (clean r x)"
proof -
  let ?v = "w_utf8_drop x"
  have len: "c_strlen x = length x" using assms by (simp add: c_strlen_string)
  have cv: "c_string ?v" and le: "length ?v \<le> length x"
    using assms set_mono_suffix [OF w_utf8_drop_suffix [of x]] suffix_length_le [OF w_utf8_drop_suffix [of x]]
    by (auto simp: c_string_def)
  show ?thesis
  proof (cases "byte_at ?v 0 = 0")
    case True
    then have "?v = []" using c_string_end [OF cv] by simp
    then have "is_utf8 x" using w_utf8_drop_is_utf8 [OF assms] by simp
    with True show ?thesis using clean_valid [OF assms] by (simp add: w_utf8_filter_def len)
  next
    case False
    then show ?thesis
      using filter_loop_clean [OF cv, of "\<lparr>copy = take (length x - length ?v) x, buf_size = length x + 1\<rparr>" 0 r] le
        clean_drop [OF assms, of r] by (simp add: w_utf8_filter_def len Let_def)
  qed
qed


subsection \<open>Properties\<close>

lemma w_utf8_valid_is_utf8: "c_string x \<Longrightarrow> w_utf8_valid x \<longleftrightarrow> is_utf8 x"
proof -
  assume x: "c_string x"
  have "c_string (w_utf8_drop x)" using x set_mono_suffix [OF w_utf8_drop_suffix [of x]] by (auto simp: c_string_def)
  from c_string_end [OF this] w_utf8_drop_is_utf8 [OF x] show ?thesis by (auto simp: w_utf8_valid_def)
qed

text \<open>
  C23: \<^verbatim>\<open>w_utf8_valid\<close> accepts exactly UTF-8. A C string passes the byte tests just when it is the
  concatenation of the standard's encodings of Unicode scalar values: no overlong form, no surrogate
  half, nothing above U+10FFFF is accepted, and nothing else is refused.
\<close>

theorem w_utf8_valid_iff:
  assumes "c_string x"
  shows "w_utf8_valid x \<longleftrightarrow>
    (\<exists>cps. list_all (\<lambda>cp. scalar cp \<and> cp \<noteq> 0) cps \<and> map of_char x = concat (map utf8_encode cps))"
  using w_utf8_valid_is_utf8 [OF assms] by (simp add: is_utf8_def bytes_def)

definition euro_a :: string where
  "euro_a = [CHR 0xE2, CHR 0x82, CHR 0xAC, CHR 0x61]"

lemma euro_a_ok: "c_string euro_a" "map of_char euro_a = concat (map utf8_encode [0x20AC, 0x61])"
  by (simp_all add: euro_a_def c_string_def utf8_encode_def)

theorem w_utf8_valid_iff_witness: "c_string euro_a \<and> w_utf8_valid euro_a"
proof -
  have "list_all (\<lambda>cp. scalar cp \<and> cp \<noteq> 0) [0x20AC, 0x61]" by (simp add: scalar_def)
  with w_utf8_valid_iff [OF euro_a_ok(1)] euro_a_ok show ?thesis by blast
qed

text \<open>
  C24: \<^verbatim>\<open>w_utf8_filter\<close> is memory safe and total: on every C string it returns, no write leaves the
  buffer, with the growing in steps of 4096 bytes, and the result is UTF-8; a string that is UTF-8
  comes back as it is.
\<close>

theorem w_utf8_filter_safe:
  assumes "c_string x"
  shows "\<exists>y. w_utf8_filter x r = Ok y \<and> is_utf8 y \<and> (is_utf8 x \<longrightarrow> y = x)"
  using w_utf8_filter_clean [OF assms] clean_is_utf8 [OF assms] clean_valid [OF assms] by blast

theorem w_utf8_filter_safe_witness:
  "\<exists>y. w_utf8_filter (euro_a @ [CHR 0xC0]) True = Ok y \<and> is_utf8 y"
proof -
  have "c_string (euro_a @ [CHR 0xC0])" using euro_a_ok(1) by (simp add: c_string_def)
  from w_utf8_filter_safe [OF this, of True] show ?thesis by blast
qed

end
