(* ===== verification/String_Helper.thy ===== *)
theory String_Helper
  imports Utf8_Op
begin

section \<open>String helpers\<close>

text \<open>
  \<^verbatim>\<open>src/src/common/stringHelper/src/stringHelper.cpp\<close>: every function. Characters are bytes, in the
  \<^verbatim>\<open>C\<close> locale. The loop of \<^verbatim>\<open>replaceAll\<close> may run forever, so it is a partial function. The lemmas show
  when it ends and what it leaves, that the conversion from ISO 8859-1 gives UTF-8, what trimming and
  splitting return, and that hexadecimal text reads back.
\<close>

subsection \<open>Replacing\<close>

definition iso_byte :: "char \<Rightarrow> string" where
  "iso_byte it =
     (let ch = (of_char it :: nat) in
      if ch < 0x80 then [char_of ch]
      else [char_of (0xC0 OR drop_bit 6 ch), char_of (0x80 OR (ch AND 0x3F))])"

definition ISO8859ToUTF8 :: "string \<Rightarrow> string" where
  "ISO8859ToUTF8 data = concat (map iso_byte data)"

definition replace_at :: "string \<Rightarrow> nat \<Rightarrow> nat \<Rightarrow> string \<Rightarrow> string" where
  "replace_at data pos n toReplace = take pos data @ toReplace @ drop (pos + n) data"

definition replace_step :: "string \<Rightarrow> string \<Rightarrow> string \<Rightarrow> nat \<Rightarrow> string \<times> nat option" where
  "replace_step toSearch toReplace data p =
     (let data' = replace_at data p (length toSearch) toReplace in (data', find_from toSearch data' p))"

partial_function (option) replace_loop :: "string \<Rightarrow> string \<Rightarrow> string \<times> nat option \<Rightarrow> string option" where
  "replace_loop toSearch toReplace s =
     (if snd s = None then Some (fst s)
      else replace_loop toSearch toReplace (replace_step toSearch toReplace (fst s) (the (snd s))))"

definition replaceAll :: "string \<Rightarrow> string \<Rightarrow> string \<Rightarrow> (bool \<times> string) option" where
  "replaceAll data toSearch toReplace =
     (let pos = find_str toSearch data in
      map_option (Pair (pos \<noteq> None)) (replace_loop toSearch toReplace (data, pos)))"

definition replaceFirst :: "string \<Rightarrow> string \<Rightarrow> string \<Rightarrow> bool \<times> string" where
  "replaceFirst data toSearch toReplace =
     (case find_str toSearch data of
        None \<Rightarrow> (False, data)
      | Some p \<Rightarrow> (True, replace_at data p (length toSearch) toReplace))"

subsection \<open>Trimming and splitting\<close>

definition LeftTrim :: "string \<Rightarrow> string \<Rightarrow> string" where
  "LeftTrim str args = dropWhile (\<lambda>c. c \<in> set args) str"

definition RightTrim :: "string \<Rightarrow> string \<Rightarrow> string" where
  "RightTrim str args = rev (dropWhile (\<lambda>c. c \<in> set args) (rev str))"

definition Trim :: "string \<Rightarrow> string \<Rightarrow> string" where
  "Trim str args = LeftTrim (RightTrim str args) args"

text \<open>\<^verbatim>\<open>while (std::getline(stream, token, delimiter))\<close>: a delimiter at the end gives no token.\<close>

function split :: "string \<Rightarrow> char \<Rightarrow> string list" where
  "split str delimiter =
     (if str = [] then []
      else takeWhile (\<lambda>c. c \<noteq> delimiter) str # split (drop 1 (dropWhile (\<lambda>c. c \<noteq> delimiter) str)) delimiter)"
  by pat_completeness auto
termination
proof (relation "measure (\<lambda>(s, d). length s)", goal_cases)
  case (2 str d)
  then show ?case using length_dropWhile_le [of "\<lambda>c. c \<noteq> d" str] by (cases str) (auto simp: le_imp_less_Suc)
qed simp

declare split.simps [simp del]

definition splitIndex :: "string \<Rightarrow> char \<Rightarrow> nat \<Rightarrow> string result" where
  "splitIndex str delimiter index =
     (let splitResult = split str delimiter in
      if index < length splitResult then Ok (splitResult ! index)
      else Throw ''Invalid index to get values.'')"

text \<open>
  The buffer as its bytes; each entry ends with a zero and an empty entry ends the list. A read past
  the end of the buffer is undefined.
\<close>

function splitNullTerminatedStrings :: "string \<Rightarrow> string list result" where
  "splitNullTerminatedStrings buffer =
     (case buffer of
        [] \<Rightarrow> Terminate
      | c # _ \<Rightarrow>
          if c = CHR 0x00 then Ok []
          else if CHR 0x00 \<notin> set buffer then Terminate
          else
            let token = takeWhile (\<lambda>c. c \<noteq> CHR 0x00) buffer
            in map_result ((#) token) (splitNullTerminatedStrings (drop (length token + 1) buffer)))"
  by pat_completeness auto
termination
  by (relation "measure length") auto

declare splitNullTerminatedStrings.simps [simp del]

text \<open>\<open>insert\<close> keeps the value of a key that is there.\<close>

definition map_insert :: "string \<Rightarrow> string \<Rightarrow> (string \<rightharpoonup> string) \<Rightarrow> (string \<rightharpoonup> string)" where
  "map_insert k v m = (if m k = None then m(k \<mapsto> v) else m)"

definition blanks :: string where
  "blanks = [CHR '' '', CHR 0x22, CHR 0x09]"

definition add_line :: "char \<Rightarrow> string \<Rightarrow> (string \<rightharpoonup> string) \<Rightarrow> (string \<rightharpoonup> string)" where
  "add_line delimiter line m =
     (if delimiter \<notin> set line then m
      else map_insert (Trim (takeWhile (\<lambda>c. c \<noteq> delimiter) line) blanks)
             (Trim (drop 1 (dropWhile (\<lambda>c. c \<noteq> delimiter) line)) blanks) m)"

definition splitMapKeyValue :: "string \<Rightarrow> char \<Rightarrow> (string \<rightharpoonup> string)" where
  "splitMapKeyValue str delimiter = fold (add_line delimiter) (split str (CHR 0x0A)) Map.empty"

text \<open>
  The position of the first character of \<open>findText\<close> at or after \<open>from\<close>; the loop skips two characters at
  an escape character.
\<close>

definition find_first_of :: "string \<Rightarrow> string \<Rightarrow> nat \<Rightarrow> nat option" where
  "find_first_of findText str from =
     (let rest = dropWhile (\<lambda>c. c \<notin> set findText) (drop from str)
      in if rest = [] then None else Some (length str - length rest))"

lemma find_first_of_range:
  assumes "find_first_of t s from = Some i"
  shows "from \<le> i" "i < length s"
proof -
  let ?r = "dropWhile (\<lambda>c. c \<notin> set t) (drop from s)"
  have r: "?r \<noteq> []" "i = length s - length ?r"
    using assms by (auto simp: find_first_of_def Let_def split: if_splits)
  have "length ?r \<le> length s - from" using length_dropWhile_le [of "\<lambda>c. c \<notin> set t" "drop from s"] by simp
  moreover have "0 < length ?r" using r(1) by (rule length_greater_0_conv [THEN iffD2])
  ultimately show "from \<le> i" "i < length s" using r(2) by linarith+
qed

function split_kv :: "char \<Rightarrow> char \<Rightarrow> string \<Rightarrow> nat \<Rightarrow> string \<times> string" where
  "split_kv delimiter escapeChar str from =
     (case find_first_of [escapeChar, delimiter] str from of
        None \<Rightarrow> (str, [])
      | Some found \<Rightarrow>
          if str ! found = delimiter then (take found str, drop (found + 1) str)
          else split_kv delimiter escapeChar str (found + 2))"
  by pat_completeness auto
termination
proof (relation "measure (\<lambda>(d, e, s, f). length s - f)", goal_cases)
  case (2 d e s f found)
  then show ?case using find_first_of_range [OF 2(1)] by simp
qed simp

definition splitKeyValueNonEscapedDelimiter :: "string \<Rightarrow> char \<Rightarrow> char \<Rightarrow> string \<times> string" where
  "splitKeyValueNonEscapedDelimiter str delimiter escapeChar = split_kv delimiter escapeChar str 0"

definition substrOnFirstOccurrence :: "string \<Rightarrow> string \<Rightarrow> string" where
  "substrOnFirstOccurrence str args = (case find_str args str of Some pos \<Rightarrow> take pos str | None \<Rightarrow> str)"


declare split_kv.simps [simp del]

subsection \<open>Cases and tests\<close>

definition hex_digit :: "nat \<Rightarrow> char" where
  "hex_digit d = (if d < 10 then char_of (48 + d) else char_of (87 + d))"

definition asciiToHex :: "string \<Rightarrow> string" where
  "asciiToHex asciiData =
     concat (map (\<lambda>val. [hex_digit (of_char val div 16), hex_digit (of_char val mod 16)]) asciiData)"

definition islower :: "char \<Rightarrow> bool" where
  "islower c \<longleftrightarrow> (97::nat) \<le> of_char c \<and> (of_char c :: nat) \<le> 122"

definition isupper :: "char \<Rightarrow> bool" where
  "isupper c \<longleftrightarrow> (65::nat) \<le> of_char c \<and> (of_char c :: nat) \<le> 90"

definition toupper :: "char \<Rightarrow> char" where
  "toupper c = (if islower c then char_of ((of_char c :: nat) - 32) else c)"

definition toUpperCase :: "string \<Rightarrow> string" where
  "toUpperCase str = map toupper str"

definition toLowerCase :: "string \<Rightarrow> string" where
  "toLowerCase str = map tolower str"

definition haveUpperCaseCharacters :: "string \<Rightarrow> bool" where
  "haveUpperCaseCharacters str = list_ex isupper str"

definition toSentenceCase :: "string \<Rightarrow> string" where
  "toSentenceCase str = (if str = [] then [] else toupper (hd str) # tl (toLowerCase str))"

definition startsWith :: "string \<Rightarrow> string \<Rightarrow> bool" where
  "startsWith str start = (if str \<noteq> [] \<and> length start \<le> length str then take (length start) str = start else False)"

definition endsWith :: "string \<Rightarrow> string \<Rightarrow> bool" where
  "endsWith str ending =
     (if str \<noteq> [] \<and> length ending \<le> length str then drop (length str - length ending) str = ending else False)"

text \<open>The regular expression is a function: the groups of its first match, the whole match first.\<close>

definition FindRegexInString ::
  "(string \<Rightarrow> string list option) \<Rightarrow> string \<Rightarrow> string \<Rightarrow> nat \<Rightarrow> string \<Rightarrow> bool \<times> string" where
  "FindRegexInString regex_search str m matchIndex start =
     (if start = [] \<or> startsWith str start then
        (case regex_search str of
           None \<Rightarrow> (False, m)
         | Some sm \<Rightarrow>
             (True, if length sm \<ge> matchIndex then (if matchIndex < length sm then sm ! matchIndex else []) else m))
      else (False, m))"

definition isalnum :: "char \<Rightarrow> bool" where
  "isalnum c \<longleftrightarrow> isdigit c \<or> islower c \<or> isupper c"

definition isAlphaNumericWithSpecialCharacters :: "string \<Rightarrow> string \<Rightarrow> bool" where
  "isAlphaNumericWithSpecialCharacters str specialCharacters =
     (if str \<noteq> [] then list_all (\<lambda>c. isalnum c \<or> c \<in> set specialCharacters) str else False)"

definition isNumber :: "string \<Rightarrow> bool" where
  "isNumber str \<longleftrightarrow> str \<noteq> [] \<and> dropWhile isdigit str = []"

definition parseStrToBool :: "string \<Rightarrow> bool result" where
  "parseStrToBool str =
     (if str = ''yes'' then Ok True else if str = ''no'' then Ok False else Throw ''Invalid input.'')"

text \<open>
  \<^verbatim>\<open>std::stol\<close>: the value and the number of characters it read. \<open>Throw ''stol''\<close> stands for
  \<^verbatim>\<open>std::invalid_argument\<close>, \<open>Throw ''out_of_range''\<close> for \<^verbatim>\<open>std::out_of_range\<close>; \<^verbatim>\<open>long\<close> has 64 bits.
\<close>

definition stol :: "string \<Rightarrow> (int \<times> nat) result" where
  "stol str =
     (let (negative, s) = split_sign (dropWhile isspace str);
          ds = takeWhile isdigit s;
          v = (if negative then - int (val_dec ds) else int (val_dec ds))
      in if ds = [] then Throw ''stol''
         else if v < - (2 ^ 63) \<or> 2 ^ 63 \<le> v then Throw ''out_of_range''
         else Ok (v, length str - length s + length ds))"

definition W_WEEK_SECONDS :: int where "W_WEEK_SECONDS = 604800"
definition W_DAY_SECONDS :: int where "W_DAY_SECONDS = 86400"
definition W_HOUR_SECONDS :: int where "W_HOUR_SECONDS = 3600"
definition W_MINUTE_SECONDS :: int where "W_MINUTE_SECONDS = 60"

text \<open>A product that is no \<^verbatim>\<open>long\<close> is undefined.\<close>

definition times_long :: "int \<Rightarrow> int \<Rightarrow> int result" where
  "times_long a b = (if - (2 ^ 63) \<le> a * b \<and> a * b < 2 ^ 63 then Ok (a * b) else Terminate)"

definition parseStrToTime :: "string \<Rightarrow> int result" where
  "parseStrToTime str =
     (case stol str of
        Throw e \<Rightarrow> if e = ''stol'' then Ok (- 1) else Throw e
      | Terminate \<Rightarrow> Terminate
      | Ok (seconds, pos) \<Rightarrow>
          if seconds < 0 then Ok (- 1)
          else if isNumber str then Ok seconds
          else if length str \<le> pos then Throw ''out_of_range''
          else
            let c = str ! pos in
            if c = CHR 0x00 then Ok seconds
            else if c = CHR ''w'' then times_long seconds W_WEEK_SECONDS
            else if c = CHR ''d'' then times_long seconds W_DAY_SECONDS
            else if c = CHR ''h'' then times_long seconds W_HOUR_SECONDS
            else if c = CHR ''m'' then times_long seconds W_MINUTE_SECONDS
            else if c = CHR ''s'' then Ok seconds
            else Ok (- 1))"

definition padString :: "string \<Rightarrow> char \<Rightarrow> int \<Rightarrow> string" where
  "padString str padCharacter minSize = replicate (nat (minSize - int (length str))) padCharacter @ str"


subsection \<open>Facts\<close>

lemma and_0x3F: "n AND 0x3F = n mod 64" for n :: nat
proof -
  have m: "(0x3F :: nat) = mask 6" by (simp add: mask_eq_exp_minus_1)
  show ?thesis unfolding m take_bit_eq_mask [symmetric] by (simp add: take_bit_eq_mod)
qed

lemma or_0x80:
  fixes m :: nat
  assumes "m < 64"
  shows "0x80 OR m = 0x80 + m"
proof -
  have m: "m = take_bit 6 m" using assms by (simp add: take_bit_nat_eq_self)
  have "2 ^ 7 AND take_bit 6 m = 0"
  proof (rule bit_eqI)
    show "bit (2 ^ 7 AND take_bit 6 m) n = bit 0 n" for n
      unfolding bit_and_iff bit_take_bit_iff bit_exp_iff by auto
  qed
  then have "0x80 AND m = 0" using m by simp
  then show ?thesis by (simp add: disjunctive_add_eq_or)
qed

lemma iso_byte_encode: "map of_char (iso_byte c) = utf8_encode (of_char c)"
proof (cases "(of_char c :: nat) < 0x80")
  case True
  then show ?thesis by (simp add: iso_byte_def utf8_encode_def)
next
  case False
  let ?n = "of_char c :: nat"
  have "?n < 256" by simp
  with False less_mult_imp_div_less [of ?n 4 64] have "2 \<le> ?n div 64" "?n div 64 < 4" by auto
  then have "?n div 64 = 2 \<or> ?n div 64 = 3" by linarith
  then have hi: "0xC0 OR drop_bit 6 ?n = 0xC0 + ?n div 64" "?n div 64 < 4" by (auto simp: drop_bit_eq_div)
  moreover have "0x80 OR (?n AND 0x3F) = 0x80 + ?n mod 64" by (simp add: and_0x3F or_0x80)
  moreover have "?n < 0x800" using nat_of_char_less_256 [of c] by linarith
  ultimately show ?thesis using False by (simp add: iso_byte_def utf8_encode_def Let_def)
qed

lemma ISO8859ToUTF8_bytes: "map of_char (ISO8859ToUTF8 s) = concat (map (\<lambda>c. utf8_encode (of_char c)) s)"
  by (simp add: ISO8859ToUTF8_def map_concat o_def iso_byte_encode)

lemma find_from_bound:
  assumes "find_from p s i = Some j"
  shows "i \<le> j" "j + length p \<le> length s"
  using assms find_str_bound [of p "drop i s"] by (auto simp: find_from_def split: if_splits)

lemma length_replace_at: "p + n \<le> length d \<Longrightarrow> length (replace_at d p n r) = length d - n + length r"
  by (simp add: replace_at_def)

lemma replace_loop_ends:
  assumes "length r < length s"
  shows "(case pos of None \<Rightarrow> True | Some p \<Rightarrow> p + length s \<le> length d) \<Longrightarrow> \<exists>y. replace_loop s r (d, pos) = Some y"
proof (induction d arbitrary: pos rule: length_induct)
  case (1 d)
  show ?case
  proof (cases pos)
    case None
    then show ?thesis by (subst replace_loop.simps) simp
  next
    case (Some p)
    let ?d = "replace_at d p (length s) r"
    have "length ?d < length d" using 1(2) Some assms by (simp add: length_replace_at)
    moreover have "case find_from s ?d p of None \<Rightarrow> True | Some q \<Rightarrow> q + length s \<le> length ?d"
      by (cases "find_from s ?d p") (auto dest: find_from_bound(2))
    ultimately have "\<exists>y. replace_loop s r (?d, find_from s ?d p) = Some y" using 1(1) by blast
    then show ?thesis using Some by (subst replace_loop.simps) (simp add: replace_step_def Let_def)
  qed
qed

lemma find_str_prefix: "prefix p s \<Longrightarrow> find_str p s = Some 0"
  by (cases s) auto

lemma replace_loop_runs_on:
  assumes "prefix s r" "p \<le> length d"
  shows "replace_loop s r (d, Some p) = None"
proof (rule ccontr)
  assume "replace_loop s r (d, Some p) \<noteq> None"
  then obtain y where y: "replace_loop s r (d, Some p) = Some y" by blast
  define P where "P = (\<lambda>(s' :: string) (r' :: string) (st :: string \<times> nat option) (y :: string).
    s' = s \<longrightarrow> r' = r \<longrightarrow> (\<forall>p. snd st = Some p \<longrightarrow> length (fst st) < p))"
  have "P s r (d, Some p) y"
  proof (rule replace_loop.raw_induct [of P, OF _ y])
    show "P s' r' st y'"
      if IH: "\<And>a b x y. f a b x = Some y \<Longrightarrow> P a b x y"
        and eq: "(if snd st = None then Some (fst st) else f s' r' (replace_step s' r' (fst st) (the (snd st)))) = Some y'"
      for f s' r' st y'
    proof (unfold P_def, intro impI allI, rule ccontr)
      fix q assume s: "s' = s" "r' = r" "snd st = Some q" and le: "\<not> length (fst st) < q"
      let ?d = "replace_at (fst st) q (length s) r"
      have "prefix s (drop q ?d)" using le assms(1) by (simp add: replace_at_def)
      then have "find_from s ?d q = Some q" using le by (simp add: find_from_def find_str_prefix replace_at_def)
      then have "replace_step s' r' (fst st) (the (snd st)) = (?d, Some q)" using s by (simp add: replace_step_def Let_def)
      with eq s have "f s r (?d, Some q) = Some y'" by simp
      from IH [OF this] show False using le by (simp add: P_def replace_at_def)
    qed
  qed
  then show False using assms(2) by (auto simp: P_def)
qed

text \<open>The decomposition that trimming gives.\<close>

lemma Trim_decomposes:
  "\<exists>l r. str = l @ Trim str args @ r \<and> set l \<subseteq> set args \<and> set r \<subseteq> set args \<and>
     (Trim str args \<noteq> [] \<longrightarrow> hd (Trim str args) \<notin> set args \<and> last (Trim str args) \<notin> set args)"
proof -
  let ?p = "\<lambda>c. c \<in> set args"
  let ?R = "RightTrim str args"
  have R: "str = ?R @ rev (takeWhile ?p (rev str))"
    unfolding RightTrim_def by (metis rev_append rev_rev_ident takeWhile_dropWhile_id)
  have L: "?R = takeWhile ?p ?R @ Trim str args"
    unfolding Trim_def LeftTrim_def by simp
  have "hd (Trim str args) \<notin> set args" if "Trim str args \<noteq> []"
    using that hd_dropWhile [of ?p ?R] by (simp add: Trim_def LeftTrim_def)
  moreover have "last (Trim str args) \<notin> set args" if ne: "Trim str args \<noteq> []"
  proof -
    have "?R \<noteq> []" using L ne by auto
    then have "last ?R \<notin> set args" using hd_dropWhile [of ?p "rev str"] by (simp add: RightTrim_def last_rev)
    moreover have "last ?R = last (Trim str args)" by (subst L) (simp add: ne)
    ultimately show ?thesis by simp
  qed
  moreover have "str = takeWhile ?p ?R @ Trim str args @ rev (takeWhile ?p (rev str))"
    using R L by (metis append.assoc)
  moreover have "set (takeWhile ?p ?R) \<subseteq> set args" "set (rev (takeWhile ?p (rev str))) \<subseteq> set args"
    by (auto dest: set_takeWhileD)
  ultimately show ?thesis by blast
qed


lemma ISO8859ToUTF8_is_utf8: "c_string s \<Longrightarrow> is_utf8 (ISO8859ToUTF8 s)"
proof -
  assume s: "c_string s"
  have "scalar (of_char c) \<and> (of_char c :: nat) \<noteq> 0" if "c \<in> set s" for c
  proof -
    have "(of_char c :: nat) < 0xD800" using nat_of_char_less_256 [of c] by linarith
    then show ?thesis using that s of_char_zero [of c] unfolding scalar_def c_string_def by auto
  qed
  then show ?thesis unfolding is_utf8_def bytes_def ISO8859ToUTF8_bytes
    by (intro exI [of _ "map of_char s"]) (simp add: list_all_iff o_def)
qed

text \<open>Where the search text ends up: the first occurrence from a position on, and none left.\<close>

lemma find_from_Some:
  assumes "find_from p d i = Some j" "\<forall>k<i. \<not> prefix p (drop k d)"
  shows "prefix p (drop j d)" "\<forall>k<j. \<not> prefix p (drop k d)"
proof -
  from assms(1) obtain m where m: "find_str p (drop i d) = Some m" "j = i + m" "i \<le> length d"
    by (auto simp: find_from_def split: if_splits)
  from find_str_at [OF m(1)] m(2) show "prefix p (drop j d)" by (simp add: add.commute)
  show "\<forall>k<j. \<not> prefix p (drop k d)"
  proof (intro allI impI)
    fix k assume "k < j"
    show "\<not> prefix p (drop k d)"
    proof (cases "k < i")
      case True
      then show ?thesis using assms(2) by blast
    next
      case False
      then obtain n where n: "k = i + n" "n < m" using \<open>k < j\<close> m(2) by (metis add_diff_inverse_nat nat_add_left_cancel_less)
      from find_str_first [OF m(1) n(2)] n(1) show ?thesis by (simp add: add.commute)
    qed
  qed
qed

lemma find_from_None:
  assumes "find_from p d i = None" "\<forall>k<i. \<not> prefix p (drop k d)" "i \<le> length d"
  shows "\<not> prefix p (drop k d)"
proof (cases "k < i")
  case False
  then obtain n where n: "k = i + n" by (metis add_diff_inverse_nat)
  have "find_str p (drop i d) = None" using assms(1,3) by (simp add: find_from_def)
  from find_str_None [OF this, of n] n show ?thesis by (simp add: add.commute)
qed (use assms(2) in blast)


lemma sublist_drop: "sublist p d \<longleftrightarrow> (\<exists>i. prefix p (drop i d))"
proof
  assume "sublist p d"
  then obtain a b where "d = a @ p @ b" by (auto simp: sublist_def)
  then have "prefix p (drop (length a) d)" by simp
  then show "\<exists>i. prefix p (drop i d)" ..
next
  assume "\<exists>i. prefix p (drop i d)"
  then obtain i b where "drop i d = p @ b" by (auto simp: prefix_def)
  then have "d = take i d @ p @ b" by (metis append_take_drop_id)
  then show "sublist p d" by (metis sublist_appendI)
qed

lemma find_str_sublist: "find_str p d \<noteq> None \<longleftrightarrow> sublist p d"
  using find_str_at [of p d] find_str_None [of p d] by (auto simp: sublist_drop)

text \<open>When the replacement is the search text without its last character, no occurrence can
  begin before the place where the search goes on.\<close>

lemma replace_at_keeps_clear:
  assumes s: "s \<noteq> []" "prefix s (drop p d)" and none: "\<forall>k<p. \<not> prefix s (drop k d)"
  shows "\<forall>k<p. \<not> prefix s (drop k (replace_at d p (length s) (butlast s)))"
proof (intro allI impI notI)
  fix k assume k: "k < p" and pre: "prefix s (drop k (replace_at d p (length s) (butlast s)))"
  let ?d = "replace_at d p (length s) (butlast s)"
  from s(2) obtain b where b: "drop p d = s @ b" by (auto simp: prefix_def)
  have p: "p < length d" using b s(1) by (metis append_Nil2 append_is_Nil_conv drop_all not_le_imp_less)
  have d: "d = take p d @ butlast s @ [last s] @ b"
    using b s(1) by (metis append.assoc append_butlast_last_id append_take_drop_id)
  have "take (length s) (drop k ?d) = take (length s) (drop k d)"
  proof -
    let ?c = "take p d @ butlast s"
    have len: "length s \<le> length ?c - k" using k p s(1) by simp
    have "?d = ?c @ drop (p + length s) d" by (simp add: replace_at_def)
    moreover have "d = ?c @ [last s] @ b" using d by simp
    moreover have "take (length s) (drop k (?c @ x)) = take (length s) (drop k ?c)" for x using len k p by simp
    ultimately show ?thesis by metis
  qed
  with pre have "prefix s (drop k d)" by (metis append_eq_conv_conj prefix_def take_is_prefix)
  with none k show False by blast
qed

lemma replace_loop_clears:
  assumes "s \<noteq> []" "replace_loop s (butlast s) (d, pos) = Some y"
    "case pos of None \<Rightarrow> \<not> sublist s d | Some p \<Rightarrow> prefix s (drop p d) \<and> (\<forall>k<p. \<not> prefix s (drop k d))"
  shows "\<not> sublist s y"
  using assms(2,3)
proof (induction d arbitrary: pos rule: length_induct)
  case (1 d)
  show ?case
  proof (cases pos)
    case None
    then show ?thesis using 1(2,3) by (subst (asm) replace_loop.simps) simp
  next
    case (Some p)
    let ?d = "replace_at d p (length s) (butlast s)"
    have p: "prefix s (drop p d)" "\<forall>k<p. \<not> prefix s (drop k d)" using 1(3) Some by auto
    have "length s \<le> length d - p" using p(1) prefix_length_le by fastforce
    then have len: "p + length s \<le> length d" using assms(1) by (cases s) auto
    have less: "length ?d < length d" using len assms(1) by (cases s) (auto simp: length_replace_at)
    have le: "p \<le> length ?d" using len by (simp add: replace_at_def)
    note clear = replace_at_keeps_clear [OF assms(1) p]
    have "case find_from s ?d p of None \<Rightarrow> \<not> sublist s ?d
        | Some q \<Rightarrow> prefix s (drop q ?d) \<and> (\<forall>k<q. \<not> prefix s (drop k ?d))"
      using find_from_None [OF _ clear le] find_from_Some [OF _ clear]
      by (auto simp: sublist_drop split: option.splits)
    moreover have "replace_loop s (butlast s) (?d, find_from s ?d p) = Some y"
      using 1(2) Some by (subst (asm) replace_loop.simps) (simp add: replace_step_def Let_def)
    ultimately show ?thesis using 1(1) less by blast
  qed
qed

lemma replaceAll_returns:
  assumes "length r < length s"
  shows "\<exists>d'. replaceAll d s r = Some (sublist s d, d')"
proof -
  have "case find_str s d of None \<Rightarrow> True | Some p \<Rightarrow> p + length s \<le> length d"
    by (auto split: option.splits dest: find_str_bound)
  from replace_loop_ends [OF assms this] show ?thesis
    using find_str_sublist [of s d] by (auto simp: replaceAll_def Let_def)
qed

text \<open>C25: \<^verbatim>\<open>replaceAll\<close> returns, and says whether the text was found, whenever the replacement is shorter than
  the text searched for; it never returns when the text occurs and the replacement begins with it;
  and collapsing a run (the replacement is the search text less its last character, as with two
  blanks for one) leaves no occurrence behind.\<close>

theorem replaceAll_termination:
  "(length r < length s \<longrightarrow> (\<exists>d'. replaceAll d s r = Some (sublist s d, d'))) \<and>
   (prefix s r \<and> sublist s d \<longrightarrow> replaceAll d s r = None) \<and>
   (s \<noteq> [] \<longrightarrow> (\<exists>d'. replaceAll d s (butlast s) = Some (sublist s d, d') \<and> \<not> sublist s d'))"
proof (intro conjI impI)
  show "\<exists>d'. replaceAll d s r = Some (sublist s d, d')" if "length r < length s"
    using replaceAll_returns [OF that] .
next
  assume "prefix s r \<and> sublist s d"
  then obtain p where p: "find_str s d = Some p" and r: "prefix s r" using find_str_sublist [of s d] by blast
  show "replaceAll d s r = None"
    using replace_loop_runs_on [OF r, of p d] find_str_bound [OF p] p by (simp add: replaceAll_def)
next
  assume s: "s \<noteq> []"
  then have "length (butlast s) < length s" by simp
  from replaceAll_returns [OF this] obtain d' where d': "replaceAll d s (butlast s) = Some (sublist s d, d')" by blast
  have "case find_str s d of None \<Rightarrow> \<not> sublist s d | Some p \<Rightarrow> prefix s (drop p d) \<and> (\<forall>k<p. \<not> prefix s (drop k d))"
    using find_str_sublist [of s d] find_str_at find_str_first by (auto split: option.splits)
  moreover have "replace_loop s (butlast s) (d, find_str s d) = Some d'" using d' by (auto simp: replaceAll_def Let_def)
  ultimately have "\<not> sublist s d'" using replace_loop_clears [OF s] by blast
  with d' show "\<exists>d'. replaceAll d s (butlast s) = Some (sublist s d, d') \<and> \<not> sublist s d'" by blast
qed

theorem replaceAll_termination_witness:
  "replaceAll ''a/b'' ''/'' ''//'' = None \<and> (\<exists>d'. replaceAll ''a   b'' ''  '' '' '' = Some (True, d') \<and> \<not> sublist ''  '' d')"
proof -
  have "sublist ''/'' ''a/b''" "sublist ''  '' ''a   b''" by code_simp+
  then show ?thesis
    using replaceAll_termination [of "''//''" "''/''" "''a/b''"] replaceAll_termination [of "'' ''" "''  ''" "''a   b''"]
    by auto
qed

lemma ISO8859ToUTF8_c_string:
  assumes "c_string s"
  shows "c_string (ISO8859ToUTF8 s)"
proof -
  have nz: "0 \<notin> set (utf8_encode n)" if "n \<noteq> 0" "n < 256" for n using that by (auto simp: utf8_encode_def)
  have "0 \<notin> set (utf8_encode (of_char c))" if "c \<in> set s" for c
  proof (rule nz [OF _ nat_of_char_less_256])
    show "(of_char c :: nat) \<noteq> 0" unfolding of_char_zero using that assms by (auto simp: c_string_def)
  qed
  then have "(of_char (CHR 0x00) :: nat) \<notin> set (map of_char (ISO8859ToUTF8 s))" unfolding ISO8859ToUTF8_bytes by simp
  then show ?thesis unfolding c_string_def by (metis image_eqI list.set_map)
qed

text \<open>The conversion of ISO 8859-1 text gives exactly the UTF-8 encoding of its characters, so a
  text of non-null bytes becomes text the validator accepts, and text that is already plain ASCII is unchanged.\<close>

theorem ISO8859ToUTF8_encodes:
  "bytes (ISO8859ToUTF8 s) = concat (map (utf8_encode \<circ> of_char) s) \<and>
   (CHR 0x00 \<notin> set s \<longrightarrow> w_utf8_valid (ISO8859ToUTF8 s)) \<and>
   ((\<forall>c \<in> set s. (of_char c :: nat) < 128) \<longrightarrow> ISO8859ToUTF8 s = s)"
proof (intro conjI impI)
  show "bytes (ISO8859ToUTF8 s) = concat (map (utf8_encode \<circ> of_char) s)" by (simp add: bytes_def ISO8859ToUTF8_bytes o_def)
next
  assume "CHR 0x00 \<notin> set s"
  then have s: "c_string s" by (simp add: c_string_def)
  from w_utf8_valid_is_utf8 [OF ISO8859ToUTF8_c_string [OF s]] ISO8859ToUTF8_is_utf8 [OF s]
  show "w_utf8_valid (ISO8859ToUTF8 s)" ..
next
  assume "\<forall>c \<in> set s. (of_char c :: nat) < 128"
  then show "ISO8859ToUTF8 s = s" by (induction s) (auto simp: ISO8859ToUTF8_def iso_byte_def)
qed

theorem ISO8859ToUTF8_encodes_witness:
  "w_utf8_valid (ISO8859ToUTF8 [CHR 0x61, CHR 0xE9]) \<and> bytes (ISO8859ToUTF8 [CHR 0x61, CHR 0xE9]) = [0x61, 0xC3, 0xA9]
   \<and> ISO8859ToUTF8 ''abc'' = ''abc''"
  using ISO8859ToUTF8_encodes [of "[CHR 0x61, CHR 0xE9]"] ISO8859ToUTF8_encodes [of "''abc''"]
  by (simp add: utf8_encode_def)


text \<open>Splitting undoes joining, and hexadecimal text reads back.\<close>

lemma takeWhile_stops: "d \<notin> set t \<Longrightarrow> takeWhile (\<lambda>c. c \<noteq> d) (t @ d # r) = t"
  by (induction t) auto

lemma dropWhile_stops: "d \<notin> set t \<Longrightarrow> dropWhile (\<lambda>c. c \<noteq> d) (t @ d # r) = d # r"
  by (induction t) auto

lemma split_join:
  "concat (map (\<lambda>t. t @ [d]) (split s d)) = (if s = [] \<or> last s = d then s else s @ [d]) \<and> (\<forall>t \<in> set (split s d). d \<notin> set t)"
proof (induction s d rule: split.induct)
  case (1 s d)
  show ?case
  proof (cases "s = []")
    case True
    then show ?thesis by (simp add: split.simps)
  next
    case False
    let ?t = "takeWhile (\<lambda>c. c \<noteq> d) s" and ?r = "drop 1 (dropWhile (\<lambda>c. c \<noteq> d) s)"
    have eq: "split s d = ?t # split ?r d" using False by (simp add: split.simps [of s])
    have t: "d \<notin> set ?t" by (auto dest: set_takeWhileD)
    show ?thesis
    proof (cases "d \<in> set s")
      case True
      then obtain t r where s: "s = t @ d # r" "d \<notin> set t" using split_list_first by metis
      have tr: "?t = t" "?r = r" using s by (simp_all add: takeWhile_stops dropWhile_stops)
      note IH = 1 [OF False, unfolded tr] and eq = eq [unfolded tr]
      show ?thesis unfolding eq using IH s(2) by (cases "r = []") (simp_all add: s(1) split.simps [of "[]"])
    next
      case False
      then have t: "?t = s" by (auto simp: takeWhile_eq_all_conv)
      then have "dropWhile (\<lambda>c. c \<noteq> d) s = []" by (metis append_self_conv takeWhile_dropWhile_id)
      then have r: "?r = []" by (metis drop_Nil)
      show ?thesis unfolding eq t r using \<open>s \<noteq> []\<close> False by (auto simp: split.simps [of "[]"] dest: last_in_set)
    qed
  qed
qed

lemma splitNullTerminatedStrings_join:
  assumes "\<forall>t \<in> set ts. t \<noteq> [] \<and> CHR 0x00 \<notin> set t"
  shows "splitNullTerminatedStrings (concat (map (\<lambda>t. t @ [CHR 0x00]) ts) @ CHR 0x00 # rest) = Ok ts"
  using assms
proof (induction ts)
  case Nil
  then show ?case by (simp add: splitNullTerminatedStrings.simps)
next
  case (Cons t ts)
  let ?b = "concat (map (\<lambda>t. t @ [CHR 0x00]) (t # ts)) @ CHR 0x00 # rest"
  have t: "t \<noteq> []" "CHR 0x00 \<notin> set t" using Cons.prems by auto
  have tw: "takeWhile (\<lambda>c. c \<noteq> CHR 0x00) ?b = t" using t(2) by (simp add: takeWhile_stops)
  obtain c u where c: "t = c # u" "c \<noteq> CHR 0x00" using t by (cases t) auto
  have "splitNullTerminatedStrings ?b = map_result ((#) t) (splitNullTerminatedStrings (drop (length t + 1) ?b))"
    using c tw by (subst splitNullTerminatedStrings.simps) (simp add: Let_def)
  also have "drop (length t + 1) ?b = concat (map (\<lambda>t. t @ [CHR 0x00]) ts) @ CHR 0x00 # rest" by simp
  finally show ?case using Cons by simp
qed

definition hex_val :: "char \<Rightarrow> nat" where
  "hex_val c = (let n = of_char c in if n < 58 then n - 48 else n - 87)"

fun hexToAscii :: "string \<Rightarrow> string" where
  "hexToAscii (a # b # s) = char_of (16 * hex_val a + hex_val b) # hexToAscii s"
| "hexToAscii _ = []"

lemma hex_val_digit: "d < 16 \<Longrightarrow> hex_val (hex_digit d) = d"
  by (auto simp: hex_val_def hex_digit_def Let_def)

lemma hexToAscii_asciiToHex: "hexToAscii (asciiToHex s) = s"
proof (induction s)
  case (Cons c s)
  have "(of_char c :: nat) < 16 * 16" using nat_of_char_less_256 [of c] by linarith
  then have "(of_char c :: nat) div 16 < 16" by (rule less_mult_imp_div_less)
  then show ?case using Cons by (simp add: asciiToHex_def hex_val_digit)
qed (simp add: asciiToHex_def)

text \<open>
  C26: what the splitters and the hexadecimal writer keep of their input. Each token of \<^verbatim>\<open>split\<close> is free of the
  delimiter and the tokens, each followed by the delimiter, are the text with a last delimiter added
  where it has none: all that \<^verbatim>\<open>split\<close> loses is whether the text ended with a delimiter. A list of non-empty
  strings, each ended by a zero byte, is read back from a buffer that has one more zero byte after it;
  what follows that byte is not read. The hexadecimal text determines the bytes it was written from.
\<close>

theorem splitting_reads_back:
  "concat (map (\<lambda>t. t @ [d]) (split s d)) = (if s = [] \<or> last s = d then s else s @ [d]) \<and>
   (\<forall>t \<in> set (split s d). d \<notin> set t) \<and>
   ((\<forall>t \<in> set ts. t \<noteq> [] \<and> CHR 0x00 \<notin> set t) \<longrightarrow>
     splitNullTerminatedStrings (concat (map (\<lambda>t. t @ [CHR 0x00]) ts) @ CHR 0x00 # rest) = Ok ts) \<and>
   (asciiToHex s = asciiToHex s' \<longrightarrow> s = s')"
proof (intro conjI impI)
  show "s = s'" if "asciiToHex s = asciiToHex s'" using arg_cong [OF that, of hexToAscii] by (simp only: hexToAscii_asciiToHex)
qed (use split_join [of d s] splitNullTerminatedStrings_join [of ts rest] in blast)+

theorem splitting_reads_back_witness:
  "splitNullTerminatedStrings (''ab'' @ [CHR 0x00] @ ''c'' @ [CHR 0x00, CHR 0x00, CHR ''z'']) = Ok [''ab'', ''c''] \<and>
   concat (map (\<lambda>t. t @ [CHR '','']) (split ''a,b'' (CHR '',''))) = ''a,b,''"
  using splitting_reads_back [of "CHR '',''" "''a,b''" "[''ab'', ''c'']" "''z''" "''a,b''"] by simp

end
