(* ===== verification/Agent_Info.thy ===== *)
theory Agent_Info
  imports Command_Store String_Helper
begin

section \<open>The identity of the agent\<close>

text \<open>
  \<^verbatim>\<open>src/src/agent/agent_info/src/agent_info.cpp\<close> and \<^verbatim>\<open>agent_info_persistence.cpp\<close>: name, key, identifier and groups of the
  agent, in memory and in two tables over the persistence interface. The operating system and network
  information, the random numbers and JSON printing are parameters. The lemmas use the contract of
  the interface: replacing the groups is all or nothing, and what is saved is what the next start
  loads.
\<close>

subsection \<open>The tables\<close>

definition AGENT_INFO_DB_NAME :: string where "AGENT_INFO_DB_NAME = ''agent_info.db''"
definition AGENT_INFO_TABLE_NAME :: string where "AGENT_INFO_TABLE_NAME = ''agent_info''"
definition AGENT_INFO_NAME_COLUMN_NAME :: string where "AGENT_INFO_NAME_COLUMN_NAME = ''name''"
definition AGENT_INFO_KEY_COLUMN_NAME :: string where "AGENT_INFO_KEY_COLUMN_NAME = ''key''"
definition AGENT_INFO_UUID_COLUMN_NAME :: string where "AGENT_INFO_UUID_COLUMN_NAME = ''uuid''"
definition AGENT_GROUP_TABLE_NAME :: string where "AGENT_GROUP_TABLE_NAME = ''agent_group''"
definition AGENT_GROUP_ID_COLUMN_NAME :: string where "AGENT_GROUP_ID_COLUMN_NAME = ''id''"
definition AGENT_GROUP_NAME_COLUMN_NAME :: string where "AGENT_GROUP_NAME_COLUMN_NAME = ''name''"

lemmas agent_info_names =
  AGENT_INFO_TABLE_NAME_def AGENT_INFO_NAME_COLUMN_NAME_def AGENT_INFO_KEY_COLUMN_NAME_def AGENT_INFO_UUID_COLUMN_NAME_def
  AGENT_GROUP_TABLE_NAME_def AGENT_GROUP_ID_COLUMN_NAME_def AGENT_GROUP_NAME_COLUMN_NAME_def

definition agent_info_keys :: Keys where
  "agent_info_keys =
     [col_key AGENT_INFO_NAME_COLUMN_NAME TEXT NOT_NULL,
      col_key AGENT_INFO_KEY_COLUMN_NAME TEXT NOT_NULL,
      col_key AGENT_INFO_UUID_COLUMN_NAME TEXT (NOT_NULL + PRIMARY_KEY)]"

definition agent_group_keys :: Keys where
  "agent_group_keys =
     [col_key AGENT_GROUP_ID_COLUMN_NAME INTEGER (NOT_NULL + PRIMARY_KEY + AUTO_INCREMENT),
      col_key AGENT_GROUP_NAME_COLUMN_NAME TEXT NOT_NULL]"

text \<open>One call after another; an exception ends the sequence.\<close>

definition and_do :: "unit result \<times> 'db \<Rightarrow> ('db \<Rightarrow> unit result \<times> 'db) \<Rightarrow> unit result \<times> 'db" where
  "and_do r f = (case r of (Ok _, db) \<Rightarrow> f db | other \<Rightarrow> other)"

definition AgentInfoIsEmpty :: "'db persistence \<Rightarrow> 'db \<Rightarrow> bool result" where
  "AgentInfoIsEmpty P db =
     (case GetCount P AGENT_INFO_TABLE_NAME [] LogicalOperator.AND db of Ok n \<Rightarrow> Ok (n = 0) | Throw _ \<Rightarrow> Ok False | Terminate \<Rightarrow> Terminate)"

definition CreateAgentInfoTable :: "'db persistence \<Rightarrow> 'db \<Rightarrow> unit result \<times> 'db" where
  "CreateAgentInfoTable P = CreateTable P AGENT_INFO_TABLE_NAME agent_info_keys"

definition CreateAgentGroupTable :: "'db persistence \<Rightarrow> 'db \<Rightarrow> unit result \<times> 'db" where
  "CreateAgentGroupTable P = CreateTable P AGENT_GROUP_TABLE_NAME agent_group_keys"

definition default_row :: Row where
  "default_row =
     [col_value AGENT_INFO_NAME_COLUMN_NAME TEXT [], col_value AGENT_INFO_KEY_COLUMN_NAME TEXT [],
      col_value AGENT_INFO_UUID_COLUMN_NAME TEXT []]"

definition InsertDefaultAgentInfo :: "'db persistence \<Rightarrow> 'db \<Rightarrow> unit result \<times> 'db" where
  "InsertDefaultAgentInfo P db =
     (case GetCount P AGENT_INFO_TABLE_NAME [] LogicalOperator.AND db of
        Ok n \<Rightarrow> if n = 0 then Insert P AGENT_INFO_TABLE_NAME default_row db else (Ok (), db)
      | Throw e \<Rightarrow> (Throw e, db)
      | Terminate \<Rightarrow> (Terminate, db))"

definition AgentInfoPersistence_init :: "string \<Rightarrow> 'db persistence option \<Rightarrow> 'db \<Rightarrow> 'db persistence result \<times> 'db" where
  "AgentInfoPersistence_init dbFolderPath opened db =
     (let failed = Throw (''Cannot open database: '' @ dbFolderPath @ ''/'' @ AGENT_INFO_DB_NAME) in
      case opened of
        None \<Rightarrow> (failed, db)
      | Some P \<Rightarrow>
          (case and_do
              (and_do (if TableExists P AGENT_INFO_TABLE_NAME db then (Ok (), db) else CreateAgentInfoTable P db)
                 (\<lambda>db. if TableExists P AGENT_GROUP_TABLE_NAME db then (Ok (), db) else CreateAgentGroupTable P db))
              (\<lambda>db. case AgentInfoIsEmpty P db of
                      Ok True \<Rightarrow> InsertDefaultAgentInfo P db
                    | Ok False \<Rightarrow> (Ok (), db)
                    | Throw e \<Rightarrow> (Throw e, db)
                    | Terminate \<Rightarrow> (Terminate, db)) of
             (Ok _, db') \<Rightarrow> (Ok P, db')
           | (Throw _, db') \<Rightarrow> (failed, db')
           | (Terminate, db') \<Rightarrow> (Terminate, db')))"

definition SetAgentInfoValue :: "'db persistence \<Rightarrow> string \<Rightarrow> string \<Rightarrow> 'db \<Rightarrow> bool result \<times> 'db" where
  "SetAgentInfoValue P column v db = success_of (Update P AGENT_INFO_TABLE_NAME [col_value column TEXT v] [] LogicalOperator.AND db)"

definition GetAgentInfoValue :: "'db persistence \<Rightarrow> string \<Rightarrow> 'db \<Rightarrow> string result" where
  "GetAgentInfoValue P column db =
     (case Select P AGENT_INFO_TABLE_NAME [col_name column TEXT] [] LogicalOperator.AND [] ASC 0 db of
        Ok results \<Rightarrow> Ok (if results \<noteq> [] \<and> results ! 0 \<noteq> [] then Value (results ! 0 ! 0) else [])
      | Throw _ \<Rightarrow> Ok []
      | Terminate \<Rightarrow> Terminate)"

abbreviation Persisted_GetName :: "'db persistence \<Rightarrow> 'db \<Rightarrow> string result" where
  "Persisted_GetName P \<equiv> GetAgentInfoValue P AGENT_INFO_NAME_COLUMN_NAME"

abbreviation Persisted_GetKey :: "'db persistence \<Rightarrow> 'db \<Rightarrow> string result" where
  "Persisted_GetKey P \<equiv> GetAgentInfoValue P AGENT_INFO_KEY_COLUMN_NAME"

abbreviation Persisted_GetUUID :: "'db persistence \<Rightarrow> 'db \<Rightarrow> string result" where
  "Persisted_GetUUID P \<equiv> GetAgentInfoValue P AGENT_INFO_UUID_COLUMN_NAME"

definition Persisted_GetGroups :: "'db persistence \<Rightarrow> 'db \<Rightarrow> string list result" where
  "Persisted_GetGroups P db =
     (case Select P AGENT_GROUP_TABLE_NAME [col_name AGENT_GROUP_NAME_COLUMN_NAME TEXT] [] LogicalOperator.AND [] ASC 0 db of
        Ok results \<Rightarrow> Ok (map (\<lambda>row. Value (row ! 0)) (filter (\<lambda>row. row \<noteq> []) results))
      | Throw _ \<Rightarrow> Ok []
      | Terminate \<Rightarrow> Terminate)"

abbreviation Persisted_SetName :: "'db persistence \<Rightarrow> string \<Rightarrow> 'db \<Rightarrow> bool result \<times> 'db" where
  "Persisted_SetName P \<equiv> SetAgentInfoValue P AGENT_INFO_NAME_COLUMN_NAME"

abbreviation Persisted_SetKey :: "'db persistence \<Rightarrow> string \<Rightarrow> 'db \<Rightarrow> bool result \<times> 'db" where
  "Persisted_SetKey P \<equiv> SetAgentInfoValue P AGENT_INFO_KEY_COLUMN_NAME"

abbreviation Persisted_SetUUID :: "'db persistence \<Rightarrow> string \<Rightarrow> 'db \<Rightarrow> bool result \<times> 'db" where
  "Persisted_SetUUID P \<equiv> SetAgentInfoValue P AGENT_INFO_UUID_COLUMN_NAME"

fun insert_groups :: "'db persistence \<Rightarrow> string list \<Rightarrow> 'db \<Rightarrow> unit result \<times> 'db" where
  "insert_groups P [] db = (Ok (), db)"
| "insert_groups P (g # gs) db =
     and_do (Insert P AGENT_GROUP_TABLE_NAME [col_value AGENT_GROUP_NAME_COLUMN_NAME TEXT g] db) (insert_groups P gs)"

text \<open>The handler of the exception: the result of the rollback is only logged.\<close>

definition rolled_back :: "'db persistence \<Rightarrow> TransactionId \<Rightarrow> 'db \<Rightarrow> bool result \<times> 'db" where
  "rolled_back P transaction db =
     (case RollbackTransaction P transaction db of (Terminate, db') \<Rightarrow> (Terminate, db') | (_, db') \<Rightarrow> (Ok False, db'))"

definition Persisted_SetGroups :: "'db persistence \<Rightarrow> string list \<Rightarrow> 'db \<Rightarrow> bool result \<times> 'db" where
  "Persisted_SetGroups P groupList db =
     (case BeginTransaction P db of
        (Throw _, db1) \<Rightarrow> (Ok False, db1)
      | (Terminate, db1) \<Rightarrow> (Terminate, db1)
      | (Ok transaction, db1) \<Rightarrow>
          (case and_do (and_do (Remove P AGENT_GROUP_TABLE_NAME [] LogicalOperator.AND db1) (insert_groups P groupList))
                  (CommitTransaction P transaction) of
             (Ok _, db2) \<Rightarrow> (Ok True, db2)
           | (Throw _, db2) \<Rightarrow> rolled_back P transaction db2
           | (Terminate, db2) \<Rightarrow> (Terminate, db2)))"

definition ResetToDefault :: "'db persistence \<Rightarrow> 'db \<Rightarrow> bool result \<times> 'db" where
  "ResetToDefault P db =
     success_of
       (and_do (and_do (and_do (and_do (DropTable P AGENT_INFO_TABLE_NAME db)
          (DropTable P AGENT_GROUP_TABLE_NAME)) (CreateAgentInfoTable P)) (CreateAgentGroupTable P)) (InsertDefaultAgentInfo P))"

subsection \<open>The agent's data\<close>

definition KEY_LENGTH :: nat where "KEY_LENGTH = 32"
definition AGENT_TYPE :: string where "AGENT_TYPE = ''Endpoint''"
definition PRODUCT_NAME :: string where "PRODUCT_NAME = ''WazuhXDR''"

record AgentInfo =
  ai_name :: string
  ai_key :: string
  ai_uuid :: string
  ai_groups :: "string list"
  ai_enrolling :: bool
  ai_getOSInfo :: "json option"
  ai_endpointInfo :: json
  ai_headerInfo :: string

text \<open>
  \<open>ai_getOSInfo\<close> is what the function gives, \<open>None\<close> where none was passed.
  \<^verbatim>\<open>j.value(key, default)\<close> is for a string here.
\<close>

fun value_or :: "json \<Rightarrow> string \<Rightarrow> string \<Rightarrow> string result" where
  "value_or (JObj kvs) k d = (case map_of kvs k of None \<Rightarrow> Ok d | Some v \<Rightarrow> get_string v)"
| "value_or _ k d = Throw ''cannot use value()''"

definition charset :: string where
  "charset = ''abcdefghijklmnopqrstuvwxyzABCDEFGHIJKLMNOPQRSTUVWXYZ0123456789''"

text \<open>\<open>draw i\<close> is the \<open>i\<close>-th number of the distribution, below 62.\<close>

definition CreateKey :: "(nat \<Rightarrow> nat) \<Rightarrow> string" where
  "CreateKey draw = map (\<lambda>i. charset ! draw i) [0..<KEY_LENGTH]"

definition ValidateKey :: "string \<Rightarrow> bool" where
  "ValidateKey key \<longleftrightarrow> length key = KEY_LENGTH \<and> list_all isalnum key"

definition SetName :: "string \<Rightarrow> AgentInfo \<Rightarrow> bool result \<times> AgentInfo" where
  "SetName name a =
     (if name \<noteq> [] then (Ok True, a\<lparr>ai_name := name\<rparr>)
      else
        (case ai_getOSInfo a of
           Some osInfo \<Rightarrow>
             (case value_or osInfo ''hostname'' ''Unknown'' of
                Ok n \<Rightarrow> (Ok True, a\<lparr>ai_name := n\<rparr>)
              | Throw e \<Rightarrow> (Throw e, a)
              | Terminate \<Rightarrow> (Terminate, a))
         | None \<Rightarrow> (Ok False, a)))"

definition SetKey :: "(nat \<Rightarrow> nat) \<Rightarrow> string \<Rightarrow> AgentInfo \<Rightarrow> bool \<times> AgentInfo" where
  "SetKey draw key a =
     (if key \<noteq> [] then (if \<not> ValidateKey key then (False, a) else (True, a\<lparr>ai_key := key\<rparr>))
      else (True, a\<lparr>ai_key := CreateKey draw\<rparr>))"

definition SetUUID :: "string \<Rightarrow> AgentInfo \<Rightarrow> AgentInfo" where
  "SetUUID uuid a = a\<lparr>ai_uuid := uuid\<rparr>"

definition SetGroups :: "string list \<Rightarrow> AgentInfo \<Rightarrow> AgentInfo" where
  "SetGroups groupList a = a\<lparr>ai_groups := groupList\<rparr>"

definition address_of :: "json \<Rightarrow> string \<Rightarrow> string list result" where
  "address_of iface family =
     (case json_get iface family of
        None \<Rightarrow> Ok []
      | Some addresses \<Rightarrow>
          if json_empty addresses then Ok []
          else
            (case addresses of
               JArr (a # _) \<Rightarrow> map_result (\<lambda>s. [s]) (value_or a ''address'' [])
             | _ \<Rightarrow> Throw ''cannot use operator[] with a numeric argument''))"

fun active_addresses :: "json list \<Rightarrow> string list result" where
  "active_addresses [] = Ok []"
| "active_addresses (iface # ifaces) =
     (case (if json_get iface ''state'' = Some (JStr ''up'') then
              (case address_of iface ''IPv4'' of
                 Ok v4 \<Rightarrow> map_result (\<lambda>v6. v4 @ v6) (address_of iface ''IPv6'')
               | other \<Rightarrow> other)
            else Ok []) of
        Ok ips \<Rightarrow> map_result (\<lambda>rest. ips @ rest) (active_addresses ifaces)
      | other \<Rightarrow> other)"

definition GetActiveIPAddresses :: "json \<Rightarrow> string list result" where
  "GetActiveIPAddresses networksJson =
     (case json_get networksJson ''iface'' of None \<Rightarrow> Ok [] | Some ifaces \<Rightarrow> active_addresses (json_items ifaces))"

definition obj_of :: "(string \<times> json) list \<Rightarrow> json" where
  "obj_of kvs = JObj (fold (\<lambda>(k, v). obj_put k v) kvs [])"

fun values_or :: "json \<Rightarrow> string list \<Rightarrow> string \<Rightarrow> string list result" where
  "values_or j [] d = Ok []"
| "values_or j (k # ks) d =
     (case value_or j k d of
        Ok v \<Rightarrow> map_result (\<lambda>vs. v # vs) (values_or j ks d)
      | Throw e \<Rightarrow> Throw e
      | Terminate \<Rightarrow> Terminate)"

definition os_fields :: "json \<Rightarrow> (string \<times> json) list result" where
  "os_fields osInfo =
     map_result
       (\<lambda>vs. [(''hostname'', JStr (vs ! 0)), (''architecture'', JStr (vs ! 1)),
              (''os'', obj_of [(''name'', JStr (vs ! 2)), (''type'', JStr (vs ! 3)), (''version'', JStr (vs ! 4))])])
       (values_or osInfo [''hostname'', ''architecture'', ''os_name'', ''sysname'', ''os_version''] ''Unknown'')"

definition LoadEndpointInfo :: "json option \<Rightarrow> json option \<Rightarrow> json result" where
  "LoadEndpointInfo getOSInfo getNetworksInfo =
     (case (case getOSInfo of None \<Rightarrow> Ok [] | Some osInfo \<Rightarrow> os_fields osInfo) of
        Ok fs \<Rightarrow>
          (case (case getNetworksInfo of
                   None \<Rightarrow> Ok []
                 | Some n \<Rightarrow> map_result (\<lambda>ips. [(''ip'', JArr (map JStr ips))]) (GetActiveIPAddresses n)) of
             Ok fs' \<Rightarrow> Ok (if fs @ fs' = [] then JNull else obj_of (fs @ fs'))
           | Throw e \<Rightarrow> Throw e
           | Terminate \<Rightarrow> Terminate)
      | Throw e \<Rightarrow> Throw e
      | Terminate \<Rightarrow> Terminate)"

definition header_text :: "string \<Rightarrow> string \<Rightarrow> string \<Rightarrow> string" where
  "header_text version arch os_type =
     PRODUCT_NAME @ ''/'' @ version @ '' ('' @ AGENT_TYPE @ ''; '' @ arch @ ''; '' @ os_type @ '')''"

definition LoadHeaderInfo :: "string \<Rightarrow> json \<Rightarrow> string result" where
  "LoadHeaderInfo version endpointInfo =
     (case json_get endpointInfo ''os'' of
        Some os \<Rightarrow>
          (case value_or endpointInfo ''architecture'' ''Unknown'' of
             Ok arch \<Rightarrow> map_result (header_text version arch) (value_or os ''type'' ''Unknown'')
           | other \<Rightarrow> other)
      | None \<Rightarrow> Ok (header_text version ''Unknown'' ''Unknown''))"

text \<open>The constructor; \<open>uuid\<close> is the identifier the generator gives.\<close>

definition load_identity :: "'db persistence \<Rightarrow> 'db \<Rightarrow> (string \<times> string \<times> string \<times> string list) result" where
  "load_identity P db =
     (case (Persisted_GetName P db, Persisted_GetKey P db,
            Persisted_GetUUID P db, Persisted_GetGroups P db) of
        (Ok name, Ok key, Ok u, Ok gs) \<Rightarrow> Ok (name, key, u, gs)
      | _ \<Rightarrow> Terminate)"

definition AgentInfo_init ::
  "'db persistence \<Rightarrow> string \<Rightarrow> string \<Rightarrow> json option \<Rightarrow> json option \<Rightarrow> bool \<Rightarrow> 'db \<Rightarrow> AgentInfo result" where
  "AgentInfo_init P version uuid getOSInfo getNetworksInfo enrolling db =
     (case (if enrolling then Ok ([], [], [], []) else load_identity P db) of
        Ok (name, key, u, gs) \<Rightarrow>
          (case LoadEndpointInfo getOSInfo getNetworksInfo of
             Ok endpoint \<Rightarrow>
               map_result (\<lambda>header.
                 \<lparr>ai_name = name, ai_key = key, ai_uuid = (if u = [] then uuid else u), ai_groups = gs, ai_enrolling = enrolling,
                  ai_getOSInfo = getOSInfo, ai_endpointInfo = endpoint, ai_headerInfo = header\<rparr>)
                 (LoadHeaderInfo version endpoint)
           | Throw e \<Rightarrow> Throw e
           | Terminate \<Rightarrow> Terminate)
      | Throw e \<Rightarrow> Throw e
      | Terminate \<Rightarrow> Terminate)"

definition metadata_json :: "string \<Rightarrow> AgentInfo \<Rightarrow> json" where
  "metadata_json version a =
     (let target = obj_of
        ([(''id'', JStr (ai_uuid a)), (''name'', JStr (ai_name a)), (''type'', JStr AGENT_TYPE), (''version'', JStr version)] @
         (if json_empty (ai_endpointInfo a) then [] else [(''host'', ai_endpointInfo a)]) @
         (if ai_enrolling a then [(''key'', JStr (ai_key a))] else [(''groups'', JArr (map JStr (ai_groups a)))]))
      in if ai_enrolling a then target else obj_of [(''agent'', target)])"

definition GetMetadataInfo :: "json_lib \<Rightarrow> string \<Rightarrow> AgentInfo \<Rightarrow> string result" where
  "GetMetadataInfo J version a =
     (case dump J (metadata_json version a) of Some s \<Rightarrow> Ok s | None \<Rightarrow> Throw ''invalid UTF-8 byte'')"

text \<open>The results of the five calls, of which \<^verbatim>\<open>Save\<close> looks at none.\<close>

definition Save :: "'db persistence \<Rightarrow> AgentInfo \<Rightarrow> 'db \<Rightarrow> bool result list \<times> 'db" where
  "Save P a db =
     (let (r1, db1) = ResetToDefault P db;
          (r2, db2) = Persisted_SetName P (ai_name a) db1;
          (r3, db3) = Persisted_SetKey P (ai_key a) db2;
          (r4, db4) = Persisted_SetUUID P (ai_uuid a) db3;
          (r5, db5) = Persisted_SetGroups P (ai_groups a) db4
      in ([r1, r2, r3, r4, r5], db5))"

definition SaveGroups :: "'db persistence \<Rightarrow> AgentInfo \<Rightarrow> 'db \<Rightarrow> bool result \<times> 'db" where
  "SaveGroups P a = Persisted_SetGroups P (ai_groups a)"

subsection \<open>Facts\<close>

lemma and_do_simps [simp]:
  "and_do (Ok u, db) f = f db" "and_do (Throw e, db) f = (Throw e, db)" "and_do (Terminate, db) f = (Terminate, db)"
  by (simp_all add: and_do_def)

lemma and_do_Ok: "and_do r f = (Ok u, db') \<longleftrightarrow> (\<exists>db1. r = (Ok (), db1) \<and> f db1 = (Ok u, db'))"
  by (cases r; cases "fst r") (auto simp: and_do_def)

lemma agent_tables_ident [simp]: "ident AGENT_INFO_TABLE_NAME" "ident AGENT_GROUP_TABLE_NAME"
  by (simp_all add: agent_info_names ident_eval)

lemma agent_tables_differ [simp]:
  "AGENT_INFO_TABLE_NAME \<noteq> AGENT_GROUP_TABLE_NAME" "AGENT_GROUP_TABLE_NAME \<noteq> AGENT_INFO_TABLE_NAME"
  by (simp_all add: agent_info_names)

lemma agent_names_apart [simp]:
  "\<not> same_name AGENT_INFO_TABLE_NAME AGENT_GROUP_TABLE_NAME" "\<not> same_name AGENT_GROUP_TABLE_NAME AGENT_INFO_TABLE_NAME"
  by (simp_all add: agent_info_names same_name_eval)

lemma agent_keys_ok [simp]: "keys_ok agent_info_keys" "keys_ok agent_group_keys"
  by (simp_all add: keys_ok_def key_ok_def agent_info_keys_def agent_group_keys_def col_key_def agent_info_names
      ident_eval attr_defs same_name_def)

definition info_columns :: "string list" where
  "info_columns = [AGENT_INFO_NAME_COLUMN_NAME, AGENT_INFO_KEY_COLUMN_NAME, AGENT_INFO_UUID_COLUMN_NAME]"

lemma info_row_ok: "c \<in> set info_columns \<Longrightarrow> row_ok agent_info_keys [col_value c TEXT v]"
  by (auto simp: info_columns_def row_ok_def col_ok_def agent_info_keys_def col_key_def col_value_def agent_info_names attr_defs)

lemma default_row_ok: "row_ok agent_info_keys default_row"
  by (simp add: default_row_def row_ok_def col_ok_def agent_info_keys_def col_key_def col_value_def agent_info_names attr_defs)

lemma group_row_ok: "row_ok agent_group_keys [col_value AGENT_GROUP_NAME_COLUMN_NAME TEXT g]"
  by (simp add: row_ok_def col_ok_def agent_group_keys_def col_key_def col_value_def agent_info_names attr_defs)

lemma info_field_ok: "c \<in> set info_columns \<Longrightarrow> flds_ok agent_info_keys [col_name c TEXT]"
  by (auto simp: info_columns_def flds_ok_def agent_info_keys_def col_key_def col_name_def agent_info_names attr_defs)

lemma group_field_ok: "flds_ok agent_group_keys [col_name AGENT_GROUP_NAME_COLUMN_NAME TEXT]"
  by (simp add: flds_ok_def agent_group_keys_def col_key_def col_name_def agent_info_names attr_defs)

lemma no_criteria [simp]: "crits_ok ks []" "nul_free []" "row_matches canon op [] r"
  by (simp_all add: crits_ok_def nul_free_def row_matches_def)

text \<open>What the two tables hold.\<close>

definition group_names :: "table \<Rightarrow> string list" where
  "group_names T = map (\<lambda>r. cell_text r AGENT_GROUP_NAME_COLUMN_NAME) (trows T)"

lemma cell_text_new:
  assumes "canon TEXT v = v" "c \<noteq> ''rowid''"
  shows "cell_text (new_row canon i [col_value c TEXT v]) c = v"
  using assms by (simp add: cell_text_def cell_def new_row_def stored_cell_def col_value_def)

lemma cell_text_upd:
  assumes "canon TEXT v = v" "c \<noteq> ''rowid''" "d \<noteq> ''rowid''"
  shows "cell_text (upd_row canon [col_value c TEXT v] r) d = (if d = c then v else cell_text r d)"
  using assms by (simp add: cell_text_def cell_def upd_row_def stored_cell_def col_value_def)

lemma info_columns_not_rowid: "c \<in> set info_columns \<Longrightarrow> c \<noteq> ''rowid''"
  by (auto simp: info_columns_def agent_info_names)

lemma project_one: "project T [col_name c t] r = [\<lparr>Name = c, Type = (case cell r c of None \<Rightarrow> TEXT | Some (t, _) \<Rightarrow> t), Value = cell_text r c\<rparr>]"
  by (simp add: project_def col_name_def)

context persistence_laws
begin

lemma insert_groups_law:
  assumes "inv db" "tables db AGENT_GROUP_TABLE_NAME = Some T" "cols T = agent_group_keys"
    and "insert_groups P gs db = (r, db')"
  shows "inv db' \<and> saved db' = saved db \<and> r \<noteq> Terminate \<and>
    (\<exists>T'. tables db' = (tables db)(AGENT_GROUP_TABLE_NAME \<mapsto> T') \<and> cols T' = agent_group_keys \<and>
      (r = Ok () \<longrightarrow> group_names T' = group_names T @ gs))"
  using assms
proof (induction gs arbitrary: db T)
  case Nil
  then show ?case by (auto intro!: exI [of _ T] simp: fun_upd_idem)
next
  case (Cons g gs)
  let ?fs = "[col_value AGENT_GROUP_NAME_COLUMN_NAME TEXT g]"
  obtain r1 db1 where ins: "Insert P AGENT_GROUP_TABLE_NAME ?fs db = (r1, db1)"
    by fastforce
  have ok: "row_ok (cols T) ?fs"
    using Cons.prems(3) group_row_ok by simp
  note law = Insert_law [OF Cons.prems(1,2) ok ins]
  show ?case
  proof (cases r1)
    case (Ok u)
    obtain i where tab: "tables db1 = (tables db)(AGENT_GROUP_TABLE_NAME \<mapsto> map_trows (\<lambda>rs. rs @ [new_row canon i ?fs]) T)"
      using law Ok by auto
    let ?T = "map_trows (\<lambda>rs. rs @ [new_row canon i ?fs]) T"
    have names: "group_names ?T = group_names T @ [g]"
      by (simp add: group_names_def cell_text_new canon_text agent_info_names)
    have rest: "insert_groups P gs db1 = (r, db')"
      using Cons.prems(4) ins Ok by simp
    have t1: "tables db1 AGENT_GROUP_TABLE_NAME = Some ?T" and c1: "cols ?T = agent_group_keys" and i1: "inv db1"
      using tab Cons.prems(3) law by auto
    obtain T' where "inv db'" "saved db' = saved db1" "r \<noteq> Terminate" "cols T' = agent_group_keys"
        "tables db' = (tables db1)(AGENT_GROUP_TABLE_NAME \<mapsto> T')" "r = Ok () \<longrightarrow> group_names T' = group_names ?T @ gs"
      using Cons.IH [OF i1 t1 c1 rest] by blast
    moreover have "saved db1 = saved db"
      using law by blast
    ultimately show ?thesis
      using names by (intro conjI exI [of _ T']) (simp_all add: tab fun_upd_upd del: fun_upd_apply)
  next
    case (Throw e)
    then have "r = Throw e" "db' = db1"
      using Cons.prems(4) ins by auto
    then show ?thesis
      using law Throw Cons.prems(2,3) by (auto intro!: exI [of _ T] simp: fun_upd_idem)
  next
    case Terminate
    then show ?thesis using law by simp
  qed
qed

lemma replace_groups_law:
  assumes "inv db" "saved db = Some (k, ts)" "tables db AGENT_GROUP_TABLE_NAME = Some T" "cols T = agent_group_keys"
    and "and_do (and_do (Remove P AGENT_GROUP_TABLE_NAME [] LogicalOperator.AND db) (insert_groups P gs)) (CommitTransaction P k) = (r, db')"
  shows "inv db' \<and> r \<noteq> Terminate \<and>
    (r = Ok () \<longrightarrow> saved db' = None \<and> (\<exists>T'. tables db' = (tables db)(AGENT_GROUP_TABLE_NAME \<mapsto> T') \<and>
       cols T' = agent_group_keys \<and> group_names T' = gs)) \<and>
    (r \<noteq> Ok () \<longrightarrow> saved db' = Some (k, ts))"
proof -
  obtain r1 db1 where rem: "Remove P AGENT_GROUP_TABLE_NAME [] LogicalOperator.AND db = (r1, db1)" by fastforce
  note rem_law = Remove_law [OF assms(1,3) no_criteria(1) rem]
  show ?thesis
  proof (cases r1)
    case (Ok u)
    let ?T = "map_trows (\<lambda>rs. []) T"
    have tab1: "tables db1 = (tables db)(AGENT_GROUP_TABLE_NAME \<mapsto> ?T)" "inv db1" "saved db1 = saved db"
      using rem_law Ok by auto
    obtain r2 db2 where ins: "insert_groups P gs db1 = (r2, db2)" by fastforce
    have empty: "group_names ?T = []" "cols ?T = agent_group_keys"
      using assms(4) by (simp_all add: group_names_def)
    obtain T' where step: "inv db2" "saved db2 = saved db1" "r2 \<noteq> Terminate" "cols T' = agent_group_keys"
        "tables db2 = (tables db1)(AGENT_GROUP_TABLE_NAME \<mapsto> T')" "r2 = Ok () \<longrightarrow> group_names T' = gs"
      using insert_groups_law [OF tab1(2) _ empty(2) ins] empty(1) by (auto simp: tab1(1))
    have tab2: "tables db2 = (tables db)(AGENT_GROUP_TABLE_NAME \<mapsto> T')"
      using step(5) tab1(1) by simp
    show ?thesis
    proof (cases r2)
      case Ok2: (Ok u)
      obtain r3 db3 where com: "CommitTransaction P k db2 = (r3, db3)" by fastforce
      have "r = r3" "db' = db3" using assms(5) rem Ok ins Ok2 com by simp_all
      then show ?thesis
        using Commit_law [OF step(1) com] step tab1 tab2 assms(2) Ok2 by (cases r3) auto
    next
      case (Throw e)
      then show ?thesis using assms(2,5) rem Ok ins step tab1 by auto
    next
      case Terminate
      then show ?thesis using step(3) by simp
    qed
  next
    case (Throw e)
    then show ?thesis using assms(2,5) rem rem_law by auto
  next
    case Terminate
    then show ?thesis using rem_law by simp
  qed
qed

text \<open>Replacing the groups is all or nothing, unless the rollback itself fails and leaves its transaction open.\<close>

lemma SetGroups_law:
  assumes "inv db" "saved db = None" "tables db AGENT_GROUP_TABLE_NAME = Some T" "cols T = agent_group_keys"
    and "Persisted_SetGroups P gs db = (r, db')"
  shows "inv db' \<and>
    (r = Ok True \<and> saved db' = None \<and>
       (\<exists>T'. tables db' = (tables db)(AGENT_GROUP_TABLE_NAME \<mapsto> T') \<and> cols T' = agent_group_keys \<and> group_names T' = gs) \<or>
     r = Ok False \<and> (saved db' = None \<and> tables db' = tables db \<or> (\<exists>k. saved db' = Some (k, tables db))))"
proof -
  obtain b db1 where begun: "BeginTransaction P db = (b, db1)" by fastforce
  note begin_law = Begin_law [OF assms(1) begun]
  show ?thesis
  proof (cases b)
    case (Ok k)
    let ?run = "and_do (and_do (Remove P AGENT_GROUP_TABLE_NAME [] LogicalOperator.AND db1) (insert_groups P gs)) (CommitTransaction P k)"
    have start: "inv db1" "saved db1 = Some (k, tables db)" "tables db1 = tables db"
      using begin_law Ok by auto
    obtain r2 db2 where run: "?run = (r2, db2)" by fastforce
    have work: "inv db2 \<and> r2 \<noteq> Terminate \<and>
      (r2 = Ok () \<longrightarrow> saved db2 = None \<and> (\<exists>T'. tables db2 = (tables db)(AGENT_GROUP_TABLE_NAME \<mapsto> T') \<and>
         cols T' = agent_group_keys \<and> group_names T' = gs)) \<and>
      (r2 \<noteq> Ok () \<longrightarrow> saved db2 = Some (k, tables db))"
      using replace_groups_law [OF start(1,2) _ assms(4) run] start(3) assms(3) by simp
    have res: "Persisted_SetGroups P gs db =
      (case (r2, db2) of (Ok _, d) \<Rightarrow> (Ok True, d) | (Throw _, d) \<Rightarrow> rolled_back P k d | (Terminate, d) \<Rightarrow> (Terminate, d))"
      by (simp add: Persisted_SetGroups_def begun Ok run)
    show ?thesis
    proof (cases r2)
      case Ok2: (Ok u)
      then show ?thesis using res work assms(5) by auto
    next
      case (Throw e)
      obtain r3 db3 where undone: "RollbackTransaction P k db2 = (r3, db3)" by fastforce
      have "saved db2 = Some (k, tables db)" "inv db2" using work Throw by auto
      then show ?thesis
        using Rollback_law [OF _ undone] res Throw assms(5) by (cases r3) (auto simp: rolled_back_def undone)
    next
      case Terminate
      then show ?thesis using work by simp
    qed
  next
    case (Throw e)
    then have "r = Ok False" "db' = db1" using assms(5) by (simp_all add: Persisted_SetGroups_def begun)
    then show ?thesis using begin_law Throw assms(2) by simp
  next
    case Terminate
    then show ?thesis using begin_law by simp
  qed
qed

end

definition identity_row :: "(string \<Rightarrow> table option) \<Rightarrow> trow \<Rightarrow> bool" where
  "identity_row ts x \<longleftrightarrow> ts AGENT_INFO_TABLE_NAME = Some \<lparr>cols = agent_info_keys, trows = [x]\<rparr>"

definition empty_groups :: table where
  "empty_groups = \<lparr>cols = agent_group_keys, trows = []\<rparr>"

lemma success_of_True: "success_of r = (Ok True, db') \<longleftrightarrow> r = (Ok (), db')"
  by (cases r; cases "fst r") auto

lemma sole_of_mset: "mset xs = {#x#} \<Longrightarrow> xs = [x]"
  by (metis mset_single_iff_right)

context persistence_laws
begin

lemma InsertDefault_law:
  assumes "inv db" "tables db AGENT_INFO_TABLE_NAME = Some \<lparr>cols = agent_info_keys, trows = []\<rparr>"
    and "InsertDefaultAgentInfo P db = (Ok u, db')"
  shows "inv db' \<and> saved db' = saved db \<and>
    (\<exists>x. tables db' = (tables db)(AGENT_INFO_TABLE_NAME \<mapsto> \<lparr>cols = agent_info_keys, trows = [x]\<rparr>))"
proof -
  obtain n where n: "GetCount P AGENT_INFO_TABLE_NAME [] LogicalOperator.AND db = Ok n"
    using assms(3) by (auto simp: InsertDefaultAgentInfo_def split: result.splits)
  have "n = 0"
    using GetCount_law [OF assms(1,2) no_criteria(1) n] by (simp add: as_int32_def)
  then have ins: "Insert P AGENT_INFO_TABLE_NAME default_row db = (Ok u, db')"
    using assms(3) n by (simp add: InsertDefaultAgentInfo_def)
  show ?thesis
    using Insert_law [OF assms(1,2) _ ins] default_row_ok by auto
qed

lemma ResetToDefault_law:
  assumes "inv db" "tables db AGENT_INFO_TABLE_NAME \<noteq> None" "tables db AGENT_GROUP_TABLE_NAME \<noteq> None"
    and "ResetToDefault P db = (Ok True, db')"
  shows "inv db' \<and> saved db' = saved db \<and> tables db' AGENT_GROUP_TABLE_NAME = Some empty_groups \<and>
    (\<exists>x. identity_row (tables db') x)"
proof -
  from assms(4) obtain d1 d2 d3 d4 where run: "DropTable P AGENT_INFO_TABLE_NAME db = (Ok (), d1)"
      "DropTable P AGENT_GROUP_TABLE_NAME d1 = (Ok (), d2)" "CreateTable P AGENT_INFO_TABLE_NAME agent_info_keys d2 = (Ok (), d3)"
      "CreateTable P AGENT_GROUP_TABLE_NAME agent_group_keys d3 = (Ok (), d4)" "InsertDefaultAgentInfo P d4 = (Ok (), db')"
    by (auto simp: ResetToDefault_def success_of_True and_do_Ok CreateAgentInfoTable_def CreateAgentGroupTable_def)
  have free: "name_free (tables db) AGENT_INFO_TABLE_NAME" "name_free (tables db) AGENT_GROUP_TABLE_NAME"
    using names_apart_free [OF table_names [OF assms(1)]] assms(2,3) by blast+
  have 1: "inv d1" "saved d1 = saved db" "tables d1 = (tables db)(AGENT_INFO_TABLE_NAME := None)"
    using DropTable_law [OF assms(1,2) run(1)] by simp_all
  then have g: "tables d1 AGENT_GROUP_TABLE_NAME \<noteq> None"
    using assms(3) by simp
  have 2: "inv d2" "saved d2 = saved db" "tables d2 = (tables d1)(AGENT_GROUP_TABLE_NAME := None)"
    using DropTable_law [OF 1(1) g run(2)] 1(2) by simp_all
  have 3: "inv d3" "saved d3 = saved db" "tables d3 = (tables d2)(AGENT_INFO_TABLE_NAME \<mapsto> \<lparr>cols = agent_info_keys, trows = []\<rparr>)"
    using CreateTable_law [OF 2(1) _ _ _ run(3)] 1 2 free by (simp_all add: name_free_upd)
  have 4: "inv d4" "saved d4 = saved db" "tables d4 = (tables d3)(AGENT_GROUP_TABLE_NAME \<mapsto> empty_groups)"
    using CreateTable_law [OF 3(1) _ _ _ run(4)] 1 2 3 free
    by (simp_all add: empty_groups_def name_free_upd)
  have info: "tables d4 AGENT_INFO_TABLE_NAME = Some \<lparr>cols = agent_info_keys, trows = []\<rparr>"
    using 3(3) 4(3) by simp
  show ?thesis
    using InsertDefault_law [OF 4(1) info run(5)] 4 by (auto simp: identity_row_def)
qed

lemma SetAgentInfoValue_law:
  assumes "inv db" "identity_row (tables db) x" "c \<in> set info_columns"
    and "SetAgentInfoValue P c v db = (Ok True, db')"
  shows "inv db' \<and> saved db' = saved db \<and> tables db' AGENT_GROUP_TABLE_NAME = tables db AGENT_GROUP_TABLE_NAME \<and>
    identity_row (tables db') (upd_row canon [col_value c TEXT v] x)"
proof -
  have upd: "Update P AGENT_INFO_TABLE_NAME [col_value c TEXT v] [] LogicalOperator.AND db = (Ok (), db')"
    using assms(4) by (simp add: SetAgentInfoValue_def success_of_True)
  show ?thesis
    using Update_law [OF assms(1) assms(2) [unfolded identity_row_def] _ no_criteria(1) upd] info_row_ok [OF assms(3)]
    by (simp add: identity_row_def)
qed

lemma Save_law:
  assumes "inv db" "saved db = None" "tables db AGENT_INFO_TABLE_NAME \<noteq> None" "tables db AGENT_GROUP_TABLE_NAME \<noteq> None"
    and "Save P a db = (replicate 5 (Ok True), db')"
  shows "inv db' \<and> (\<exists>x T. identity_row (tables db') x \<and> cell_text x AGENT_INFO_NAME_COLUMN_NAME = ai_name a \<and>
    cell_text x AGENT_INFO_KEY_COLUMN_NAME = ai_key a \<and> cell_text x AGENT_INFO_UUID_COLUMN_NAME = ai_uuid a \<and>
    tables db' AGENT_GROUP_TABLE_NAME = Some T \<and> cols T = agent_group_keys \<and> group_names T = ai_groups a)"
proof -
  from assms(5) obtain d1 d2 d3 d4 where run: "ResetToDefault P db = (Ok True, d1)"
      "SetAgentInfoValue P AGENT_INFO_NAME_COLUMN_NAME (ai_name a) d1 = (Ok True, d2)"
      "SetAgentInfoValue P AGENT_INFO_KEY_COLUMN_NAME (ai_key a) d2 = (Ok True, d3)"
      "SetAgentInfoValue P AGENT_INFO_UUID_COLUMN_NAME (ai_uuid a) d3 = (Ok True, d4)"
      "Persisted_SetGroups P (ai_groups a) d4 = (Ok True, db')"
    by (auto simp: Save_def numeral_eq_Suc split: prod.splits)
  have cs: "AGENT_INFO_NAME_COLUMN_NAME \<in> set info_columns" "AGENT_INFO_KEY_COLUMN_NAME \<in> set info_columns"
    "AGENT_INFO_UUID_COLUMN_NAME \<in> set info_columns"
    by (simp_all add: info_columns_def)
  obtain x where 1: "inv d1" "saved d1 = None" "tables d1 AGENT_GROUP_TABLE_NAME = Some empty_groups" "identity_row (tables d1) x"
    using ResetToDefault_law [OF assms(1,3,4) run(1)] assms(2) by auto
  note 2 = SetAgentInfoValue_law [OF 1(1,4) cs(1) run(2)]
  note 3 = SetAgentInfoValue_law [OF conjunct1 [OF 2] _ cs(2) run(3), OF conjunct2 [OF conjunct2 [OF conjunct2 [OF 2]]]]
  note 4 = SetAgentInfoValue_law [OF conjunct1 [OF 3] _ cs(3) run(4), OF conjunct2 [OF conjunct2 [OF conjunct2 [OF 3]]]]
  have g: "inv d4" "saved d4 = None" "tables d4 AGENT_GROUP_TABLE_NAME = Some empty_groups" "cols empty_groups = agent_group_keys"
    using 1 2 3 4 by (simp_all add: empty_groups_def)
  note 5 = SetGroups_law [OF g run(5)]
  show ?thesis
    using 4 5 by (fastforce simp: identity_row_def cell_text_upd canon_text agent_info_names)
qed

end

context reliable_persistence
begin

lemma GetAgentInfoValue_ok:
  assumes "inv db" "identity_row (tables db) x" "c \<in> set info_columns"
  shows "GetAgentInfoValue P c db = Ok (cell_text x c)"
proof -
  let ?T = "\<lparr>cols = agent_info_keys, trows = [x]\<rparr>"
  have t: "tables db AGENT_INFO_TABLE_NAME = Some ?T" and f: "flds_ok (cols ?T) [col_name c TEXT]"
    using assms(2) info_field_ok [OF assms(3)] by (simp_all add: identity_row_def)
  obtain rs where rs: "Select P AGENT_INFO_TABLE_NAME [col_name c TEXT] [] LogicalOperator.AND [] ASC 0 db = Ok rs"
    using Select_ok [OF assms(1) t f no_criteria(1), of "[]" LogicalOperator.AND ASC 0] by (auto elim: is_ok.elims)
  have "mset rs = {#project ?T [col_name c TEXT] x#}"
    using Select_law [OF assms(1) t f no_criteria(1) rs] by simp
  then show ?thesis
    by (simp add: GetAgentInfoValue_def rs sole_of_mset project_one)
qed

lemma Persisted_GetGroups_ok:
  assumes "inv db" "tables db AGENT_GROUP_TABLE_NAME = Some T" "cols T = agent_group_keys"
  shows "\<exists>gs. Persisted_GetGroups P db = Ok gs \<and> mset gs = mset (group_names T)"
proof -
  let ?f = "[col_name AGENT_GROUP_NAME_COLUMN_NAME TEXT]"
  have f: "flds_ok (cols T) ?f"
    using assms(3) group_field_ok by simp
  obtain rs where rs: "Select P AGENT_GROUP_TABLE_NAME ?f [] LogicalOperator.AND [] ASC 0 db = Ok rs"
    using Select_ok [OF assms(1,2) f no_criteria(1), of "[]" LogicalOperator.AND ASC 0] by (auto elim: is_ok.elims)
  have m: "mset rs = mset (map (project T ?f) (trows T))"
    using Select_law [OF assms(1,2) f no_criteria(1) rs] by simp
  have "mset (map (\<lambda>row. Value (row ! 0)) (filter (\<lambda>row. row \<noteq> []) rs)) =
      image_mset (\<lambda>row. Value (row ! 0)) (filter_mset (\<lambda>row. row \<noteq> []) (mset rs))"
    by simp
  also have "\<dots> = mset (group_names T)"
    unfolding m by (simp add: group_names_def project_one flip: mset_filter mset_map) (simp add: comp_def project_one)
  finally show ?thesis
    by (simp add: Persisted_GetGroups_def rs)
qed

lemma load_saved:
  assumes "inv db" "saved db = None" "tables db AGENT_INFO_TABLE_NAME \<noteq> None" "tables db AGENT_GROUP_TABLE_NAME \<noteq> None"
    and "Save P a db = (replicate 5 (Ok True), db')"
  shows "\<exists>gs. load_identity P db' = Ok (ai_name a, ai_key a, ai_uuid a, gs) \<and> mset gs = mset (ai_groups a)"
proof -
  obtain x T where s: "inv db'" "identity_row (tables db') x" "cell_text x AGENT_INFO_NAME_COLUMN_NAME = ai_name a"
      "cell_text x AGENT_INFO_KEY_COLUMN_NAME = ai_key a" "cell_text x AGENT_INFO_UUID_COLUMN_NAME = ai_uuid a"
      "tables db' AGENT_GROUP_TABLE_NAME = Some T" "cols T = agent_group_keys" "group_names T = ai_groups a"
    using Save_law [OF assms] by blast
  show ?thesis
    using Persisted_GetGroups_ok [OF s(1,6,7)] GetAgentInfoValue_ok [OF s(1,2)] s(3-5,8)
    by (auto simp: load_identity_def info_columns_def)
qed

end


lemma group_row_admissible:
  "cols T = agent_group_keys \<Longrightarrow> row_admissible canon T [col_value AGENT_GROUP_NAME_COLUMN_NAME TEXT g]"
  by (simp add: row_admissible_def key_cols_def agent_group_keys_def col_key_def col_value_def agent_info_names attr_defs)

context reliable_persistence
begin

lemma insert_groups_ok:
  assumes "inv db" "tables db AGENT_GROUP_TABLE_NAME = Some T" "cols T = agent_group_keys" "list_all (\<lambda>g. CHR 0x00 \<notin> set g) gs"
  shows "fst (insert_groups P gs db) = Ok ()"
  using assms
proof (induction gs arbitrary: db T)
  case (Cons g gs)
  let ?fs = "[col_value AGENT_GROUP_NAME_COLUMN_NAME TEXT g]"
  have ok: "row_ok (cols T) ?fs" and nul: "nul_free ?fs"
    using Cons.prems(3,4) group_row_ok by (simp_all add: nul_free_def col_value_def)
  obtain db1 where ins: "Insert P AGENT_GROUP_TABLE_NAME ?fs db = (Ok (), db1)"
    using Insert_ok [OF Cons.prems(1,2) ok group_row_admissible [OF Cons.prems(3)] nul] by (metis prod.collapse)
  obtain T' where "inv db1" "tables db1 AGENT_GROUP_TABLE_NAME = Some T'" "cols T' = agent_group_keys"
    using Insert_law [OF Cons.prems(1,2) ok ins] Cons.prems(3) by auto
  then show ?case
    using Cons.IH [of db1 T'] Cons.prems(4) ins by simp
qed simp

text \<open>On a database that does not fail, the groups are replaced.\<close>

lemma SetGroups_ok:
  assumes "inv db" "saved db = None" "tables db AGENT_GROUP_TABLE_NAME = Some T" "cols T = agent_group_keys"
    and "list_all (\<lambda>g. CHR 0x00 \<notin> set g) gs"
  shows "\<exists>db'. Persisted_SetGroups P gs db = (Ok True, db')"
proof -
  obtain k db1 where begun: "BeginTransaction P db = (Ok k, db1)"
    using Begin_ok [OF assms(1,2)] by (cases "BeginTransaction P db") auto
  have 1: "inv db1" "saved db1 = Some (k, tables db)" "tables db1 AGENT_GROUP_TABLE_NAME = Some T"
    using Begin_law [OF assms(1) begun] assms(3) by simp_all
  obtain db2 where rem: "Remove P AGENT_GROUP_TABLE_NAME [] LogicalOperator.AND db1 = (Ok (), db2)"
    using Remove_ok [OF 1(1,3) no_criteria(1,2)] by (metis prod.collapse)
  obtain T2 where 2: "inv db2" "saved db2 = saved db1" "tables db2 AGENT_GROUP_TABLE_NAME = Some T2" "cols T2 = agent_group_keys"
    using Remove_law [OF 1(1,3) no_criteria(1) rem] assms(4) by auto
  obtain db3 where ins: "insert_groups P gs db2 = (Ok (), db3)"
    using insert_groups_ok [OF 2(1,3,4) assms(5)] by (metis prod.collapse)
  have 3: "inv db3" "saved db3 = Some (k, tables db)"
    using insert_groups_law [OF 2(1,3,4) ins] 1(2) 2(2) by simp_all
  obtain db4 where "CommitTransaction P k db3 = (Ok (), db4)"
    using Commit_ok [OF 3] by (metis prod.collapse)
  then show ?thesis
    by (simp add: Persisted_SetGroups_def begun rem ins)
qed

end

lemma charset_alnum: "list_all isalnum charset"
  by (simp add: charset_def isalnum_def isdigit_def islower_def isupper_def)

text \<open>A key of the agent is valid or not there: generated keys pass the check, and \<^verbatim>\<open>SetKey\<close> keeps it so.\<close>

lemma CreateKey_valid:
  assumes "\<And>i. draw i < 62"
  shows "ValidateKey (CreateKey draw)"
proof -
  have "isalnum (charset ! draw i)" for i
    using charset_alnum assms [of i] by (simp add: list_all_length charset_def)
  then show ?thesis
    by (simp add: ValidateKey_def CreateKey_def list_all_iff)
qed

lemma SetKey_valid:
  assumes "\<And>i. draw i < 62" "SetKey draw key a = (ok, a')"
  shows "if ok then ValidateKey (ai_key a') \<and> (key \<noteq> [] \<longrightarrow> ai_key a' = key) else a' = a \<and> \<not> ValidateKey key"
  using assms(2) CreateKey_valid [of draw, OF assms(1)] by (auto simp: SetKey_def split: if_splits)

text \<open>
  C37: replacing the agent's groups is all or nothing. Over any database that keeps the contract of the
  persistence interface and has no open transaction, either \<^verbatim>\<open>SetGroups\<close> reports success and the group table holds
  exactly the new groups, in order, with no other table touched; or it reports failure and every table is as it was,
  the only exception being a rollback that failed too, which leaves the transaction open with the old tables to return to.
\<close>

theorem SetGroups_all_or_nothing:
  assumes "persistence_laws P tables saved canon dinv" and "dinv db" "saved db = None"
    and "tables db AGENT_GROUP_TABLE_NAME = Some T" "cols T = agent_group_keys"
    and "Persisted_SetGroups P gs db = (r, db')"
  shows "dinv db' \<and>
    (r = Ok True \<and> saved db' = None \<and>
       (\<exists>T'. tables db' = (tables db)(AGENT_GROUP_TABLE_NAME \<mapsto> T') \<and> cols T' = agent_group_keys \<and> group_names T' = gs) \<or>
     r = Ok False \<and> (saved db' = None \<and> tables db' = tables db \<or> (\<exists>k. saved db' = Some (k, tables db))))"
  by (rule persistence_laws.SetGroups_law [OF assms])

text \<open>A fresh database in memory, with the two tables.\<close>

definition mem_agent_db :: mem_db where
  "mem_agent_db = snd (AgentInfoPersistence_init ''d'' (Some mem_persistence) mem_empty)"

lemma mem_agent_db_eq:
  "mem_agent_db = mem_empty\<lparr>m_tables := [AGENT_INFO_TABLE_NAME \<mapsto> \<lparr>cols = agent_info_keys, trows = [new_row mem_canon 1 default_row]\<rparr>,
     AGENT_GROUP_TABLE_NAME \<mapsto> empty_groups]\<rparr>"
proof -
  have "row_admissible mem_canon \<lparr>cols = agent_info_keys, trows = []\<rparr> default_row"
    by (simp add: row_admissible_def agent_info_keys_def default_row_def col_key_def col_value_def agent_info_names)
  then show ?thesis
    by (simp add: mem_agent_db_def AgentInfoPersistence_init_def mem_persistence_def CreateAgentInfoTable_def
        CreateAgentGroupTable_def AgentInfoIsEmpty_def InsertDefaultAgentInfo_def mem_query_def mem_on_table_def mem_insert_def
        mem_empty_def next_rowid_def empty_groups_def fun_upd_twist)
qed

lemma mem_agent_db_ok:
  "mem_inv mem_agent_db" "m_saved mem_agent_db = None" "m_tables mem_agent_db AGENT_GROUP_TABLE_NAME = Some empty_groups"
  "m_tables mem_agent_db AGENT_INFO_TABLE_NAME \<noteq> None"
  by (auto simp: mem_agent_db_eq mem_empty_def mem_inv_def tables_ok_def table_ok_def keys_unique_def empty_groups_def
      name_free_def intro!: names_apart_upd split: if_splits)

theorem SetGroups_all_or_nothing_witness:
  "\<exists>r db'. Persisted_SetGroups mem_persistence [''web'', ''db''] mem_agent_db = (r, db') \<and> mem_inv db' \<and>
    (r = Ok True \<and> m_saved db' = None \<and> (\<exists>T'. m_tables db' = (m_tables mem_agent_db)(AGENT_GROUP_TABLE_NAME \<mapsto> T') \<and>
       cols T' = agent_group_keys \<and> group_names T' = [''web'', ''db'']) \<or>
     r = Ok False \<and> (m_saved db' = None \<and> m_tables db' = m_tables mem_agent_db \<or>
       (\<exists>k. m_saved db' = Some (k, m_tables mem_agent_db))))"
proof -
  obtain r db' where run: "Persisted_SetGroups mem_persistence [''web'', ''db''] mem_agent_db = (r, db')" by fastforce
  have c: "cols empty_groups = agent_group_keys" by (simp add: empty_groups_def)
  from SetGroups_all_or_nothing [OF mem.persistence_laws_axioms, OF mem_agent_db_ok(1-3) c run] run show ?thesis by blast
qed

text \<open>The header never fails on the endpoint information the agent has collected.\<close>

lemma LoadHeaderInfo_returns:
  assumes "LoadEndpointInfo getOSInfo getNetworksInfo = Ok e"
  shows "\<exists>h. LoadHeaderInfo version e = Ok h"
proof (cases getOSInfo)
  case None
  then show ?thesis
    using assms by (cases getNetworksInfo; cases "GetActiveIPAddresses (the getNetworksInfo)")
      (auto simp: LoadEndpointInfo_def LoadHeaderInfo_def obj_of_def)
next
  case (Some os)
  then show ?thesis
    using assms by (cases "values_or os [''hostname'', ''architecture'', ''os_name'', ''sysname'', ''os_version''] ''Unknown''";
        cases getNetworksInfo; cases "GetActiveIPAddresses (the getNetworksInfo)")
      (auto simp: LoadEndpointInfo_def LoadHeaderInfo_def os_fields_def obj_of_def)
qed

text \<open>
  C38: what the agent saves is what its next start loads. Over a reliable database, when each of the five calls of
  \<^verbatim>\<open>Save\<close> reports success and the endpoint information can be read, the constructor of an agent that does not
  enrol returns, with the same name, key and identifier, and the same groups, each as often as it was saved.
\<close>

theorem saved_identity_loads:
  assumes "reliable_persistence P tables saved canon dinv" and "dinv db" "saved db = None"
    and "tables db AGENT_INFO_TABLE_NAME \<noteq> None" "tables db AGENT_GROUP_TABLE_NAME \<noteq> None"
    and "Save P a db = (replicate 5 (Ok True), db')" and "ai_uuid a \<noteq> []"
    and "LoadEndpointInfo getOSInfo getNetworksInfo = Ok endpoint"
  shows "\<exists>a'. AgentInfo_init P version uuid getOSInfo getNetworksInfo False db' = Ok a' \<and> ai_name a' = ai_name a \<and>
    ai_key a' = ai_key a \<and> ai_uuid a' = ai_uuid a \<and> mset (ai_groups a') = mset (ai_groups a)"
  using reliable_persistence.load_saved [OF assms(1-6)] LoadHeaderInfo_returns [OF assms(8), of version] assms(7,8)
  by (auto simp: AgentInfo_init_def)

definition example_agent :: AgentInfo where
  "example_agent = \<lparr>ai_name = ''host'', ai_key = ''k'', ai_uuid = ''u'', ai_groups = [''web''], ai_enrolling = True,
     ai_getOSInfo = None, ai_endpointInfo = JNull, ai_headerInfo = []\<rparr>"

lemma mem_SetAgentInfoValue:
  assumes "identity_row (m_tables db) x" "c \<in> set info_columns"
  shows "\<exists>db'. SetAgentInfoValue mem_persistence c v db = (Ok True, db')"
  using assms
  by (auto simp: SetAgentInfoValue_def mem_persistence_def mem_on_table_def mem_update_def identity_row_def keys_unique_def
      col_value_def agent_info_keys_def col_key_def info_columns_def)

lemma mem_ResetToDefault:
  assumes "m_tables db AGENT_INFO_TABLE_NAME \<noteq> None" "m_tables db AGENT_GROUP_TABLE_NAME \<noteq> None"
  shows "\<exists>db'. ResetToDefault mem_persistence db = (Ok True, db')"
proof -
  have "row_admissible mem_canon \<lparr>cols = agent_info_keys, trows = []\<rparr> default_row"
    by (simp add: row_admissible_def agent_info_keys_def default_row_def col_key_def col_value_def agent_info_names)
  then show ?thesis
    using assms by (simp add: ResetToDefault_def CreateAgentInfoTable_def CreateAgentGroupTable_def InsertDefaultAgentInfo_def
        mem_persistence_def mem_query_def mem_on_table_def mem_insert_def)
qed

lemma example_agent_saved: "\<exists>db'. Save mem_persistence example_agent mem_agent_db = (replicate 5 (Ok True), db')"
proof -
  let ?set = "SetAgentInfoValue mem_persistence"
  have cs: "AGENT_INFO_NAME_COLUMN_NAME \<in> set info_columns" "AGENT_INFO_KEY_COLUMN_NAME \<in> set info_columns"
    "AGENT_INFO_UUID_COLUMN_NAME \<in> set info_columns"
    by (simp_all add: info_columns_def)
  have g: "m_tables mem_agent_db AGENT_GROUP_TABLE_NAME \<noteq> None" using mem_agent_db_ok(3) by simp
  obtain d1 where r1: "ResetToDefault mem_persistence mem_agent_db = (Ok True, d1)"
    using mem_ResetToDefault [OF mem_agent_db_ok(4) g] by blast
  obtain x where 1: "mem_inv d1" "m_saved d1 = None" "m_tables d1 AGENT_GROUP_TABLE_NAME = Some empty_groups" "identity_row (m_tables d1) x"
    using mem.ResetToDefault_law [OF mem_agent_db_ok(1,4) g r1] mem_agent_db_ok(2) by auto
  obtain d2 where r2: "?set AGENT_INFO_NAME_COLUMN_NAME ''host'' d1 = (Ok True, d2)"
    using mem_SetAgentInfoValue [OF 1(4) cs(1)] by blast
  note 2 = mem.SetAgentInfoValue_law [OF 1(1,4) cs(1) r2]
  obtain d3 where r3: "?set AGENT_INFO_KEY_COLUMN_NAME ''k'' d2 = (Ok True, d3)"
    using mem_SetAgentInfoValue [OF _ cs(2)] 2 by blast
  note 3 = mem.SetAgentInfoValue_law [OF conjunct1 [OF 2] _ cs(2) r3, OF conjunct2 [OF conjunct2 [OF conjunct2 [OF 2]]]]
  obtain d4 where r4: "?set AGENT_INFO_UUID_COLUMN_NAME ''u'' d3 = (Ok True, d4)"
    using mem_SetAgentInfoValue [OF _ cs(3)] 3 by blast
  note 4 = mem.SetAgentInfoValue_law [OF conjunct1 [OF 3] _ cs(3) r4, OF conjunct2 [OF conjunct2 [OF conjunct2 [OF 3]]]]
  have "mem_inv d4" "m_saved d4 = None" "m_tables d4 AGENT_GROUP_TABLE_NAME = Some empty_groups"
    using 1 2 3 4 by simp_all
  then obtain d5 where "Persisted_SetGroups mem_persistence [''web''] d4 = (Ok True, d5)"
    using memr.SetGroups_ok [of d4 empty_groups "[''web'']"] by (auto simp: empty_groups_def)
  then show ?thesis
    by (simp add: Save_def example_agent_def r1 r2 r3 r4 numeral_eq_Suc)
qed

theorem saved_identity_loads_witness:
  "\<exists>db' a'. Save mem_persistence example_agent mem_agent_db = (replicate 5 (Ok True), db') \<and>
    AgentInfo_init mem_persistence ''5.0'' ''v'' None None False db' = Ok a' \<and> ai_name a' = ''host'' \<and> ai_key a' = ''k'' \<and>
    ai_uuid a' = ''u'' \<and> mset (ai_groups a') = {#''web''#}"
proof -
  obtain db' where run: "Save mem_persistence example_agent mem_agent_db = (replicate 5 (Ok True), db')"
    using example_agent_saved by blast
  have g: "m_tables mem_agent_db AGENT_GROUP_TABLE_NAME \<noteq> None" using mem_agent_db_ok(3) by simp
  have u: "ai_uuid example_agent \<noteq> []" by (simp add: example_agent_def)
  have e: "LoadEndpointInfo None None = Ok JNull" by (simp add: LoadEndpointInfo_def)
  from saved_identity_loads [OF memr.reliable_persistence_axioms, OF mem_agent_db_ok(1,2,4) g run u e, of "''5.0''" "''v''"] run
  show ?thesis by (auto simp: example_agent_def)
qed

end
