(* ===== verification/Configuration.thy ===== *)
theory Configuration
  imports Prelude "HOL-Library.Word" "HOL-Library.AList"
begin

section \<open>The configuration parser\<close>

text \<open>
  \<^verbatim>\<open>src/src/agent/configuration_parser\<close>: the units of times and sizes
  (\<^verbatim>\<open>configuration_parser_utils.cpp\<close>), the getters with their ranges and defaults
  (\<^verbatim>\<open>configuration_parser.hpp\<close>), loading and reloading (\<^verbatim>\<open>configuration_parser.cpp\<close>) and the merge of
  a group's file into the configuration (\<^verbatim>\<open>yaml_utils.cpp\<close>).

  \<open>yaml\<close> is a \<^verbatim>\<open>YAML::Node\<close> as a value, for documents whose map keys are scalars. Reading a file is the
  YAML library's: \<open>load\<close> gives the document of a path, or \<open>None\<close> where \<^verbatim>\<open>YAML::LoadFile\<close> throws. So is
  the conversion of a node to a C++ type, which is the argument \<open>as\<close> of the getters. The merge works
  through references into the base document, kept in a queue; here a reference is the path of the
  node, and \<open>MergeYamlNodes_rec\<close> proves the loop equal to the recursive merge.
\<close>

subsection \<open>Units\<close>

definition A_SECOND_IN_MILLIS :: nat where "A_SECOND_IN_MILLIS = 1000"
definition A_MINUTE_IN_MILLIS :: nat where "A_MINUTE_IN_MILLIS = 60 * A_SECOND_IN_MILLIS"
definition A_HOUR_IN_MILLIS :: nat where "A_HOUR_IN_MILLIS = 60 * A_MINUTE_IN_MILLIS"
definition A_DAY_IN_MILLIS :: nat where "A_DAY_IN_MILLIS = 24 * A_HOUR_IN_MILLIS"
definition A_KB_IN_BYTES :: nat where "A_KB_IN_BYTES = 1000"
definition A_MB_IN_BYTES :: nat where "A_MB_IN_BYTES = 1000 * A_KB_IN_BYTES"
definition A_GB_IN_BYTES :: nat where "A_GB_IN_BYTES = 1000 * A_MB_IN_BYTES"

lemmas unit_defs =
  A_SECOND_IN_MILLIS_def A_MINUTE_IN_MILLIS_def A_HOUR_IN_MILLIS_def A_DAY_IN_MILLIS_def
  A_KB_IN_BYTES_def A_MB_IN_BYTES_def A_GB_IN_BYTES_def

text \<open>\<^verbatim>\<open>std::stoul\<close> on a string of digits: it throws on the empty string and above \<open>2 ^ 64 - 1\<close>.\<close>

definition stoul :: "string \<Rightarrow> 64 word result" where
  "stoul s =
     (if s = [] then Throw ''stoul: invalid argument''
      else if val_dec s \<ge> 2 ^ 64 then Throw ''stoul: out of range''
      else Ok (of_nat (val_dec s)))"

definition without_suffix :: "string \<Rightarrow> nat \<Rightarrow> string" where
  "without_suffix s n = take (length s - n) s"

definition time_unit :: "string \<Rightarrow> string \<times> nat" where
  "time_unit option =
     (if ends_with option ''ms'' then (without_suffix option 2, 1)
      else if ends_with option ''s'' then (without_suffix option 1, A_SECOND_IN_MILLIS)
      else if ends_with option ''m'' then (without_suffix option 1, A_MINUTE_IN_MILLIS)
      else if ends_with option ''h'' then (without_suffix option 1, A_HOUR_IN_MILLIS)
      else if ends_with option ''d'' then (without_suffix option 1, A_DAY_IN_MILLIS)
      else (option, A_SECOND_IN_MILLIS))"

text \<open>The product wraps at 64 bits; \<^verbatim>\<open>time_t\<close> reads it as a signed number.\<close>

definition ParseTimeUnit :: "string \<Rightarrow> int result" where
  "ParseTimeUnit option =
     (let (number, multiplier) = time_unit option in
      if \<not> list_all isdigit number then Throw (''Invalid time unit: '' @ option)
      else map_result (\<lambda>w. sint (w * of_nat multiplier)) (stoul number))"

definition size_unit :: "string \<Rightarrow> string \<times> nat" where
  "size_unit option =
     (if ends_with option ''K'' then (without_suffix option 1, A_KB_IN_BYTES)
      else if ends_with option ''KB'' then (without_suffix option 2, A_KB_IN_BYTES)
      else if ends_with option ''M'' then (without_suffix option 1, A_MB_IN_BYTES)
      else if ends_with option ''MB'' then (without_suffix option 2, A_MB_IN_BYTES)
      else if ends_with option ''G'' then (without_suffix option 1, A_GB_IN_BYTES)
      else if ends_with option ''GB'' then (without_suffix option 2, A_GB_IN_BYTES)
      else if ends_with option ''B'' then (without_suffix option 1, 1)
      else (option, 1))"

definition ParseSizeUnit :: "string \<Rightarrow> int result" where
  "ParseSizeUnit option =
     (let (number, multiplier) = size_unit option in
      if \<not> list_all isdigit number then Throw (''Invalid size unit: '' @ option)
      else map_result (\<lambda>w. uint (w * of_nat multiplier)) (stoul number))"

subsection \<open>Documents\<close>

datatype yaml =
    YNull
  | YScalar string
  | YSeq "yaml list"
  | YMap "(string \<times> yaml) list"

text \<open>
  Subscripting with a string: a null becomes a map, a sequence becomes the map of its indices, and a
  scalar is a \<^verbatim>\<open>BadSubscript\<close>.
\<close>

fun to_map :: "yaml \<Rightarrow> (string \<times> yaml) list option" where
  "to_map YNull = Some []"
| "to_map (YScalar _) = None"
| "to_map (YSeq xs) = Some (zip (map dec_nat [0..<length xs]) xs)"
| "to_map (YMap kvs) = Some kvs"

subsection \<open>Getters\<close>

fun GetConfig :: "(yaml \<Rightarrow> 'a option) \<Rightarrow> string list \<Rightarrow> yaml \<Rightarrow> 'a option" where
  "GetConfig as [] current = as current"
| "GetConfig as (key # keys) current =
     (case to_map current of
        None \<Rightarrow> None
      | Some kvs \<Rightarrow> (case map_of kvs key of None \<Rightarrow> None | Some next \<Rightarrow> GetConfig as keys next))"

definition GetConfigOrDefault :: "(yaml \<Rightarrow> 'a option) \<Rightarrow> 'a \<Rightarrow> string list \<Rightarrow> yaml \<Rightarrow> 'a" where
  "GetConfigOrDefault as defaultValue keys m_config =
     (case GetConfig as keys m_config of Some result \<Rightarrow> result | None \<Rightarrow> defaultValue)"

definition GetConfigInRangeOrDefault ::
  "(yaml \<Rightarrow> 'a::linorder option) \<Rightarrow> 'a \<Rightarrow> 'a option \<Rightarrow> 'a option \<Rightarrow> string list \<Rightarrow> yaml \<Rightarrow> 'a" where
  "GetConfigInRangeOrDefault as defaultValue lower upper keys m_config =
     (if (case (lower, upper) of (Some lo, Some hi) \<Rightarrow> lo \<ge> hi | _ \<Rightarrow> False) then defaultValue
      else case GetConfig as keys m_config of
             Some result \<Rightarrow>
               if (case lower of None \<Rightarrow> True | Some lo \<Rightarrow> result \<ge> lo) \<and>
                  (case upper of None \<Rightarrow> True | Some hi \<Rightarrow> result \<le> hi)
               then result else defaultValue
           | None \<Rightarrow> defaultValue)"

definition GetParsedConfigInRangeOrDefault ::
  "(yaml \<Rightarrow> string option) \<Rightarrow> string \<Rightarrow> int \<Rightarrow> int \<Rightarrow> (string \<Rightarrow> int result) \<Rightarrow> string list \<Rightarrow> yaml
     \<Rightarrow> int result" where
  "GetParsedConfigInRangeOrDefault as defaultValue lower upper parseFunc keys m_config =
     (if lower \<ge> upper then parseFunc defaultValue
      else case GetConfig as keys m_config of
             None \<Rightarrow> parseFunc defaultValue
           | Some result \<Rightarrow>
               (case parseFunc result of
                  Ok parsedResult \<Rightarrow>
                    if lower \<le> parsedResult \<and> parsedResult \<le> upper then Ok parsedResult
                    else parseFunc defaultValue
                | Throw _ \<Rightarrow> parseFunc defaultValue
                | Terminate \<Rightarrow> Terminate))"

definition GetTimeConfigInRangeOrDefault ::
  "(yaml \<Rightarrow> string option) \<Rightarrow> string \<Rightarrow> int \<Rightarrow> int \<Rightarrow> string list \<Rightarrow> yaml \<Rightarrow> int result" where
  "GetTimeConfigInRangeOrDefault as defaultValue lower upper =
     GetParsedConfigInRangeOrDefault as defaultValue lower upper ParseTimeUnit"

definition GetTimeConfigOrDefault ::
  "(yaml \<Rightarrow> string option) \<Rightarrow> string \<Rightarrow> string list \<Rightarrow> yaml \<Rightarrow> int result" where
  "GetTimeConfigOrDefault as defaultValue =
     GetTimeConfigInRangeOrDefault as defaultValue 1 (2 ^ 63 - 1)"

definition GetBytesConfigInRangeOrDefault ::
  "(yaml \<Rightarrow> string option) \<Rightarrow> string \<Rightarrow> int \<Rightarrow> int \<Rightarrow> string list \<Rightarrow> yaml \<Rightarrow> int result" where
  "GetBytesConfigInRangeOrDefault as defaultValue lower upper =
     GetParsedConfigInRangeOrDefault as defaultValue lower upper ParseSizeUnit"

subsection \<open>MergeYamlNodes\<close>

text \<open>The key by which an element of a sequence is merged; a null or an empty map has none.\<close>

fun elem_key :: "yaml \<Rightarrow> string option" where
  "elem_key (YScalar s) = Some s"
| "elem_key (YMap ((k, _) # _)) = Some k"
| "elem_key _ = None"

definition additional_elements :: "yaml list \<Rightarrow> (string \<times> yaml) list" where
  "additional_elements = List.map_filter (\<lambda>e. map_option (\<lambda>k. (k, e)) (elem_key e))"

fun merge_elems ::
  "(string \<times> yaml) list \<Rightarrow> yaml list \<Rightarrow> string list \<Rightarrow> yaml list \<times> string list" where
  "merge_elems additional [] mergedKeys = ([], mergedKeys)"
| "merge_elems additional (elem # elems) mergedKeys =
     (case elem_key elem of
        None \<Rightarrow> apfst ((#) elem) (merge_elems additional elems mergedKeys)
      | Some elemKey \<Rightarrow>
          (case map_of additional elemKey of
             Some item \<Rightarrow> apfst ((#) item) (merge_elems additional elems (elemKey # mergedKeys))
           | None \<Rightarrow> apfst ((#) elem) (merge_elems additional elems mergedKeys)))"

definition merge_sequence :: "yaml list \<Rightarrow> yaml list \<Rightarrow> yaml list" where
  "merge_sequence base additional =
     (let additionalElements = additional_elements additional;
          (mergedSequence, mergedKeys) = merge_elems additionalElements base []
      in mergedSequence @ map snd (filter (\<lambda>(itemKey, _). itemKey \<notin> set mergedKeys) additionalElements))"

text \<open>The body of the inner loop, for one key: the entries of the base node, and what is enqueued.\<close>

definition merge_entry ::
  "(string \<times> yaml) list \<Rightarrow> string \<Rightarrow> yaml \<Rightarrow> (string \<times> yaml) list \<times> (string \<times> yaml) list" where
  "merge_entry kvs key v =
     (case map_of kvs key of
        None \<Rightarrow> (AList.update key v kvs, [])
      | Some bv \<Rightarrow>
          (case (v, bv) of
             (YMap _, YMap _) \<Rightarrow> (kvs, [(key, v)])
           | (YSeq ys, YSeq xs) \<Rightarrow> (AList.update key (YSeq (merge_sequence xs ys)) kvs, [])
           | _ \<Rightarrow> (AList.update key v kvs, [])))"

fun merge_entries ::
  "yaml \<Rightarrow> (string \<times> yaml) list \<Rightarrow> (yaml \<times> (string \<times> yaml) list) result" where
  "merge_entries baseNode [] = Ok (baseNode, [])"
| "merge_entries baseNode ((key, v) # rest) =
     (case to_map baseNode of
        None \<Rightarrow> Throw ''operator[] call on a scalar''
      | Some kvs \<Rightarrow>
          map_result (apsnd ((@) (snd (merge_entry kvs key v))))
            (merge_entries (YMap (fst (merge_entry kvs key v))) rest))"

text \<open>Iterating over a node: only a map has keys; the keys of a non-empty sequence throw.\<close>

fun map_entries :: "yaml \<Rightarrow> (string \<times> yaml) list option" where
  "map_entries (YMap kvs) = Some kvs"
| "map_entries (YSeq (_ # _)) = None"
| "map_entries _ = Some []"

text \<open>References into a document, as paths.\<close>

fun node_at :: "string list \<Rightarrow> yaml \<Rightarrow> yaml option" where
  "node_at [] n = Some n"
| "node_at (k # p) (YMap kvs) = (case map_of kvs k of None \<Rightarrow> None | Some n \<Rightarrow> node_at p n)"
| "node_at (k # p) _ = None"

fun upd_at :: "string list \<Rightarrow> (yaml \<Rightarrow> yaml) \<Rightarrow> yaml \<Rightarrow> yaml" where
  "upd_at [] f n = f n"
| "upd_at (k # p) f (YMap kvs) = YMap (AList.map_entry k (upd_at p f) kvs)"
| "upd_at (k # p) f n = n"

definition entries_size :: "(string \<times> yaml) list \<Rightarrow> nat" where
  "entries_size kvs = sum_list (map (\<lambda>(k, v). Suc (size v)) kvs)"

lemma merge_entry_enqueued: "snd (merge_entry kvs key v) = [] \<or> snd (merge_entry kvs key v) = [(key, v)]"
  by (auto simp: merge_entry_def split: option.splits yaml.splits)

lemma merge_entries_size:
  "merge_entries n kvs = Ok (n', d) \<Longrightarrow> entries_size d \<le> entries_size kvs"
proof (induction n kvs arbitrary: n' d rule: merge_entries.induct)
  case (2 n key v rest)
  then obtain b where b: "to_map n = Some b" by (auto split: option.splits)
  with 2 obtain d' where d': "merge_entries (YMap (fst (merge_entry b key v))) rest = Ok (n', d')"
    "d = snd (merge_entry b key v) @ d'"
    by (cases "merge_entries (YMap (fst (merge_entry b key v))) rest") auto
  from 2(1) [OF b d'(1)] d'(2) merge_entry_enqueued [of b key v] show ?case
    by (auto simp: entries_size_def)
qed (simp add: entries_size_def)

text \<open>The outer loop. An additional node is smaller than the one it is a value of.\<close>

lemma entries_size_less: "entries_size kvs < size (YMap kvs)"
  by (induction kvs) (auto simp: entries_size_def)

lemma entries_size_map: "map_entries a = Some kvs \<Longrightarrow> entries_size kvs \<le> size a"
  using entries_size_less [of kvs]
  by (cases a rule: map_entries.cases) (auto simp: entries_size_def)

function merge_loop :: "yaml \<Rightarrow> (string list \<times> yaml) list \<Rightarrow> yaml result" where
  "merge_loop base [] = Ok base"
| "merge_loop base ((path, additionalNode) # nodesToProcess) =
     (case map_entries additionalNode of
        None \<Rightarrow> Throw ''invalid node''
      | Some kvs \<Rightarrow>
          (case node_at path base of
             None \<Rightarrow> Throw ''invalid node''
           | Some baseNode \<Rightarrow>
               (case merge_entries baseNode kvs of
                  Ok (baseNode', enqueued) \<Rightarrow>
                    merge_loop (upd_at path (\<lambda>_. baseNode') base)
                      (nodesToProcess @ map (\<lambda>(k, v). (path @ [k], v)) enqueued)
                | Throw e \<Rightarrow> Throw e
                | Terminate \<Rightarrow> Terminate)))"
  by pat_completeness auto
termination
proof (relation "measure (\<lambda>(base, q). sum_list (map (\<lambda>(p, a). Suc (size a)) q))", goal_cases)
  case (2 base path a q kvs n x n' d)
  have "sum_list (map ((\<lambda>(p, a). Suc (size a)) \<circ> (\<lambda>(k, v). (path @ [k], v))) d) = entries_size d"
    by (induction d) (auto simp: entries_size_def)
  moreover from 2 merge_entries_size [of n kvs] entries_size_map [of a kvs]
  have "entries_size d \<le> size a" by fastforce
  ultimately show ?case by simp
qed simp

definition MergeYamlNodes :: "yaml \<Rightarrow> yaml \<Rightarrow> yaml result" where
  "MergeYamlNodes baseYaml additionalYaml = merge_loop baseYaml [([], additionalYaml)]"

subsection \<open>Loading\<close>

text \<open>
  The state of the parser. \<open>load\<close> is \<^verbatim>\<open>YAML::LoadFile\<close> on the current file system. In
  \<^verbatim>\<open>LoadSharedConfig\<close> the local \<^verbatim>\<open>tmpConfig\<close> is a second handle on the node of \<^verbatim>\<open>m_config\<close>, since a
  \<^verbatim>\<open>YAML::Node\<close> is a reference: the merges are made in \<^verbatim>\<open>m_config\<close>, one group after the other.
\<close>

record ConfigurationParser =
  m_config :: yaml
  m_configFilePath :: string
  m_getGroups :: "string list option"

type_synonym yaml_files = "string \<Rightarrow> yaml option"

definition IsValidYamlFile :: "yaml_files \<Rightarrow> string \<Rightarrow> bool" where
  "IsValidYamlFile load configFile =
     (case load configFile of Some (YMap _) \<Rightarrow> True | Some (YSeq _) \<Rightarrow> True | _ \<Rightarrow> False)"

definition LoadLocalConfig :: "yaml_files \<Rightarrow> ConfigurationParser \<Rightarrow> ConfigurationParser" where
  "LoadLocalConfig load c =
     c\<lparr>m_config :=
         (if IsValidYamlFile load (m_configFilePath c)
          then (case load (m_configFilePath c) of Some y \<Rightarrow> y | None \<Rightarrow> YNull)
          else YNull)\<rparr>"

text \<open>
  \<open>group_file\<close> is the path of a group's file. The loop ends at the first group whose file does not
  load or does not merge; the flag says whether that happened. Documents are trees of values: the nodes of
  one file are not shared with another's, and aliases to anchors inside a file are read as copies.
\<close>

fun load_groups :: "yaml_files \<Rightarrow> (string \<Rightarrow> string) \<Rightarrow> string list \<Rightarrow> yaml \<Rightarrow> yaml \<times> bool" where
  "load_groups load group_file [] cfg = (cfg, True)"
| "load_groups load group_file (groupId # groupIds) cfg =
     (case load (group_file groupId) of
        None \<Rightarrow> (cfg, False)
      | Some fileToAppend \<Rightarrow>
          if cfg = YNull then load_groups load group_file groupIds fileToAppend
          else (case MergeYamlNodes cfg fileToAppend of
                  Ok cfg' \<Rightarrow> load_groups load group_file groupIds cfg'
                | _ \<Rightarrow> (cfg, False)))"

definition LoadSharedConfig ::
  "yaml_files \<Rightarrow> (string \<Rightarrow> string) \<Rightarrow> ConfigurationParser \<Rightarrow> ConfigurationParser" where
  "LoadSharedConfig load group_file c =
     (case m_getGroups c of
        None \<Rightarrow> c
      | Some groupIds \<Rightarrow> c\<lparr>m_config := fst (load_groups load group_file groupIds (m_config c))\<rparr>)"

definition SetGetGroupIdsFunction ::
  "yaml_files \<Rightarrow> (string \<Rightarrow> string) \<Rightarrow> string list \<Rightarrow> ConfigurationParser \<Rightarrow> ConfigurationParser" where
  "SetGetGroupIdsFunction load group_file groups c =
     LoadSharedConfig load group_file (c\<lparr>m_getGroups := Some groups\<rparr>)"

definition ReloadConfiguration ::
  "yaml_files \<Rightarrow> (string \<Rightarrow> string) \<Rightarrow> ConfigurationParser \<Rightarrow> ConfigurationParser" where
  "ReloadConfiguration load group_file c =
     LoadSharedConfig load group_file (LoadLocalConfig load (c\<lparr>m_config := YNull\<rparr>))"

text \<open>\<^verbatim>\<open>m_config["agent"]["server_url"] = value\<close>, and the document that is written to the file.\<close>

definition put_key :: "string \<Rightarrow> yaml \<Rightarrow> yaml \<Rightarrow> yaml option" where
  "put_key k v n = map_option (\<lambda>kvs. YMap (AList.update k v kvs)) (to_map n)"

definition SetServerURL :: "string \<Rightarrow> ConfigurationParser \<Rightarrow> ConfigurationParser \<times> yaml option" where
  "SetServerURL url c =
     (case to_map (m_config c) of
        None \<Rightarrow> (c, None)
      | Some kvs \<Rightarrow>
          let agent = (case map_of kvs ''agent'' of None \<Rightarrow> YNull | Some a \<Rightarrow> a) in
          (case put_key ''server_url'' (YScalar url) agent of
             None \<Rightarrow> (c\<lparr>m_config := YMap kvs\<rparr>, None)
           | Some agent' \<Rightarrow>
               let cfg = YMap (AList.update ''agent'' agent' kvs)
               in (c\<lparr>m_config := cfg\<rparr>, Some cfg)))"

subsection \<open>The recursive merge\<close>

text \<open>What the loop computes. Keys are merged one after the other; two maps are merged recursively.\<close>

function merge_kvs :: "(string \<times> yaml) list \<Rightarrow> (string \<times> yaml) list \<Rightarrow> (string \<times> yaml) list"
  and merge_val :: "yaml \<Rightarrow> yaml \<Rightarrow> yaml" where
  "merge_kvs base [] = base"
| "merge_kvs base ((k, v) # rest) =
     merge_kvs (AList.update k (case map_of base k of None \<Rightarrow> v | Some bv \<Rightarrow> merge_val bv v) base) rest"
| "merge_val bv v =
     (case (v, bv) of
        (YMap a, YMap b) \<Rightarrow> YMap (merge_kvs b a)
      | (YSeq ys, YSeq xs) \<Rightarrow> YSeq (merge_sequence xs ys)
      | _ \<Rightarrow> v)"
  by pat_completeness auto
termination
proof (relation "measure (\<lambda>x. case x of Inl (b, a) \<Rightarrow> Suc (entries_size a) | Inr (b, v) \<Rightarrow> Suc (size v))",
    goal_cases)
  case (4 bv v x y a b)
  then show ?case using entries_size_less [of a] by simp
qed (simp_all add: entries_size_def)

text \<open>A document in which no map has a key twice, as YAML demands.\<close>

fun keys_distinct :: "yaml \<Rightarrow> bool" where
  "keys_distinct (YMap kvs) \<longleftrightarrow> distinct (map fst kvs) \<and> list_all (\<lambda>(_, v). keys_distinct v) kvs"
| "keys_distinct _ \<longleftrightarrow> True"

subsection \<open>Entries and references\<close>

lemma map_of_map_entry: "map_of (AList.map_entry k f kvs) k' =
    (if k' = k then map_option f (map_of kvs k) else map_of kvs k')"
  by (induction kvs) auto

lemma map_entry_cong_Some: "map_of b k = Some x \<Longrightarrow> f x = g x \<Longrightarrow> AList.map_entry k f b = AList.map_entry k g b"
  by (induction b) auto

lemma map_entry_None: "map_of b k = None \<Longrightarrow> AList.map_entry k f b = b"
  by (induction b) auto

lemma map_entry_update: "map_of b k = Some x \<Longrightarrow> AList.map_entry k f b = AList.update k (f x) b"
  by (induction b) auto

lemma map_entry_comp: "AList.map_entry k f (AList.map_entry k g b) = AList.map_entry k (\<lambda>x. f (g x)) b"
  by (induction b) auto

lemma map_entry_commute:
  "k \<noteq> k' \<Longrightarrow> AList.map_entry k f (AList.map_entry k' g b) = AList.map_entry k' g (AList.map_entry k f b)"
  by (induction b) auto

lemma map_entry_update_commute:
  "k \<noteq> k' \<Longrightarrow> AList.map_entry k f (AList.update k' v b) = AList.update k' v (AList.map_entry k f b)"
  by (induction b) auto

lemma upd_at_append: "upd_at (p @ q) f n = upd_at p (upd_at q f) n"
proof (induction p arbitrary: n)
  case (Cons k p)
  then have "upd_at (p @ q) f = upd_at p (upd_at q f)" by blast
  then show ?case by (cases n) simp_all
qed simp

lemma upd_at_comp: "upd_at p f (upd_at p g n) = upd_at p (\<lambda>x. f (g x)) n"
proof (induction p arbitrary: n)
  case (Cons k p)
  then show ?case by (cases n) (simp_all add: map_entry_comp)
qed simp

lemma upd_at_commute:
  "p \<parallel> q \<Longrightarrow> upd_at p f (upd_at q g n) = upd_at q g (upd_at p f n)"
proof (induction p arbitrary: q n)
  case (Cons k p)
  then obtain k' q' where q: "q = k' # q'" by (cases q) auto
  show ?case
  proof (cases "k = k'")
    case True
    with Cons q have "p \<parallel> q'" by (auto simp: parallel_def)
    with Cons.IH [OF this] True q show ?thesis by (cases n) (simp_all add: map_entry_comp)
  next
    case False
    with q show ?thesis by (cases n) (simp_all add: map_entry_commute)
  qed
qed simp

lemma upd_at_cong: "node_at p n = Some m \<Longrightarrow> f m = g m \<Longrightarrow> upd_at p f n = upd_at p g n"
proof (induction p n rule: node_at.induct)
  case (2 k p kvs)
  then show ?case by (auto split: option.splits intro: map_entry_cong_Some)
qed auto

lemma node_at_upd: "node_at p n \<noteq> None \<Longrightarrow> node_at (p @ q) (upd_at p f n) = node_at q (f (the (node_at p n)))"
proof (induction p n rule: node_at.induct)
  case (2 k p kvs)
  then show ?case by (auto simp: map_of_map_entry split: option.splits)
qed auto

lemma node_at_upd_other: "p \<parallel> q \<Longrightarrow> node_at q (upd_at p f n) = node_at q n"
proof (induction p arbitrary: q n)
  case (Cons k p)
  then obtain k' q' where q: "q = k' # q'" by (cases q) auto
  show ?case
  proof (cases "k = k'")
    case True
    with Cons q have "p \<parallel> q'" by (auto simp: parallel_def)
    with Cons.IH [OF this] True q show ?thesis
      by (cases n) (simp_all add: map_of_map_entry split: option.splits)
  next
    case False
    with q show ?thesis by (cases n) (simp_all add: map_of_map_entry)
  qed
qed simp

text \<open>What the enqueued pairs will do, to a node and to the whole document.\<close>

definition merge_deferred :: "(string \<times> yaml) list \<Rightarrow> yaml \<Rightarrow> yaml" where
  "merge_deferred d = fold (\<lambda>(k, v). upd_at [k] (\<lambda>m. merge_val m v)) d"

definition merge_queue :: "(string list \<times> yaml) list \<Rightarrow> yaml \<Rightarrow> yaml" where
  "merge_queue q = fold (\<lambda>(p, a). upd_at p (\<lambda>m. merge_val m a)) q"

declare merge_val.simps [simp del]

lemma merge_val_map [simp]: "merge_val (YMap b) (YMap a) = YMap (merge_kvs b a)"
  by (simp add: merge_val.simps)

lemma merge_entry_spec:
  "merge_deferred (snd (merge_entry b k v)) (YMap (fst (merge_entry b k v))) =
     YMap (AList.update k (case map_of b k of None \<Rightarrow> v | Some bv \<Rightarrow> merge_val bv v) b)"
  by (auto simp: merge_entry_def merge_deferred_def merge_val.simps map_entry_update
      split: option.splits yaml.splits)

lemma merge_entry_cases:
  "(snd (merge_entry b k v) = []) \<or>
   (snd (merge_entry b k v) = [(k, v)] \<and> fst (merge_entry b k v) = b \<and>
     (\<exists>a m. v = YMap a \<and> map_of b k = Some (YMap m)))"
  by (auto simp: merge_entry_def split: option.splits yaml.splits)

lemma merge_kvs_map_entry:
  "k \<notin> fst ` set a \<Longrightarrow> AList.map_entry k f (merge_kvs b a) = merge_kvs (AList.map_entry k f b) a"
proof (induction a arbitrary: b)
  case (Cons kv a)
  obtain k' v where kv: "kv = (k', v)" by (cases kv)
  with Cons.prems have "k' \<noteq> k" by auto
  with Cons kv show ?case by (simp add: map_entry_update_commute map_of_map_entry)
qed simp

lemma merge_deferred_commute:
  "k \<notin> fst ` set d \<Longrightarrow> upd_at [k] f (merge_deferred d n) = merge_deferred d (upd_at [k] f n)"
proof (induction d arbitrary: n)
  case (Cons kv d)
  obtain k' v where kv: "kv = (k', v)" by (cases kv)
  have "upd_at [k] f (upd_at [k'] g n) = upd_at [k'] g (upd_at [k] f n)" for g n
    using Cons.prems kv by (intro upd_at_commute) auto
  with Cons kv show ?case by (simp add: merge_deferred_def)
qed (simp add: merge_deferred_def)

text \<open>One round on a map, and then its enqueued pairs, is the recursive merge of that map.\<close>

lemma merge_entries_spec:
  assumes "distinct (map fst kvs)"
  shows "\<exists>b' d. merge_entries (YMap b) kvs = Ok (YMap b', d) \<and> set d \<subseteq> set kvs \<and> distinct (map fst d) \<and>
    (\<forall>k. k \<notin> fst ` set kvs \<longrightarrow> map_of b' k = map_of b k) \<and>
    (\<forall>(k, v)\<in>set d. \<exists>a m. v = YMap a \<and> map_of b' k = Some (YMap m)) \<and>
    merge_deferred d (YMap b') = YMap (merge_kvs b kvs)"
  using assms
proof (induction kvs arbitrary: b)
  case Nil
  then show ?case by (simp add: merge_deferred_def)
next
  case (Cons kv kvs)
  obtain k v where kv: "kv = (k, v)" by (cases kv)
  let ?b = "fst (merge_entry b k v)" and ?d = "snd (merge_entry b k v)"
  from Cons.prems have "distinct (map fst kvs)" by simp
  from Cons.IH [OF this, of ?b] obtain b' d where IH: "merge_entries (YMap ?b) kvs = Ok (YMap b', d)" "set d \<subseteq> set kvs"
    "distinct (map fst d)" "\<forall>k. k \<notin> fst ` set kvs \<longrightarrow> map_of b' k = map_of ?b k"
    "\<forall>(k, v)\<in>set d. \<exists>a m. v = YMap a \<and> map_of b' k = Some (YMap m)"
    "merge_deferred d (YMap b') = YMap (merge_kvs ?b kvs)" by blast
  have new: "k \<notin> fst ` set kvs" using Cons.prems kv by simp
  then have new_d: "k \<notin> fst ` set d" using IH(2) by auto
  have run: "merge_entries (YMap b) (kv # kvs) = Ok (YMap b', ?d @ d)" using IH(1) kv by simp
  have other: "map_of ?b k' = map_of b k'" if "k' \<noteq> k" for k'
    using that by (auto simp: merge_entry_def update_conv' split: option.splits yaml.splits)
  from merge_entry_cases [of b k v] show ?case
  proof (elim disjE conjE exE)
    assume "?d = []"
    with merge_entry_spec [of b k v] have
      "YMap ?b = YMap (AList.update k (case map_of b k of None \<Rightarrow> v | Some bv \<Rightarrow> merge_val bv v) b)"
      by (simp add: merge_deferred_def)
    with IH run \<open>?d = []\<close> kv other show ?thesis
      by (intro exI [of _ b'] exI [of _ d]) auto
  next
    fix a m assume d: "?d = [(k, v)]" and b: "?b = b" and v: "v = YMap a" and m: "map_of b k = Some (YMap m)"
    have "merge_deferred (?d @ d) (YMap b') = upd_at [k] (\<lambda>m. merge_val m v) (merge_deferred d (YMap b'))"
      using d merge_deferred_commute [OF new_d] by (simp add: merge_deferred_def)
    also have "\<dots> = YMap (merge_kvs b (kv # kvs))"
      using IH(6) b kv m new by (simp add: merge_kvs_map_entry map_entry_update)
    finally have "merge_deferred (?d @ d) (YMap b') = YMap (merge_kvs b (kv # kvs))" .
    moreover have "map_of b' k = Some (YMap m)" using IH(4) new b m by simp
    ultimately show ?thesis
      using IH run d v b kv new_d by (intro exI [of _ b'] exI [of _ "?d @ d"]) auto
  qed
qed

subsection \<open>The loop is the recursive merge\<close>

text \<open>The queue: pairs of maps, at places of the base document none of which is inside another.\<close>

definition queue_ok :: "yaml \<Rightarrow> (string list \<times> yaml) list \<Rightarrow> bool" where
  "queue_ok base q \<longleftrightarrow>
     (\<forall>(p, a)\<in>set q. (\<exists>kvs. a = YMap kvs) \<and> keys_distinct a \<and> (\<exists>b. node_at p base = Some (YMap b))) \<and>
     sorted_wrt (\<parallel>) (map fst q)"

lemma merge_queue_children:
  "merge_queue (map (\<lambda>(k, v). (p @ [k], v)) d) t = upd_at p (merge_deferred d) t"
proof (induction d arbitrary: t)
  case Nil
  have "upd_at p (\<lambda>x. x) t = t"
  proof (induction p arbitrary: t)
    case (Cons k p)
    then have "upd_at p (\<lambda>x. x) = (\<lambda>x. x)" by blast
    moreover have "AList.map_entry k (\<lambda>x. x) kvs = kvs" for kvs :: "(string \<times> yaml) list"
      by (induction kvs) auto
    ultimately show ?case by (cases t) simp_all
  qed simp
  then show ?case by (simp add: merge_queue_def merge_deferred_def id_def)
next
  case (Cons kv d)
  then show ?case
    by (cases kv) (simp add: merge_queue_def merge_deferred_def upd_at_append upd_at_comp o_def)
qed

lemma merge_queue_commute:
  "\<forall>(p', a)\<in>set q. p \<parallel> p' \<Longrightarrow> merge_queue q (upd_at p f t) = upd_at p f (merge_queue q t)"
proof (induction q arbitrary: t)
  case (Cons x q)
  obtain p' a where x: "x = (p', a)" by (cases x)
  with Cons.prems have "upd_at p' g (upd_at p f t) = upd_at p f (upd_at p' g t)" for g
    using upd_at_commute [of p p'] by auto
  with Cons x show ?case by (simp add: merge_queue_def)
qed (simp add: merge_queue_def)

lemma queue_ok_step:
  assumes q: "queue_ok base ((p, YMap kvs) # q)" and b: "node_at p base = Some (YMap b)"
    and run: "merge_entries (YMap b) kvs = Ok (YMap b', d)" "set d \<subseteq> set kvs" "distinct (map fst d)"
      "\<forall>(k, v)\<in>set d. \<exists>a m. v = YMap a \<and> map_of b' k = Some (YMap m)"
  shows "queue_ok (upd_at p (\<lambda>_. YMap b') base) (q @ map (\<lambda>(k, v). (p @ [k], v)) d)"
proof -
  have par: "p \<parallel> p'" if "(p', a) \<in> set q" for p' a using q that by (auto simp: queue_ok_def)
  have old: "(\<exists>kvs. a = YMap kvs) \<and> keys_distinct a \<and>
      (\<exists>b. node_at p' (upd_at p (\<lambda>_. YMap b') base) = Some (YMap b))" if "(p', a) \<in> set q" for p' a
    using q that par [OF that] by (auto simp: queue_ok_def node_at_upd_other)
  have new: "(\<exists>kvs. v = YMap kvs) \<and> keys_distinct v \<and>
      (\<exists>b. node_at (p @ [k]) (upd_at p (\<lambda>_. YMap b') base) = Some (YMap b))" if "(k, v) \<in> set d" for k v
  proof -
    from that run(2) q have "keys_distinct v" by (fastforce simp: queue_ok_def list_all_iff)
    moreover have "node_at (p @ [k]) (upd_at p (\<lambda>_. YMap b') base) = node_at [k] (YMap b')"
      using b by (simp add: node_at_upd)
    ultimately show ?thesis using that run(4) by fastforce
  qed
  have "sorted_wrt (\<parallel>) (map (\<lambda>x. p @ [fst x]) d)"
    using run(3) by (induction d) (force simp: parallel_def)+
  moreover have "p' \<parallel> p @ [k]" if "(p', a) \<in> set q" for p' a k
    using par [OF that] by (auto simp: parallel_def prefix_snoc dest: append_prefixD)
  ultimately have "sorted_wrt (\<parallel>) (map fst (q @ map (\<lambda>(k, v). (p @ [k], v)) d))"
    using q by (auto simp: queue_ok_def sorted_wrt_append o_def case_prod_beta)
  with old new show ?thesis by (fastforce simp: queue_ok_def)
qed

lemma merge_loop_spec: "queue_ok base q \<Longrightarrow> merge_loop base q = Ok (merge_queue q base)"
proof (induction base q rule: merge_loop.induct)
  case (2 base p a q)
  from "2.prems" obtain kvs b where a: "a = YMap kvs" and b: "node_at p base = Some (YMap b)"
    and dist: "distinct (map fst kvs)" by (auto simp: queue_ok_def)
  from merge_entries_spec [OF dist, of b] obtain b' d where
    run: "merge_entries (YMap b) kvs = Ok (YMap b', d)" "set d \<subseteq> set kvs" "distinct (map fst d)"
      "\<forall>(k, v)\<in>set d. \<exists>a m. v = YMap a \<and> map_of b' k = Some (YMap m)"
    and spec: "merge_deferred d (YMap b') = YMap (merge_kvs b kvs)" by blast
  let ?base = "upd_at p (\<lambda>_. YMap b') base" and ?ch = "map (\<lambda>(k, v). (p @ [k], v)) d"
  have "queue_ok ?base (q @ ?ch)" using "2.prems" b run by (simp add: a queue_ok_step)
  then have "merge_loop ?base (q @ ?ch) = Ok (merge_queue (q @ ?ch) ?base)"
    using "2.IH" a b run(1) by simp
  then have "merge_loop base ((p, a) # q) = Ok (merge_queue (q @ ?ch) ?base)"
    using a b run(1) by simp
  also have "merge_queue (q @ ?ch) ?base = upd_at p (merge_deferred d) (merge_queue q ?base)"
    using merge_queue_children [of p d] by (simp add: merge_queue_def)
  also have "\<dots> = merge_queue q (upd_at p (merge_deferred d) ?base)"
    using "2.prems" by (subst merge_queue_commute) (auto simp: queue_ok_def)
  also have "upd_at p (merge_deferred d) ?base = upd_at p (\<lambda>m. merge_val m a) base"
    unfolding upd_at_comp using b by (rule upd_at_cong) (simp add: spec a)
  finally show ?case by (simp add: merge_queue_def)
qed (simp add: merge_queue_def)

definition merge_spec :: "yaml \<Rightarrow> yaml \<Rightarrow> yaml result" where
  "merge_spec base additional =
     (case map_entries additional of
        None \<Rightarrow> Throw ''invalid node''
      | Some [] \<Rightarrow> Ok base
      | Some kvs \<Rightarrow>
          (case to_map base of
             None \<Rightarrow> Throw ''operator[] call on a scalar''
           | Some b \<Rightarrow> Ok (YMap (merge_kvs b kvs))))"

lemma merge_entries_to_map:
  "kvs \<noteq> [] \<Longrightarrow> to_map base = Some b \<Longrightarrow> merge_entries base kvs = merge_entries (YMap b) kvs"
  by (cases kvs) auto

lemma merge_loop_map:
  assumes "keys_distinct (YMap kvs)"
  shows "merge_loop (YMap b) [([], YMap kvs)] = Ok (YMap (merge_kvs b kvs))"
  using merge_loop_spec [of "YMap b" "[([], YMap kvs)]"] assms
  by (simp add: queue_ok_def merge_queue_def)

text \<open>
  C2: the queue-driven loop of \<^verbatim>\<open>MergeYamlNodes\<close> terminates and computes the recursive merge of the two
  documents: keys only in the additional document are added, two maps are merged key by key, two
  sequences by the keys of their elements, and any other value of the base is replaced; it throws
  exactly on a base that is a scalar and on an additional document that is a non-empty sequence.
\<close>

theorem MergeYamlNodes_rec:
  assumes "keys_distinct additional"
  shows "MergeYamlNodes base additional = merge_spec base additional"
proof (cases "map_entries additional")
  case (Some kvs)
  show ?thesis
  proof (cases kvs)
    case (Cons kv rest)
    with Some have a: "additional = YMap kvs" by (cases additional rule: map_entries.cases) auto
    show ?thesis
    proof (cases "to_map base")
      case None
      with a Cons show ?thesis by (cases kv) (simp add: MergeYamlNodes_def merge_spec_def)
    next
      case (Some b)
      with a Cons have "merge_loop base [([], additional)] = merge_loop (YMap b) [([], additional)]"
        using merge_entries_to_map [of kvs base b] by (simp split: result.splits prod.splits)
      with merge_loop_map [of kvs b] assms a Some Cons show ?thesis
        by (simp add: MergeYamlNodes_def merge_spec_def)
    qed
  qed (use Some in \<open>simp add: MergeYamlNodes_def merge_spec_def\<close>)
qed (simp add: MergeYamlNodes_def merge_spec_def)

theorem MergeYamlNodes_rec_witness:
  "MergeYamlNodes
     (YMap [(''a'', YMap [(''x'', YScalar ''1''), (''y'', YScalar ''2'')]), (''l'', YSeq [YScalar ''p''])])
     (YMap [(''a'', YMap [(''y'', YScalar ''3''), (''z'', YScalar ''4'')]), (''b'', YNull)]) =
   Ok (YMap [(''a'', YMap [(''x'', YScalar ''1''), (''y'', YScalar ''3''), (''z'', YScalar ''4'')]),
             (''l'', YSeq [YScalar ''p'']), (''b'', YNull)])"
  by (subst MergeYamlNodes_rec) (simp_all add: merge_spec_def merge_val.simps)

subsection \<open>Sequences\<close>

text \<open>What a base element becomes, and the elements that are appended.\<close>

definition merged_elem :: "(string \<times> yaml) list \<Rightarrow> yaml \<Rightarrow> yaml" where
  "merged_elem additional e =
     (case elem_key e of
        None \<Rightarrow> e
      | Some k \<Rightarrow> (case map_of additional k of None \<Rightarrow> e | Some e' \<Rightarrow> e'))"

lemma merge_elems_fst: "fst (merge_elems add es ks) = map (merged_elem add) es"
  by (induction add es ks rule: merge_elems.induct) (auto simp: merged_elem_def split: option.splits)

lemma merge_elems_snd:
  "k \<in> fst ` set add \<Longrightarrow>
     k \<in> set (snd (merge_elems add es ks)) \<longleftrightarrow> k \<in> set ks \<or> Some k \<in> elem_key ` set es"
proof (induction add es ks rule: merge_elems.induct)
  case (2 add e es ks)
  show ?case
  proof (cases "elem_key e")
    case (Some a)
    have "a \<noteq> k" if "map_of add a = None" using that "2.prems" by (auto simp: map_of_eq_None_iff)
    with 2 Some show ?thesis by (cases "map_of add a") (auto simp del: map_of_eq_None_iff)
  qed (use 2 in simp)
qed simp

text \<open>
  C7: merging two sequences keeps the length and the order of the base sequence: each base element is
  replaced by the additional element with the same key, if there is one, and stays otherwise; after
  them come, in their order, the additional elements whose key no base element has. An additional
  element without a key (a null, a sequence, an empty map) is dropped.
\<close>

theorem merge_sequence_spec:
  "merge_sequence base additional =
     map (merged_elem (additional_elements additional)) base @
     filter (\<lambda>e. elem_key e \<noteq> None \<and> elem_key e \<notin> elem_key ` set base) additional"
proof -
  let ?add = "additional_elements additional"
  have "map snd (filter (\<lambda>(k, _). k \<notin> set (snd (merge_elems ?add base []))) ?add) =
      map snd (filter (\<lambda>x. Some (fst x) \<notin> elem_key ` set base) ?add)"
  proof (intro arg_cong [where f = "map snd"] filter_cong refl)
    fix x assume "x \<in> set ?add"
    then have "fst x \<in> fst ` set ?add" by blast
    then show "(case x of (k, _) \<Rightarrow> k \<notin> set (snd (merge_elems ?add base []))) \<longleftrightarrow>
        Some (fst x) \<notin> elem_key ` set base"
      using merge_elems_snd [of "fst x" ?add base "[]"] by (simp add: case_prod_beta)
  qed
  also have "\<dots> = filter (\<lambda>e. elem_key e \<noteq> None \<and> elem_key e \<notin> elem_key ` set base) additional"
    unfolding additional_elements_def by (induction additional) (auto split: option.splits)
  finally show ?thesis by (simp add: merge_sequence_def Let_def case_prod_beta merge_elems_fst)
qed

subsection \<open>Units and ranges\<close>

definition time_units :: "(string \<times> nat) list" where
  "time_units = [(''ms'', 1), (''s'', 1000), (''m'', 60000), (''h'', 3600000), (''d'', 86400000), ([], 1000)]"

definition size_units :: "(string \<times> nat) list" where
  "size_units = [(''K'', 10 ^ 3), (''KB'', 10 ^ 3), (''M'', 10 ^ 6), (''MB'', 10 ^ 6), (''G'', 10 ^ 9),
     (''GB'', 10 ^ 9), (''B'', 1), ([], 1)]"

lemma ends_with_digits:
  assumes "list_all isdigit ds" "\<not> isdigit (last p)" "p \<noteq> []"
  shows "\<not> ends_with ds p"
proof
  assume "ends_with ds p"
  then obtain zs where "ds = zs @ p" by (auto simp: ends_with_iff)
  with assms show False by (simp add: list_all_iff)
qed

lemma ends_with_snoc [simp]:
  "ends_with (ds @ [c]) [c'] \<longleftrightarrow> c = c'"
  "ends_with (ds @ [c]) [a, c'] \<longleftrightarrow> c = c' \<and> ends_with ds [a]"
  "ends_with (ds @ [b, c]) [c'] \<longleftrightarrow> c = c'"
  "ends_with (ds @ [b, c]) [a, c'] \<longleftrightarrow> c = c' \<and> a = b"
  by (auto simp: ends_with_def suffix_def append_eq_append_conv2 Cons_eq_append_conv)

lemma without_suffix_append [simp]: "length u = n \<Longrightarrow> without_suffix (s @ u) n = s"
  by (simp add: without_suffix_def)

lemma ends_with_split: "ends_with s u \<Longrightarrow> length u = n \<Longrightarrow> s = without_suffix s n @ u"
  by (auto simp: ends_with_iff without_suffix_def)

lemma ends_with_ex: "ends_with s u \<Longrightarrow> length u = n \<Longrightarrow> Q u \<Longrightarrow> \<exists>u. s = without_suffix s n @ u \<and> Q u"
  using ends_with_split by blast

lemma digit_letters [simp]:
  "\<not> isdigit (CHR ''s'')" "\<not> isdigit (CHR ''m'')" "\<not> isdigit (CHR ''h'')" "\<not> isdigit (CHR ''d'')"
  "\<not> isdigit (CHR ''K'')" "\<not> isdigit (CHR ''M'')" "\<not> isdigit (CHR ''G'')" "\<not> isdigit (CHR ''B'')"
  by (simp_all add: isdigit_def)

lemma time_unit_append:
  "list_all isdigit ds \<Longrightarrow> (u, m) \<in> set time_units \<Longrightarrow> time_unit (ds @ u) = (ds, m)"
  by (auto simp: time_unit_def time_units_def unit_defs ends_with_digits)

lemma time_unit_cases: "time_unit s = (ds, m) \<Longrightarrow> \<exists>u. s = ds @ u \<and> (u, m) \<in> set time_units"
  by (auto simp: time_unit_def time_units_def unit_defs split: if_splits intro: ends_with_split ends_with_ex)

lemma size_unit_append:
  "list_all isdigit ds \<Longrightarrow> (u, m) \<in> set size_units \<Longrightarrow> size_unit (ds @ u) = (ds, m)"
  apply (simp add: size_units_def)
  apply (elim disjE conjE)
         apply (simp_all add: size_unit_def unit_defs ends_with_digits)
  done

lemma size_unit_cases: "size_unit s = (ds, m) \<Longrightarrow> \<exists>u. s = ds @ u \<and> (u, m) \<in> set size_units"
  by (auto simp: size_unit_def size_units_def unit_defs split: if_splits intro: ends_with_split ends_with_ex)

lemma stoul_Ok: "stoul s = Ok w \<longleftrightarrow> s \<noteq> [] \<and> val_dec s < 2 ^ 64 \<and> w = of_nat (val_dec s)"
  by (auto simp: stoul_def)

lemma map_result_Ok: "map_result f r = Ok y \<longleftrightarrow> (\<exists>x. r = Ok x \<and> y = f x)"
  by (cases r) auto

lemma uint_word_product: "uint (of_nat a * of_nat m :: 64 word) = int (a * m mod 2 ^ 64)"
proof -
  have "of_nat a * of_nat m = (of_nat (a * m) :: 64 word)" by simp
  then show ?thesis by (simp only: uint_nat unat_of_nat) simp
qed

lemma parse_no_terminate: "ParseTimeUnit s \<noteq> Terminate" "ParseSizeUnit s \<noteq> Terminate"
  by (auto simp: ParseTimeUnit_def ParseSizeUnit_def stoul_def split: prod.splits)

lemmas parse_eval = ParseTimeUnit_def ParseSizeUnit_def time_unit_def size_unit_def without_suffix_def
  unit_defs stoul_def ends_with_def suffix_def isdigit_def val_dec_def digit_val_def

text \<open>
  C6: a time setting parses exactly when it is a non-empty decimal number below \<open>2 ^ 64\<close> followed by one
  of the units ms, s, m, h, d or by nothing, and its value is the number of milliseconds, reduced to
  a signed 64-bit integer.
\<close>

theorem ParseTimeUnit_iff:
  "ParseTimeUnit s = Ok v \<longleftrightarrow>
     (\<exists>ds u m. s = ds @ u \<and> (u, m) \<in> set time_units \<and> ds \<noteq> [] \<and> list_all isdigit ds \<and>
        val_dec ds < 2 ^ 64 \<and> v = sint (of_nat (val_dec ds * m) :: 64 word))"
proof
  assume "ParseTimeUnit s = Ok v"
  then obtain ds m where *: "time_unit s = (ds, m)" "list_all isdigit ds" "ds \<noteq> []" "val_dec ds < 2 ^ 64"
    "v = sint (of_nat (val_dec ds) * of_nat m :: 64 word)"
    by (auto simp: ParseTimeUnit_def map_result_Ok stoul_Ok split: if_splits prod.splits)
  from time_unit_cases [OF *(1)] obtain u where "s = ds @ u" "(u, m) \<in> set time_units" by blast
  with * show "\<exists>ds u m. s = ds @ u \<and> (u, m) \<in> set time_units \<and> ds \<noteq> [] \<and> list_all isdigit ds \<and>
        val_dec ds < 2 ^ 64 \<and> v = sint (of_nat (val_dec ds * m) :: 64 word)"
    by (intro exI [of _ ds] exI [of _ u] exI [of _ m]) simp
next
  assume "\<exists>ds u m. s = ds @ u \<and> (u, m) \<in> set time_units \<and> ds \<noteq> [] \<and> list_all isdigit ds \<and>
        val_dec ds < 2 ^ 64 \<and> v = sint (of_nat (val_dec ds * m) :: 64 word)"
  then obtain ds u m where *: "s = ds @ u" "(u, m) \<in> set time_units" "ds \<noteq> []" "list_all isdigit ds"
    "val_dec ds < 2 ^ 64" "v = sint (of_nat (val_dec ds * m) :: 64 word)" by blast
  then show "ParseTimeUnit s = Ok v"
    using time_unit_append [OF *(4,2)] by (simp add: ParseTimeUnit_def stoul_def)
qed

text \<open>
  A size setting parses exactly when it is a non-empty decimal number below \<open>2 ^ 64\<close> followed by one
  of the units K, KB, M, MB, G, GB, B or by nothing, and its value is the number of bytes modulo
  \<open>2 ^ 64\<close>.
\<close>

theorem ParseSizeUnit_iff:
  "ParseSizeUnit s = Ok v \<longleftrightarrow>
     (\<exists>ds u m. s = ds @ u \<and> (u, m) \<in> set size_units \<and> ds \<noteq> [] \<and> list_all isdigit ds \<and>
        val_dec ds < 2 ^ 64 \<and> v = int (val_dec ds * m mod 2 ^ 64))"
proof
  assume "ParseSizeUnit s = Ok v"
  then obtain ds m where *: "size_unit s = (ds, m)" "list_all isdigit ds" "ds \<noteq> []" "val_dec ds < 2 ^ 64"
    "v = uint (of_nat (val_dec ds) * of_nat m :: 64 word)"
    by (auto simp: ParseSizeUnit_def map_result_Ok stoul_Ok split: if_splits prod.splits)
  from size_unit_cases [OF *(1)] obtain u where "s = ds @ u" "(u, m) \<in> set size_units" by blast
  with * show "\<exists>ds u m. s = ds @ u \<and> (u, m) \<in> set size_units \<and> ds \<noteq> [] \<and> list_all isdigit ds \<and>
        val_dec ds < 2 ^ 64 \<and> v = int (val_dec ds * m mod 2 ^ 64)"
    by (intro exI [of _ ds] exI [of _ u] exI [of _ m]) (simp add: uint_word_product)
next
  assume "\<exists>ds u m. s = ds @ u \<and> (u, m) \<in> set size_units \<and> ds \<noteq> [] \<and> list_all isdigit ds \<and>
        val_dec ds < 2 ^ 64 \<and> v = int (val_dec ds * m mod 2 ^ 64)"
  then obtain ds u m where *: "s = ds @ u" "(u, m) \<in> set size_units" "ds \<noteq> []" "list_all isdigit ds"
    "val_dec ds < 2 ^ 64" "v = int (val_dec ds * m mod 2 ^ 64)" by blast
  then show "ParseSizeUnit s = Ok v"
    using size_unit_append [OF *(4,2)] by (simp add: ParseSizeUnit_def stoul_def uint_word_product)
qed

lemma parsed_in_range:
  assumes "f d = Ok x" "lower \<le> x" "x \<le> upper" "\<And>s. f s \<noteq> Terminate"
  shows "\<exists>v. GetParsedConfigInRangeOrDefault as d lower upper f keys cfg = Ok v \<and> lower \<le> v \<and> v \<le> upper"
  using assms by (auto simp: GetParsedConfigInRangeOrDefault_def split: option.splits result.splits)

text \<open>
  C5: whatever the configuration document holds (a missing key, a value that does not parse, a value out
  of range, no document at all), a time or size setting comes out in its range and reading it throws
  nothing, provided that the range is not empty and that the default parses to a value inside it.
  The timeout of the requests for commands has an empty range and is not such a setting.
\<close>

theorem config_in_range:
  assumes "lower \<le> upper"
    and "ParseTimeUnit dt = Ok t" "lower \<le> t" "t \<le> upper"
    and "ParseSizeUnit ds = Ok n" "lower \<le> n" "n \<le> upper"
  shows "(\<exists>v. GetTimeConfigInRangeOrDefault as dt lower upper keys cfg = Ok v \<and> lower \<le> v \<and> v \<le> upper) \<and>
    (\<exists>v. GetBytesConfigInRangeOrDefault as ds lower upper keys cfg = Ok v \<and> lower \<le> v \<and> v \<le> upper)"
proof -
  from assms parse_no_terminate show ?thesis
    by (simp add: GetTimeConfigInRangeOrDefault_def GetBytesConfigInRangeOrDefault_def parsed_in_range)
qed

theorem config_in_range_witness:
  "(\<exists>v. GetTimeConfigInRangeOrDefault (\<lambda>_. Some ''10 minutes'') ''10s'' 1000 3600000 [''events'', ''batch_interval'']
      (YMap [(''events'', YNull)]) = Ok v \<and> 1000 \<le> v \<and> v \<le> 3600000) \<and>
   (\<exists>v. GetBytesConfigInRangeOrDefault (\<lambda>_. Some ''9G'') ''10KB'' 1000 3600000 [] YNull = Ok v \<and>
      1000 \<le> v \<and> v \<le> 3600000)"
proof -
  have "ParseTimeUnit ''10s'' = Ok 10000" and "ParseSizeUnit ''10KB'' = Ok 10000"
    by (simp_all add: parse_eval)
  then show ?thesis
    using config_in_range [where dt = "''10s''" and ds = "''10KB''" and lower = 1000 and upper = 3600000]
    by simp
qed

subsection \<open>Shared configuration\<close>

lemma load_groups_append:
  "load_groups load gf (gs @ hs) cfg =
     (case load_groups load gf gs cfg of (cfg', ok) \<Rightarrow> if ok then load_groups load gf hs cfg' else (cfg', False))"
  by (induction load gf gs cfg rule: load_groups.induct)
    (auto split: option.splits result.splits)

text \<open>
  C11: when the file of a group cannot be loaded, the groups before it stay merged into the
  configuration and the groups after it are skipped: a failed load of the shared configuration is not
  undone, although it is made on what looks like a copy.
\<close>

theorem LoadSharedConfig_failed_group:
  assumes "m_getGroups c = Some (before @ g # after)"
    and "load_groups load group_file before (m_config c) = (cfg, True)"
    and "load (group_file g) = None"
  shows "LoadSharedConfig load group_file c = c\<lparr>m_config := cfg\<rparr>"
  using assms by (simp add: LoadSharedConfig_def load_groups_append)

theorem LoadSharedConfig_failed_group_witness:
  "m_config (LoadSharedConfig
     (\<lambda>f. if f = ''a.yml'' then Some (YMap [(''k'', YScalar ''2'')]) else None) (\<lambda>g. g @ ''.yml'')
     \<lparr>m_config = YMap [(''k'', YScalar ''1'')], m_configFilePath = ''wazuh-agent.yml'',
      m_getGroups = Some [''a'', ''b'', ''c'']\<rparr>) = YMap [(''k'', YScalar ''2'')]"
proof -
  let ?load = "\<lambda>f. if f = ''a.yml'' then Some (YMap [(''k'', YScalar ''2'')]) else None"
  let ?c = "\<lparr>m_config = YMap [(''k'', YScalar ''1'')], m_configFilePath = ''wazuh-agent.yml'',
      m_getGroups = Some [''a'', ''b'', ''c'']\<rparr>"
  have "MergeYamlNodes (YMap [(''k'', YScalar ''1'')]) (YMap [(''k'', YScalar ''2'')]) =
      Ok (YMap [(''k'', YScalar ''2'')])"
    by (simp add: MergeYamlNodes_def merge_entry_def)
  then have "load_groups ?load (\<lambda>g. g @ ''.yml'') [''a''] (m_config ?c) = (YMap [(''k'', YScalar ''2'')], True)"
    by simp
  from LoadSharedConfig_failed_group [of ?c "[''a'']" "''b''" "[''c'']", OF _ this] show ?thesis by simp
qed

end
