(* ===== verification/Multitype_Queue.thy ===== *)
theory Multitype_Queue
  imports Storage Configuration
begin

section \<open>The message queue\<close>

text \<open>
  \<^verbatim>\<open>src/src/agent/multitype_queue\<close>: the class \<^verbatim>\<open>MultiTypeQueue\<close>, three bounded queues of messages over
  one \<^verbatim>\<open>Storage\<close>. \<open>m_persistenceDest\<close> is \<open>None\<close> when the storage could not be opened; the source then
  keeps a null pointer, and using it is undefined.

  The methods that wait (\<^verbatim>\<open>push\<close> with \<^verbatim>\<open>shouldWait\<close>, \<^verbatim>\<open>pushAwaitable\<close>, \<^verbatim>\<open>getNextBytesAwaitable\<close>) see the
  database change under them. They take what they see as an argument: the state in which the wait
  ends, or the sequence of states in which the condition of the loop is tested; \<open>None\<close> is a call that
  is still waiting when the sequence ends.

  The abstract queue is, for each type of message, the sequence of the messages waiting in it.
  \<open>queue_refinement\<close> shows that any sequence of calls on the queue gives the answers, and leaves the
  messages, that the abstract queue does.
\<close>

subsection \<open>Messages\<close>

datatype MessageType = STATELESS | STATEFUL | COMMAND

record Message =
  msg_type :: MessageType
  msg_data :: json
  msg_moduleName :: string
  msg_moduleType :: string
  msg_metaData :: string

definition STATELESS_TABLE_NAME :: string where "STATELESS_TABLE_NAME = ''STATELESS''"
definition STATEFUL_TABLE_NAME :: string where "STATEFUL_TABLE_NAME = ''STATEFUL''"
definition COMMAND_TABLE_NAME :: string where "COMMAND_TABLE_NAME = ''COMMAND''"

lemmas table_name_defs = STATELESS_TABLE_NAME_def STATEFUL_TABLE_NAME_def COMMAND_TABLE_NAME_def

definition m_vMessageTypeStrings :: "string list" where
  "m_vMessageTypeStrings = [STATELESS_TABLE_NAME, STATEFUL_TABLE_NAME, COMMAND_TABLE_NAME]"

definition m_mapMessageTypeName :: "MessageType \<Rightarrow> string option" where
  "m_mapMessageTypeName = map_of
     [(STATELESS, STATELESS_TABLE_NAME), (STATEFUL, STATEFUL_TABLE_NAME), (COMMAND, COMMAND_TABLE_NAME)]"

subsection \<open>The constructor\<close>

record 'db MultiTypeQueue =
  m_maxItems :: nat
  m_batchInterval :: int
  m_persistenceDest :: "'db persistence option"

definition MIN_BATCH_INTERVAL :: int where "MIN_BATCH_INTERVAL = 1000"
definition MAX_BATCH_INTERVAL :: int where "MAX_BATCH_INTERVAL = 60 * 60 * 1000"
definition MIN_QUEUE_SIZE :: int where "MIN_QUEUE_SIZE = 1000"
definition MAX_QUEUE_SIZE :: int where "MAX_QUEUE_SIZE = 60 * 60 * 1000"
definition DEFAULT_BATCH_INTERVAL :: string where "DEFAULT_BATCH_INTERVAL = ''10000ms''"
definition QUEUE_DEFAULT_SIZE :: string where "QUEUE_DEFAULT_SIZE = ''10000B''"

text \<open>
  \<open>given\<close> is the storage passed in, if one is; otherwise \<open>open\<close> makes the persistence object for the
  database in a directory, or throws (\<open>None\<close>).
\<close>

definition MultiTypeQueue_init ::
  "(yaml \<Rightarrow> string option) \<Rightarrow> string \<Rightarrow> yaml \<Rightarrow> 'db persistence option \<Rightarrow>
   (string \<Rightarrow> 'db persistence option) \<Rightarrow> 'db \<Rightarrow> 'db MultiTypeQueue result \<times> 'db" where
  "MultiTypeQueue_init as data_path cfg given open db =
     (case GetTimeConfigInRangeOrDefault as DEFAULT_BATCH_INTERVAL MIN_BATCH_INTERVAL MAX_BATCH_INTERVAL
             [''events'', ''batch_interval''] cfg of
        Ok batchInterval \<Rightarrow>
          (case GetBytesConfigInRangeOrDefault as QUEUE_DEFAULT_SIZE MIN_QUEUE_SIZE MAX_QUEUE_SIZE
                  [''agent'', ''queue_size''] cfg of
             Ok maxItems \<Rightarrow>
               let dbFolderPath = GetConfigOrDefault as data_path [''agent'', ''path.data''] cfg;
                   queue = \<lparr>m_maxItems = nat maxItems, m_batchInterval = batchInterval,
                            m_persistenceDest = None\<rparr>
               in (case given of
                     Some P \<Rightarrow> (Ok (queue\<lparr>m_persistenceDest := Some P\<rparr>), db)
                   | None \<Rightarrow>
                       (case open dbFolderPath of
                          None \<Rightarrow> (Ok queue, db)
                        | Some P \<Rightarrow>
                            (case Storage_init P m_vMessageTypeStrings dbFolderPath db of
                               (Ok _, db') \<Rightarrow> (Ok (queue\<lparr>m_persistenceDest := Some P\<rparr>), db')
                             | (Throw _, db') \<Rightarrow> (Ok queue, db')
                             | (Terminate, db') \<Rightarrow> (Terminate, db'))))
           | Throw e \<Rightarrow> (Throw e, db) | Terminate \<Rightarrow> (Terminate, db))
      | Throw e \<Rightarrow> (Throw e, db) | Terminate \<Rightarrow> (Terminate, db))"

text \<open>
  Dispatch of every method: a type without a queue gives the method's default, a null storage is
  undefined.
\<close>

definition on_queue ::
  "'db MultiTypeQueue \<Rightarrow> MessageType \<Rightarrow> 'a \<Rightarrow> ('db persistence \<Rightarrow> string \<Rightarrow> 'db \<Rightarrow> 'a result \<times> 'db)
     \<Rightarrow> 'db \<Rightarrow> 'a result \<times> 'db" where
  "on_queue q ty dflt f db =
     (case m_mapMessageTypeName ty of
        None \<Rightarrow> (Ok dflt, db)
      | Some name \<Rightarrow>
          (case m_persistenceDest q of None \<Rightarrow> (Terminate, db) | Some P \<Rightarrow> f P name db))"

definition query_queue ::
  "'db MultiTypeQueue \<Rightarrow> MessageType \<Rightarrow> 'a \<Rightarrow> ('db persistence \<Rightarrow> string \<Rightarrow> 'db \<Rightarrow> 'a result)
     \<Rightarrow> 'db \<Rightarrow> 'a result" where
  "query_queue q ty dflt f db =
     (case m_mapMessageTypeName ty of
        None \<Rightarrow> Ok dflt
      | Some name \<Rightarrow>
          (case m_persistenceDest q of None \<Rightarrow> Terminate | Some P \<Rightarrow> f P name db))"

subsection \<open>push\<close>

text \<open>\<^verbatim>\<open>static_cast<size_t>\<close> of an \<^verbatim>\<open>int\<close>, and the space left in a queue.\<close>

definition as_size :: "int \<Rightarrow> nat" where
  "as_size n = nat (n mod 2 ^ 64)"

definition space_available :: "'db MultiTypeQueue \<Rightarrow> int \<Rightarrow> nat" where
  "space_available q n = (if m_maxItems q > as_size n then m_maxItems q - as_size n else 0)"

fun store_each ::
  "'db persistence \<Rightarrow> json_lib \<Rightarrow> string \<Rightarrow> Message \<Rightarrow> json list \<Rightarrow> int \<Rightarrow> 'db \<Rightarrow> int result \<times> 'db" where
  "store_each P J name msg [] res db = (Ok res, db)"
| "store_each P J name msg (d # ds) res db =
     (case Store P J d name (msg_moduleName msg) (msg_moduleType msg) (msg_metaData msg) db of
        (Ok n, db') \<Rightarrow> store_each P J name msg ds (res + n) db'
      | (Throw e, db') \<Rightarrow> (Throw e, db')
      | (Terminate, db') \<Rightarrow> (Terminate, db'))"

text \<open>The part of \<^verbatim>\<open>push\<close> after the space was read, and the reading of it.\<close>

definition push_store ::
  "'db persistence \<Rightarrow> json_lib \<Rightarrow> string \<Rightarrow> Message \<Rightarrow> nat \<Rightarrow> 'db \<Rightarrow> int result \<times> 'db" where
  "push_store P J name msg spaceAvailable db =
     (if spaceAvailable \<noteq> 0 then
        (case msg_data msg of
           JArr ds \<Rightarrow>
             if length ds \<le> spaceAvailable then store_each P J name msg ds 0 db else (Ok 0, db)
         | _ \<Rightarrow> Store P J (msg_data msg) name (msg_moduleName msg) (msg_moduleType msg) (msg_metaData msg) db)
      else (Ok 0, db))"

definition push_at ::
  "'db MultiTypeQueue \<Rightarrow> 'db persistence \<Rightarrow> json_lib \<Rightarrow> string \<Rightarrow> Message \<Rightarrow> 'db \<Rightarrow> int result \<times> 'db" where
  "push_at q P J name msg db =
     (case GetElementCount P name [] [] db of
        Ok storedMessages \<Rightarrow> push_store P J name msg (space_available q storedMessages) db
      | Throw e \<Rightarrow> (Throw e, db)
      | Terminate \<Rightarrow> (Terminate, db))"

definition has_room :: "'db MultiTypeQueue \<Rightarrow> 'db persistence \<Rightarrow> string \<Rightarrow> 'db \<Rightarrow> bool" where
  "has_room q P name db =
     (case GetElementCount P name [] [] db of Ok n \<Rightarrow> as_size n < m_maxItems q | _ \<Rightarrow> True)"

text \<open>\<open>woken\<close> is the database when \<^verbatim>\<open>wait_for\<close> returns; it does not wait at all where there is room.\<close>

definition push ::
  "'db MultiTypeQueue \<Rightarrow> json_lib \<Rightarrow> Message \<Rightarrow> bool \<Rightarrow> 'db \<Rightarrow> 'db \<Rightarrow> int result \<times> 'db" where
  "push q J msg shouldWait woken =
     on_queue q (msg_type msg) 0
       (\<lambda>P name db. push_at q P J name msg (if shouldWait \<and> \<not> has_room q P name db then woken else db))"

text \<open>\<open>seen\<close> are the states in which the loop of \<^verbatim>\<open>pushAwaitable\<close> tests for room.\<close>

fun await_room :: "'db MultiTypeQueue \<Rightarrow> 'db persistence \<Rightarrow> string \<Rightarrow> 'db list \<Rightarrow> 'db option" where
  "await_room q P name [] = None"
| "await_room q P name (db # seen) = (if has_room q P name db then Some db else await_room q P name seen)"

definition pushAwaitable ::
  "'db MultiTypeQueue \<Rightarrow> json_lib \<Rightarrow> Message \<Rightarrow> 'db list \<Rightarrow> 'db \<Rightarrow> (int result \<times> 'db) option" where
  "pushAwaitable q J msg seen db =
     (case m_mapMessageTypeName (msg_type msg) of
        None \<Rightarrow> Some (Ok 0, db)
      | Some name \<Rightarrow>
          (case m_persistenceDest q of
             None \<Rightarrow> Some (Terminate, db)
           | Some P \<Rightarrow> map_option (push_at q P J name msg) (await_room q P name (db # seen))))"

fun push_all :: "'db MultiTypeQueue \<Rightarrow> json_lib \<Rightarrow> Message list \<Rightarrow> int \<Rightarrow> 'db \<Rightarrow> int result \<times> 'db" where
  "push_all q J [] res db = (Ok res, db)"
| "push_all q J (m # ms) res db =
     (case push q J m False db db of
        (Ok n, db') \<Rightarrow> push_all q J ms (res + n) db'
      | (Throw e, db') \<Rightarrow> (Throw e, db')
      | (Terminate, db') \<Rightarrow> (Terminate, db'))"

subsection \<open>Reading\<close>

definition message_of :: "MessageType \<Rightarrow> json \<Rightarrow> Message result" where
  "message_of ty j =
     (case (get_string (json_at j ''moduleName''), get_string (json_at j ''moduleType''),
            get_string (json_at j ''metadata'')) of
        (Ok mn, Ok mt, Ok md) \<Rightarrow>
          Ok \<lparr>msg_type = ty, msg_data = json_at j ''data'', msg_moduleName = mn, msg_moduleType = mt,
              msg_metaData = md\<rparr>
      | _ \<Rightarrow> Throw ''type must be string'')"

fun messages_of :: "MessageType \<Rightarrow> json list \<Rightarrow> Message list result" where
  "messages_of ty [] = Ok []"
| "messages_of ty (j # js) =
     (case message_of ty j of
        Ok m \<Rightarrow> map_result ((#) m) (messages_of ty js)
      | Throw e \<Rightarrow> Throw e | Terminate \<Rightarrow> Terminate)"

definition getNext ::
  "'db MultiTypeQueue \<Rightarrow> json_lib \<Rightarrow> MessageType \<Rightarrow> string \<Rightarrow> string \<Rightarrow> 'db \<Rightarrow> Message result" where
  "getNext q J ty moduleName moduleType =
     (let empty = \<lparr>msg_type = ty, msg_data = JObj [], msg_moduleName = moduleName,
                   msg_moduleType = moduleType, msg_metaData = []\<rparr> in
      query_queue q ty empty
        (\<lambda>P name db.
           case RetrieveMultiple P J 1 name moduleName moduleType db of
             Ok resultData \<Rightarrow>
               if json_empty resultData then Ok empty else message_of ty (hd (json_items resultData))
           | Throw e \<Rightarrow> Throw e | Terminate \<Rightarrow> Terminate))"

definition getNextBytes ::
  "'db MultiTypeQueue \<Rightarrow> json_lib \<Rightarrow> MessageType \<Rightarrow> nat \<Rightarrow> string \<Rightarrow> string \<Rightarrow> 'db
     \<Rightarrow> Message list result" where
  "getNextBytes q J ty messageQuantity moduleName moduleType =
     query_queue q ty []
       (\<lambda>P name db.
          case RetrieveBySize P J messageQuantity name moduleName moduleType db of
            Ok arrayData \<Rightarrow> messages_of ty (json_items arrayData)
          | Throw e \<Rightarrow> Throw e | Terminate \<Rightarrow> Terminate)"

definition sizePerType :: "'db MultiTypeQueue \<Rightarrow> MessageType \<Rightarrow> 'db \<Rightarrow> nat result" where
  "sizePerType q ty = query_queue q ty 0 (\<lambda>P name. GetElementsStoredSize P name [] [])"

text \<open>
  The loop that waits for a full batch: each test sees a database and whether the batch timer has
  expired.
\<close>

fun await_batch ::
  "'db MultiTypeQueue \<Rightarrow> MessageType \<Rightarrow> nat \<Rightarrow> ('db \<times> bool) list \<Rightarrow> 'db result option" where
  "await_batch q ty messageQuantity [] = None"
| "await_batch q ty messageQuantity ((db, expired) # seen) =
     (case sizePerType q ty db of
        Ok n \<Rightarrow> if n < messageQuantity \<and> \<not> expired then await_batch q ty messageQuantity seen else Some (Ok db)
      | Throw e \<Rightarrow> Some (Throw e) | Terminate \<Rightarrow> Some Terminate)"

definition getNextBytesAwaitable ::
  "'db MultiTypeQueue \<Rightarrow> json_lib \<Rightarrow> MessageType \<Rightarrow> nat \<Rightarrow> string \<Rightarrow> string \<Rightarrow> ('db \<times> bool) list
     \<Rightarrow> Message list result option" where
  "getNextBytesAwaitable q J ty messageQuantity moduleName moduleType seen =
     (case m_mapMessageTypeName ty of
        None \<Rightarrow> Some (Ok [])
      | Some _ \<Rightarrow>
          (case await_batch q ty messageQuantity seen of
             None \<Rightarrow> None
           | Some (Ok db) \<Rightarrow> Some (getNextBytes q J ty messageQuantity moduleName moduleType db)
           | Some (Throw e) \<Rightarrow> Some (Throw e)
           | Some Terminate \<Rightarrow> Some Terminate))"

subsection \<open>Removing and counting\<close>

definition popN ::
  "'db MultiTypeQueue \<Rightarrow> MessageType \<Rightarrow> int \<Rightarrow> string \<Rightarrow> string \<Rightarrow> 'db \<Rightarrow> int result \<times> 'db" where
  "popN q ty messageQuantity moduleName moduleType =
     on_queue q ty 0 (\<lambda>P name. RemoveMultiple P messageQuantity name moduleName moduleType)"

definition pop :: "'db MultiTypeQueue \<Rightarrow> MessageType \<Rightarrow> string \<Rightarrow> string \<Rightarrow> 'db \<Rightarrow> bool result \<times> 'db" where
  "pop q ty moduleName moduleType =
     on_queue q ty False
       (\<lambda>P name db. apfst (map_result (\<lambda>n. n \<noteq> 0)) (RemoveMultiple P 1 name moduleName moduleType db))"

definition storedItems ::
  "'db MultiTypeQueue \<Rightarrow> MessageType \<Rightarrow> string \<Rightarrow> string \<Rightarrow> 'db \<Rightarrow> int result" where
  "storedItems q ty moduleName moduleType =
     query_queue q ty 0 (\<lambda>P name. GetElementCount P name moduleName moduleType)"

definition isEmpty ::
  "'db MultiTypeQueue \<Rightarrow> MessageType \<Rightarrow> string \<Rightarrow> string \<Rightarrow> 'db \<Rightarrow> bool result" where
  "isEmpty q ty moduleName moduleType =
     query_queue q ty False
       (\<lambda>P name db. map_result (\<lambda>n. n = 0) (GetElementCount P name moduleName moduleType db))"

definition isFull ::
  "'db MultiTypeQueue \<Rightarrow> MessageType \<Rightarrow> string \<Rightarrow> string \<Rightarrow> 'db \<Rightarrow> bool result" where
  "isFull q ty moduleName moduleType =
     query_queue q ty False
       (\<lambda>P name db. map_result (\<lambda>n. as_size n = m_maxItems q) (GetElementCount P name moduleName moduleType db))"

subsection \<open>The abstract queue\<close>

definition type_name :: "MessageType \<Rightarrow> string" where
  "type_name ty =
     (case ty of STATELESS \<Rightarrow> STATELESS_TABLE_NAME | STATEFUL \<Rightarrow> STATEFUL_TABLE_NAME
      | COMMAND \<Rightarrow> COMMAND_TABLE_NAME)"

definition queue :: "(string \<Rightarrow> table option) \<Rightarrow> MessageType \<Rightarrow> entry list" where
  "queue ts ty = stored ts (type_name ty)"

definition msg_entries :: "json_lib \<Rightarrow> Message \<Rightarrow> entry list" where
  "msg_entries J m =
     map (msg_entry J (msg_moduleName m) (msg_moduleType m) (msg_metaData m)) (messages (msg_data m))"

definition entry_message :: "json_lib \<Rightarrow> MessageType \<Rightarrow> entry \<Rightarrow> Message" where
  "entry_message J ty e =
     \<lparr>msg_type = ty, msg_data = (case entry_json J e of None \<Rightarrow> JNull | Some d \<Rightarrow> d),
      msg_moduleName = e_module e, msg_moduleType = e_type e, msg_metaData = e_meta e\<rparr>"

datatype queue_op =
    Push Message
  | PopN MessageType int string string
  | GetNext MessageType string string
  | GetNextBytes MessageType nat string string
  | StoredItems MessageType string string

datatype queue_out = Count int | Messages "Message list"

definition run_op :: "'db MultiTypeQueue \<Rightarrow> json_lib \<Rightarrow> queue_op \<Rightarrow> 'db \<Rightarrow> queue_out result \<times> 'db" where
  "run_op q J op db =
     (case op of
        Push m \<Rightarrow> apfst (map_result Count) (push q J m False db db)
      | PopN ty n mn mt \<Rightarrow> apfst (map_result Count) (popN q ty n mn mt db)
      | GetNext ty mn mt \<Rightarrow> (map_result (\<lambda>m. Messages [m]) (getNext q J ty mn mt db), db)
      | GetNextBytes ty n mn mt \<Rightarrow> (map_result Messages (getNextBytes q J ty n mn mt db), db)
      | StoredItems ty mn mt \<Rightarrow> (map_result Count (storedItems q ty mn mt db), db))"

fun run_ops ::
  "'db MultiTypeQueue \<Rightarrow> json_lib \<Rightarrow> queue_op list \<Rightarrow> 'db \<Rightarrow> queue_out list result \<times> 'db" where
  "run_ops q J [] db = (Ok [], db)"
| "run_ops q J (op # ops) db =
     (case run_op q J op db of
        (Ok out, db') \<Rightarrow> apfst (map_result ((#) out)) (run_ops q J ops db')
      | (Throw e, db') \<Rightarrow> (Throw e, db')
      | (Terminate, db') \<Rightarrow> (Terminate, db'))"

text \<open>The abstract queues of capacity \<open>cap\<close>: a message or an array of them enters whole or not at all.\<close>

type_synonym aqueue = "MessageType \<Rightarrow> entry list"

fun spec_op :: "nat \<Rightarrow> json_lib \<Rightarrow> queue_op \<Rightarrow> aqueue \<Rightarrow> queue_out \<times> aqueue" where
  "spec_op cap J (Push m) s =
     (if length (s (msg_type m)) + length (msg_entries J m) \<le> cap
      then (Count (int (length (msg_entries J m))), s(msg_type m := s (msg_type m) @ msg_entries J m))
      else (Count 0, s))"
| "spec_op cap J (PopN ty n mn mt) s =
     (let k = limit_count n (filter (entry_in mn mt) (s ty))
      in (Count (int k), s(ty := remove_n k (entry_in mn mt) (s ty))))"
| "spec_op cap J (GetNext ty mn mt) s =
     (Messages [case filter (entry_in mn mt) (s ty) of
                  [] \<Rightarrow> \<lparr>msg_type = ty, msg_data = JObj [], msg_moduleName = mn, msg_moduleType = mt,
                         msg_metaData = []\<rparr>
                | e # _ \<Rightarrow> entry_message J ty e], s)"
| "spec_op cap J (GetNextBytes ty n mn mt) s =
     (Messages (map (entry_message J ty) (batch J n 0 (filter (entry_in mn mt) (s ty)))), s)"
| "spec_op cap J (StoredItems ty mn mt) s =
     (Count (int (length (filter (entry_in mn mt) (s ty)))), s)"

fun spec_ops :: "nat \<Rightarrow> json_lib \<Rightarrow> queue_op list \<Rightarrow> aqueue \<Rightarrow> queue_out list \<times> aqueue" where
  "spec_ops cap J [] s = ([], s)"
| "spec_ops cap J (op # ops) s =
     (case spec_op cap J op s of (out, s') \<Rightarrow> apfst ((#) out) (spec_ops cap J ops s'))"

text \<open>
  What the calls must respect: the values print, without a NUL byte, and parse back; an element of an
  array is not itself an array; module names have no NUL byte; a batch has a positive size.
\<close>

definition value_ok :: "json_lib \<Rightarrow> json \<Rightarrow> bool" where
  "value_ok J d \<longleftrightarrow> \<not> is_array d \<and> printable J d \<and> json_roundtrip J d"

definition msg_ok :: "json_lib \<Rightarrow> Message \<Rightarrow> bool" where
  "msg_ok J m \<longleftrightarrow> plain (msg_moduleName m) \<and> plain (msg_moduleType m) \<and> plain (msg_metaData m) \<and>
     list_all (value_ok J) (messages (msg_data m))"

fun op_ok :: "json_lib \<Rightarrow> queue_op \<Rightarrow> bool" where
  "op_ok J (Push m) \<longleftrightarrow> msg_ok J m"
| "op_ok J (PopN ty n mn mt) \<longleftrightarrow> plain mn \<and> plain mt"
| "op_ok J (GetNext ty mn mt) \<longleftrightarrow> plain mn \<and> plain mt"
| "op_ok J (GetNextBytes ty n mn mt) \<longleftrightarrow> plain mn \<and> plain mt \<and> n \<noteq> 0"
| "op_ok J (StoredItems ty mn mt) \<longleftrightarrow> plain mn \<and> plain mt"

text \<open>The tables of a queue, and the capacity and the content of the abstract queues.\<close>

definition queue_tables :: "(string \<Rightarrow> table option) \<Rightarrow> bool" where
  "queue_tables ts \<longleftrightarrow> (\<forall>ty. storage_table ts (type_name ty))"

definition aqueue_ok :: "nat \<Rightarrow> json_lib \<Rightarrow> aqueue \<Rightarrow> bool" where
  "aqueue_ok cap J s \<longleftrightarrow> (\<forall>ty. length (s ty) \<le> cap \<and> list_all (entry_ok J) (s ty))"

subsection \<open>Facts\<close>

lemma m_mapMessageTypeName_eq [simp]: "m_mapMessageTypeName ty = Some (type_name ty)"
  by (cases ty) (simp_all add: m_mapMessageTypeName_def type_name_def)

lemma type_name_inject [simp]: "type_name a = type_name b \<longleftrightarrow> a = b"
  by (cases a; cases b) (simp_all add: type_name_def table_name_defs)

lemma on_queue_Some [simp]: "m_persistenceDest q = Some P \<Longrightarrow> on_queue q ty d f db = f P (type_name ty) db"
  by (simp add: on_queue_def)

lemma query_queue_Some [simp]: "m_persistenceDest q = Some P \<Longrightarrow> query_queue q ty d f db = f P (type_name ty) db"
  by (simp add: query_queue_def)

lemma entry_ok_msg: "value_ok J d \<Longrightarrow> entry_ok J (msg_entry J mn mt md d)"
  by (auto simp: value_ok_def json_roundtrip_def entry_ok_def entry_json_def msg_entry_def)

lemma list_all_entry_ok_msg: "msg_ok J m \<Longrightarrow> list_all (entry_ok J) (msg_entries J m)"
  by (auto simp: msg_ok_def msg_entries_def list_all_iff entry_ok_msg)

lemma list_all_remove_n: "list_all P xs \<Longrightarrow> list_all P (remove_n n p xs)"
  by (induction n p xs rule: remove_n.induct) (auto split: nat.splits)

lemma length_remove_n_le: "length (remove_n n p xs) \<le> length xs"
  using length_remove_n [of n p xs] by simp

lemma spec_op_ok: "aqueue_ok cap J s \<Longrightarrow> op_ok J op \<Longrightarrow> aqueue_ok cap J (snd (spec_op cap J op s))"
  by (cases op)
    (auto simp: aqueue_ok_def list_all_entry_ok_msg list_all_remove_n Let_def
      intro: le_trans [OF length_remove_n_le])

lemma message_of_output [simp]: "message_of ty (entry_output J e) = Ok (entry_message J ty e)"
  by (simp add: message_of_def entry_output_def output_json_def json_at_def entry_message_def)

lemma messages_of_output [simp]:
  "messages_of ty (map (entry_output J) es) = Ok (map (entry_message J ty) es)"
  by (induction es) simp_all

lemma queue_only_rows:
  "only_rows_of (type_name ty) ts ts' \<Longrightarrow> queue ts' = (queue ts)(ty := stored ts' (type_name ty))"
  by (auto simp: queue_def fun_eq_iff only_rows_of_other)

lemma queue_tables_only_rows: "only_rows_of t ts ts' \<Longrightarrow> queue_tables ts' \<longleftrightarrow> queue_tables ts"
  by (simp add: queue_tables_def only_rows_of_table)

lemma as_size_nat [simp]: "n < 2 ^ 31 \<Longrightarrow> as_size (int n) = n"
  by (simp add: as_size_def)

context reliable_persistence
begin

lemma store_each_exact:
  assumes "inv db" "saved db = None" "storage_table (tables db) t"
    and "plain (msg_moduleName m)" "plain (msg_moduleType m)" "plain (msg_metaData m)"
    and "list_all (value_ok J) ds"
  shows "\<exists>db'. store_each P J t m ds res db = (Ok (res + int (length ds)), db') \<and>
    inv db' \<and> saved db' = None \<and> only_rows_of t (tables db) (tables db') \<and>
    stored (tables db') t = stored (tables db) t @
      map (msg_entry J (msg_moduleName m) (msg_moduleType m) (msg_metaData m)) ds"
  using assms
proof (induction ds arbitrary: res db)
  case (Cons d ds)
  then have d: "\<not> is_array d" "printable J d" by (simp_all add: value_ok_def)
  from Store_exact [OF Cons.prems(1-6), of J d] d obtain db1 where
    S: "Store P J d t (msg_moduleName m) (msg_moduleType m) (msg_metaData m) db = (Ok 1, db1)"
      "inv db1" "saved db1 = None" "only_rows_of t (tables db) (tables db1)"
      "stored (tables db1) t = stored (tables db) t @
        [msg_entry J (msg_moduleName m) (msg_moduleType m) (msg_metaData m) d]" by auto
  have st: "storage_table (tables db1) t" using S(4) Cons.prems(3) by (simp add: only_rows_of_table)
  from Cons.prems(7) have "list_all (value_ok J) ds" by simp
  from Cons.IH [OF S(2,3) st Cons.prems(4-6) this, of "res + 1"] S show ?case
    by (auto intro: only_rows_of_trans)
qed simp

lemma push_store_exact:
  assumes "inv db" "saved db = None" "storage_table (tables db) t" "msg_ok J m"
  shows "\<exists>db'. push_store P J t m space db =
      (Ok (if length (msg_entries J m) \<le> space then int (length (msg_entries J m)) else 0), db') \<and>
    inv db' \<and> saved db' = None \<and> only_rows_of t (tables db) (tables db') \<and>
    stored (tables db') t = stored (tables db) t @
      (if length (msg_entries J m) \<le> space then msg_entries J m else [])"
proof (cases "is_array (msg_data m)")
  case True
  then obtain ds where ds: "msg_data m = JArr ds" by (auto simp: is_array_iff)
  with store_each_exact [OF assms(1-3), of m J ds 0] assms ds show ?thesis
    by (auto simp: push_store_def msg_ok_def msg_entries_def)
next
  case False
  then have "push_store P J t m space db =
      (if space \<noteq> 0 then Store P J (msg_data m) t (msg_moduleName m) (msg_moduleType m) (msg_metaData m) db
       else (Ok 0, db))"
    by (auto simp: push_store_def split: json.splits)
  with Store_exact [OF assms(1-3), of "msg_moduleName m" "msg_moduleType m" "msg_metaData m" J "msg_data m"]
    False assms show ?thesis
    by (auto simp: msg_ok_def msg_entries_def value_ok_def)
qed

lemma push_exact:
  assumes "inv db" "saved db = None" "queue_tables (tables db)" "m_persistenceDest q = Some P"
    and "m_maxItems q < 2 ^ 31" "aqueue_ok (m_maxItems q) J (queue (tables db))" "msg_ok J m"
  shows "\<exists>db'. run_op q J (Push m) db =
      (Ok (fst (spec_op (m_maxItems q) J (Push m) (queue (tables db)))), db') \<and>
    inv db' \<and> saved db' = None \<and> queue_tables (tables db') \<and>
    queue (tables db') = snd (spec_op (m_maxItems q) J (Push m) (queue (tables db)))"
proof -
  let ?t = "type_name (msg_type m)" and ?s = "queue (tables db) (msg_type m)"
  have st: "storage_table (tables db) ?t" using assms(3) by (simp add: queue_tables_def)
  have len: "length ?s \<le> m_maxItems q" using assms(6) by (simp add: aqueue_ok_def)
  have in_all: "entry_in [] [] = (\<lambda>_. True)" by (simp add: entry_in_def fun_eq_iff)
  have "GetElementCount P ?t [] [] db = Ok (int (length ?s))"
    using GetElementCount_exact [OF assms(1) st, of "[]" "[]"] len assms(5)
    by (simp add: plain_def in_all queue_def)
  then have push: "push q J m False db db = push_store P J ?t m (m_maxItems q - length ?s) db"
    using assms(4,5) len by (simp add: push_def push_at_def space_available_def)
  from push_store_exact [OF assms(1,2) st assms(7), of "m_maxItems q - length ?s"] obtain db' where
    db': "push_store P J ?t m (m_maxItems q - length ?s) db =
      (Ok (if length (msg_entries J m) \<le> m_maxItems q - length ?s then int (length (msg_entries J m)) else 0), db')"
      "inv db'" "saved db' = None" "only_rows_of ?t (tables db) (tables db')"
      "stored (tables db') ?t = stored (tables db) ?t @
        (if length (msg_entries J m) \<le> m_maxItems q - length ?s then msg_entries J m else [])" by blast
  show ?thesis
    using db' push assms(3) len queue_only_rows [OF db'(4)] queue_tables_only_rows [OF db'(4)]
    by (cases "length (msg_entries J m) \<le> m_maxItems q - length ?s") (auto simp: run_op_def queue_def)
qed

lemma run_op_exact:
  assumes "inv db" "saved db = None" "queue_tables (tables db)" "m_persistenceDest q = Some P"
    and "m_maxItems q < 2 ^ 31" "aqueue_ok (m_maxItems q) J (queue (tables db))" "op_ok J op"
  shows "\<exists>db'. run_op q J op db = (Ok (fst (spec_op (m_maxItems q) J op (queue (tables db)))), db') \<and>
    inv db' \<and> saved db' = None \<and> queue_tables (tables db') \<and>
    queue (tables db') = snd (spec_op (m_maxItems q) J op (queue (tables db)))"
proof -
  have st: "storage_table (tables db) (type_name ty)" for ty using assms(3) by (simp add: queue_tables_def)
  have ok: "list_all (entry_ok J) (stored (tables db) (type_name ty))"
    and len: "length (stored (tables db) (type_name ty)) < 2 ^ 31" for ty
    using assms(5,6) by (auto simp: aqueue_ok_def queue_def intro: le_less_trans)
  show ?thesis
  proof (cases op)
    case (Push m)
    with push_exact [OF assms(1-6)] assms(7) show ?thesis by simp
  next
    case (PopN ty n mn mt)
    with assms(7) have "plain mn" "plain mt" by simp_all
    from RemoveMultiple_exact [OF assms(1,2) st this] obtain db' where
      db': "RemoveMultiple P n (type_name ty) mn mt db =
          (Ok (int (limit_count n (filter (entry_in mn mt) (stored (tables db) (type_name ty))))), db')"
        "inv db'" "saved db' = None" "only_rows_of (type_name ty) (tables db) (tables db')"
        "stored (tables db') (type_name ty) =
          remove_n (limit_count n (filter (entry_in mn mt) (stored (tables db) (type_name ty))))
            (entry_in mn mt) (stored (tables db) (type_name ty))" by blast
    then show ?thesis
      using PopN assms(3,4) queue_only_rows [OF db'(4)] queue_tables_only_rows [OF db'(4)]
      by (simp add: run_op_def popN_def Let_def queue_def)
  next
    case (GetNext ty mn mt)
    with assms(7) have "plain mn" "plain mt" by simp_all
    from RetrieveMultiple_exact [OF assms(1) st this ok, of 1] GetNext assms show ?thesis
      by (cases "filter (entry_in mn mt) (stored (tables db) (type_name ty))")
        (auto simp: run_op_def getNext_def queue_def limit_rows_def Let_def)
  next
    case (GetNextBytes ty n mn mt)
    with assms(7) have "plain mn" "plain mt" "n \<noteq> 0" by simp_all
    from RetrieveBySize_exact [OF assms(1) st this(1,2) ok this(3)] GetNextBytes assms show ?thesis
      by (auto simp: run_op_def getNextBytes_def queue_def)
  next
    case (StoredItems ty mn mt)
    with assms(7) have "plain mn" "plain mt" by simp_all
    from GetElementCount_exact [OF assms(1) st this] len [of ty] StoredItems assms show ?thesis
      by (auto simp: run_op_def storedItems_def queue_def le_less_trans [OF length_filter_le])
  qed
qed

lemma run_ops_exact:
  assumes "inv db" "saved db = None" "queue_tables (tables db)" "m_persistenceDest q = Some P"
    and "m_maxItems q < 2 ^ 31" "aqueue_ok (m_maxItems q) J (queue (tables db))" "list_all (op_ok J) ops"
  shows "\<exists>db'. run_ops q J ops db = (Ok (fst (spec_ops (m_maxItems q) J ops (queue (tables db)))), db') \<and>
    inv db' \<and> saved db' = None \<and> queue_tables (tables db') \<and>
    aqueue_ok (m_maxItems q) J (queue (tables db')) \<and>
    queue (tables db') = snd (spec_ops (m_maxItems q) J ops (queue (tables db)))"
  using assms(1-3,6,7)
proof (induction ops arbitrary: db)
  case (Cons op ops)
  let ?cap = "m_maxItems q"
  from run_op_exact [OF Cons.prems(1-3) assms(4,5) Cons.prems(4), of op] Cons.prems(5) obtain db1 where
    R: "run_op q J op db = (Ok (fst (spec_op ?cap J op (queue (tables db)))), db1)" "inv db1"
      "saved db1 = None" "queue_tables (tables db1)"
      "queue (tables db1) = snd (spec_op ?cap J op (queue (tables db)))" by auto
  have "aqueue_ok ?cap J (queue (tables db1))"
    using spec_op_ok [OF Cons.prems(4)] Cons.prems(5) R(5) by simp
  with Cons.IH [OF R(2,3,4)] Cons.prems(5) obtain db' where
    "run_ops q J ops db1 = (Ok (fst (spec_ops ?cap J ops (queue (tables db1)))), db')" "inv db'"
    "saved db' = None" "queue_tables (tables db')" "aqueue_ok ?cap J (queue (tables db'))"
    "queue (tables db') = snd (spec_ops ?cap J ops (queue (tables db1)))" by auto
  with R show ?case by (auto simp: case_prod_beta)
qed auto

end

subsection \<open>Properties\<close>

text \<open>A database in memory with the three empty tables, and a queue over it.\<close>

definition mem_queue_db :: mem_db where
  "mem_queue_db =
     mem_empty\<lparr>m_tables := (\<lambda>t. if t \<in> set m_vMessageTypeStrings
       then Some \<lparr>cols = storage_keys, trows = []\<rparr> else None)\<rparr>"

definition mem_queue :: "nat \<Rightarrow> mem_db MultiTypeQueue" where
  "mem_queue cap = \<lparr>m_maxItems = cap, m_batchInterval = 1000, m_persistenceDest = Some mem_persistence\<rparr>"

definition str_message :: "MessageType \<Rightarrow> string list \<Rightarrow> Message" where
  "str_message ty ss =
     \<lparr>msg_type = ty, msg_data = JArr (map JStr ss), msg_moduleName = ''m'', msg_moduleType = [],
      msg_metaData = ''x''\<rparr>"

lemma queue_names_apart:
  "names_apart (\<lambda>t. if t \<in> set m_vMessageTypeStrings then Some T else None)"
  unfolding names_apart_def
proof (intro allI impI)
  fix t u
  assume "(if t \<in> set m_vMessageTypeStrings then Some T else None) \<noteq> None"
    "(if u \<in> set m_vMessageTypeStrings then Some T else None) \<noteq> None" and s: "same_name t u"
  then have "t \<in> set m_vMessageTypeStrings" "u \<in> set m_vMessageTypeStrings" by (simp_all split: if_splits)
  with s show "t = u"
    by (auto simp: m_vMessageTypeStrings_def table_name_defs same_name_eval)
qed

lemma mem_queue_db_ok:
  "mem_inv mem_queue_db" "m_saved mem_queue_db = None" "queue_tables (m_tables mem_queue_db)"
  "queue (m_tables mem_queue_db) ty = []"
  by (auto simp: mem_queue_db_def mem_empty_def mem_inv_def tables_ok_def table_ok_empty queue_tables_def
      queue_names_apart [unfolded m_vMessageTypeStrings_def, simplified]
      storage_table_def queue_def stored_def entries_def type_name_def m_vMessageTypeStrings_def
      split: MessageType.splits if_splits)

lemma mem_queue_sel [simp]:
  "m_persistenceDest (mem_queue cap) = Some mem_persistence" "m_maxItems (mem_queue cap) = cap"
  by (simp_all add: mem_queue_def)

lemma str_message_ok:
  assumes "list_all (list_all tiny_char) ss"
  shows "msg_ok tiny_lib (str_message ty ss)"
proof -
  have nul: "\<not> tiny_char (CHR 0x00)" by (simp add: tiny_char_def)
  have "value_ok tiny_lib (JStr s)" if s: "list_all tiny_char s" for s
  proof -
    have "plain (CHR 0x22 # s @ [CHR 0x22])" using s nul by (auto simp: list_all_iff plain_def)
    with tiny_roundtrip [OF s] show ?thesis
      by (simp add: value_ok_def printable_def json_roundtrip_def)
  qed
  then have "list_all (value_ok tiny_lib) (map JStr ss)" using assms by (simp add: list_all_iff)
  then show ?thesis by (simp add: msg_ok_def str_message_def plain_def)
qed

text \<open>
  C1: the queue refines three bounded FIFO queues. Over a storage that keeps its contract, any
  sequence of pushes, reads, removals and counts returns what the abstract queues return and leaves
  the messages they leave: a push enters whole or not at all, never beyond the capacity; a read
  returns the oldest messages of a module; a removal deletes exactly the oldest ones; the other
  queues do not change.
\<close>

theorem queue_refinement:
  assumes "reliable_persistence P tables saved canon dinv"
    and "dinv db" "saved db = None" "queue_tables (tables db)" "m_persistenceDest q = Some P"
    and "m_maxItems q < 2 ^ 31" "aqueue_ok (m_maxItems q) J (queue (tables db))" "list_all (op_ok J) ops"
  shows "\<exists>db'. run_ops q J ops db = (Ok (fst (spec_ops (m_maxItems q) J ops (queue (tables db)))), db') \<and>
    dinv db' \<and> queue (tables db') = snd (spec_ops (m_maxItems q) J ops (queue (tables db))) \<and>
    aqueue_ok (m_maxItems q) J (queue (tables db'))"
  using reliable_persistence.run_ops_exact [OF assms] by blast

theorem queue_refinement_witness:
  "fst (run_ops (mem_queue 2) tiny_lib
      [Push (str_message STATEFUL [''a'']), Push (str_message STATELESS [''b'', ''c'', ''d'']),
       Push (str_message STATEFUL [''e'']), Push (str_message STATEFUL [''f'']),
       PopN STATEFUL 1 [] [], StoredItems STATEFUL [] []] mem_queue_db)
   = Ok [Count 1, Count 0, Count 1, Count 0, Count 1, Count 1]"
proof -
  let ?ops = "[Push (str_message STATEFUL [''a'']), Push (str_message STATELESS [''b'', ''c'', ''d'']),
       Push (str_message STATEFUL [''e'']), Push (str_message STATEFUL [''f'']),
       PopN STATEFUL 1 [] [], StoredItems STATEFUL [] []]"
  have empty: "queue (m_tables mem_queue_db) = (\<lambda>_. [])" by (simp add: fun_eq_iff mem_queue_db_ok)
  have cap: "m_maxItems (mem_queue 2) < 2 ^ 31"
    and aq: "aqueue_ok (m_maxItems (mem_queue 2)) tiny_lib (queue (m_tables mem_queue_db))"
    by (simp_all add: empty aqueue_ok_def)
  have ok: "list_all (op_ok tiny_lib) ?ops"
    by (simp add: str_message_ok plain_def tiny_char_def)
  from queue_refinement [OF memr.reliable_persistence_axioms, OF mem_queue_db_ok(1-3) mem_queue_sel(1) cap aq ok]
  obtain db' where R: "run_ops (mem_queue 2) tiny_lib ?ops mem_queue_db =
      (Ok (fst (spec_ops (m_maxItems (mem_queue 2)) tiny_lib ?ops (queue (m_tables mem_queue_db)))), db')"
    by blast
  show ?thesis unfolding R empty
    by (simp add: str_message_def msg_entries_def entry_in_def limit_count_def)
qed

text \<open>
  The constructor never throws, and the queue it makes has its capacity between 1000 and 3600000
  items and its batch interval between one second and one hour, whatever the configuration says.
\<close>

theorem queue_limits:
  assumes "MultiTypeQueue_init as data_path cfg given open db = (r, db')"
  shows "(\<forall>e. r \<noteq> Throw e) \<and>
    (\<forall>q. r = Ok q \<longrightarrow> 1000 \<le> m_maxItems q \<and> m_maxItems q \<le> 3600000 \<and>
       1000 \<le> m_batchInterval q \<and> m_batchInterval q \<le> 3600000)"
proof -
  have d: "ParseTimeUnit DEFAULT_BATCH_INTERVAL = Ok 10000" "ParseSizeUnit QUEUE_DEFAULT_SIZE = Ok 10000"
    by (simp_all add: DEFAULT_BATCH_INTERVAL_def QUEUE_DEFAULT_SIZE_def parse_eval)
  obtain b where b:
    "GetTimeConfigInRangeOrDefault as DEFAULT_BATCH_INTERVAL MIN_BATCH_INTERVAL MAX_BATCH_INTERVAL
       [''events'', ''batch_interval''] cfg = Ok b" "1000 \<le> b" "b \<le> 3600000"
    using parsed_in_range [of ParseTimeUnit, OF d(1), of MIN_BATCH_INTERVAL MAX_BATCH_INTERVAL as
        "[''events'', ''batch_interval'']" cfg] parse_no_terminate(1)
    by (auto simp: GetTimeConfigInRangeOrDefault_def MIN_BATCH_INTERVAL_def MAX_BATCH_INTERVAL_def)
  obtain n where n:
    "GetBytesConfigInRangeOrDefault as QUEUE_DEFAULT_SIZE MIN_QUEUE_SIZE MAX_QUEUE_SIZE
       [''agent'', ''queue_size''] cfg = Ok n" "1000 \<le> n" "n \<le> 3600000"
    using parsed_in_range [of ParseSizeUnit, OF d(2), of MIN_QUEUE_SIZE MAX_QUEUE_SIZE as
        "[''agent'', ''queue_size'']" cfg] parse_no_terminate(2)
    by (auto simp: GetBytesConfigInRangeOrDefault_def MIN_QUEUE_SIZE_def MAX_QUEUE_SIZE_def)
  from assms b n show ?thesis
    by (auto simp: MultiTypeQueue_init_def Let_def nat_le_iff le_nat_iff
        split: option.splits prod.splits result.splits)
qed

theorem queue_limits_witness:
  "\<exists>r. MultiTypeQueue_init (\<lambda>_. Some ''1'') ''/data'' YNull (Some mem_persistence) (\<lambda>_. None) mem_queue_db
     = (r, mem_queue_db) \<and> (\<forall>q. r = Ok q \<longrightarrow> 1000 \<le> m_maxItems q \<and> m_maxItems q \<le> 3600000)"
proof -
  obtain r db' where run: "MultiTypeQueue_init (\<lambda>_. Some ''1'') ''/data'' YNull (Some mem_persistence)
      (\<lambda>_. None) mem_queue_db = (r, db')" by fastforce
  then have "db' = mem_queue_db"
    by (auto simp: MultiTypeQueue_init_def Let_def split: result.splits)
  with queue_limits [OF run] run show ?thesis by auto
qed

text \<open>
  C10: the capacity is checked before the messages are stored, and not in the same step: two calls that
  both read the count while one place was left both store their message, and the queue ends up one
  message above its capacity.
\<close>

theorem concurrent_push_overfills:
  assumes "reliable_persistence P tables saved canon dinv" and "dinv db" "saved db = None"
    and "storage_table (tables db) t" "msg_ok J m1" "msg_ok J m2"
    and "length (msg_entries J m1) = 1" "length (msg_entries J m2) = 1"
    and "Suc (length (stored (tables db) t)) = m_maxItems q"
    and "push_store P J t m1 (space_available q (int (length (stored (tables db) t)))) db = (r1, db1)"
    and "push_store P J t m2 (space_available q (int (length (stored (tables db) t)))) db1 = (r2, db2)"
    and "m_maxItems q < 2 ^ 31"
  shows "r1 = Ok 1 \<and> r2 = Ok 1 \<and> length (stored (tables db2) t) = Suc (m_maxItems q)"
proof -
  note push = reliable_persistence.push_store_exact [OF assms(1)]
  let ?space = "space_available q (int (length (stored (tables db) t)))"
  have space: "?space = 1" using assms(9,12) by (simp add: space_available_def)
  from push [OF assms(2-5), of ?space] assms(7,10) space have d1: "r1 = Ok 1" "dinv db1" "saved db1 = None"
    "only_rows_of t (tables db) (tables db1)" "length (stored (tables db1) t) = m_maxItems q"
    using assms(9) by auto
  then have "storage_table (tables db1) t" using assms(4) by (simp add: only_rows_of_table)
  from push [OF d1(2,3) this assms(6), of ?space] assms(8,11) space d1 show ?thesis by auto
qed

theorem concurrent_push_overfills_witness:
  "\<exists>db1 db2. push_store mem_persistence tiny_lib ''COMMAND'' (str_message COMMAND [''a'']) (space_available (mem_queue 1) 0)
       mem_queue_db = (Ok 1, db1) \<and>
     push_store mem_persistence tiny_lib ''COMMAND'' (str_message COMMAND [''b'']) (space_available (mem_queue 1) 0) db1
       = (Ok 1, db2) \<and> length (stored (m_tables db2) ''COMMAND'') = 2"
proof -
  have name: "type_name COMMAND = ''COMMAND''" by (simp add: type_name_def COMMAND_TABLE_NAME_def)
  have empty: "stored (m_tables mem_queue_db) ''COMMAND'' = []"
    using mem_queue_db_ok(4) [of COMMAND] by (simp add: queue_def name)
  have st: "storage_table (m_tables mem_queue_db) ''COMMAND''"
    using mem_queue_db_ok(3) name unfolding queue_tables_def by metis
  have ok: "msg_ok tiny_lib (str_message COMMAND [''a''])" "msg_ok tiny_lib (str_message COMMAND [''b''])"
    by (rule str_message_ok, simp add: tiny_char_def)+
  have one: "length (msg_entries tiny_lib (str_message COMMAND [s])) = 1" for s
    by (simp add: msg_entries_def str_message_def)
  have cap: "Suc (length (stored (m_tables mem_queue_db) ''COMMAND'')) = m_maxItems (mem_queue 1)"
    "m_maxItems (mem_queue 1) < 2 ^ 31" by (simp_all add: empty)
  let ?space = "space_available (mem_queue 1) (int (length (stored (m_tables mem_queue_db) ''COMMAND'')))"
  obtain r1 db1 where run1: "push_store mem_persistence tiny_lib ''COMMAND'' (str_message COMMAND [''a'']) ?space
      mem_queue_db = (r1, db1)" by fastforce
  obtain r2 db2 where run2: "push_store mem_persistence tiny_lib ''COMMAND'' (str_message COMMAND [''b'']) ?space
      db1 = (r2, db2)" by fastforce
  from concurrent_push_overfills [OF memr.reliable_persistence_axioms, OF mem_queue_db_ok(1,2) st ok one one
      cap(1) run1 run2 cap(2)] run1 run2 empty
  show ?thesis by auto
qed

end
