(* ===== verification/Message_Queue_Utils.thy ===== *)
theory Message_Queue_Utils
  imports Multitype_Queue Command_Entry
begin

section \<open>Between the queue and its users\<close>

text \<open>
  \<^verbatim>\<open>src/src/agent/src/message_queue_utils.cpp\<close>: the functions that the agent binds into the
  communicator and the command handler. \<open>GetMessagesFromQueue\<close> makes the body of one request from the
  oldest messages, \<open>PopMessagesFromQueue\<close> removes them once the server has them;
  \<open>PushCommandsToQueue\<close> takes the commands out of a reply, \<open>GetCommandFromQueue\<close> reads the oldest.
\<close>

subsection \<open>Messages\<close>

text \<open>One message in the body: its metadata and its data, each on a line of its own.\<close>

definition message_text :: "json_lib \<Rightarrow> Message \<Rightarrow> string result" where
  "message_text J m =
     (case dump J (msg_data m) of
        None \<Rightarrow> Throw ''invalid UTF-8 byte''
      | Some s \<Rightarrow>
          Ok ((if msg_metaData m = [] then [] else CHR 0x0A # msg_metaData m) @
              (if s = ''{}'' then [] else CHR 0x0A # s)))"

fun messages_text :: "json_lib \<Rightarrow> Message list \<Rightarrow> string \<Rightarrow> string result" where
  "messages_text J [] output = Ok output"
| "messages_text J (m # ms) output =
     (case message_text J m of
        Ok s \<Rightarrow> messages_text J ms (output @ s)
      | Throw e \<Rightarrow> Throw e | Terminate \<Rightarrow> Terminate)"

definition GetMessagesFromQueue ::
  "'db MultiTypeQueue \<Rightarrow> json_lib \<Rightarrow> MessageType \<Rightarrow> nat \<Rightarrow> string option \<Rightarrow> ('db \<times> bool) list
     \<Rightarrow> (int \<times> string) result option" where
  "GetMessagesFromQueue q J messageType messagesSize metadataInfo seen =
     (let output = (case metadataInfo of None \<Rightarrow> [] | Some s \<Rightarrow> s) in
      case getNextBytesAwaitable q J messageType messagesSize [] [] seen of
        None \<Rightarrow> None
      | Some (Ok ms) \<Rightarrow> Some (map_result (\<lambda>s. (as_int32 (int (length ms)), s)) (messages_text J ms output))
      | Some (Throw e) \<Rightarrow> Some (Throw e)
      | Some Terminate \<Rightarrow> Some Terminate)"

definition PopMessagesFromQueue ::
  "'db MultiTypeQueue \<Rightarrow> MessageType \<Rightarrow> int \<Rightarrow> 'db \<Rightarrow> unit result \<times> 'db" where
  "PopMessagesFromQueue q messageType numMessages db =
     apfst (map_result (\<lambda>_. ())) (popN q messageType numMessages [] [] db)"

subsection \<open>Commands\<close>

definition command_message :: "json \<Rightarrow> Message" where
  "command_message command =
     \<lparr>msg_type = COMMAND, msg_data = command, msg_moduleName = [], msg_moduleType = [], msg_metaData = []\<rparr>"

definition PushCommandsToQueue ::
  "'db MultiTypeQueue \<Rightarrow> json_lib \<Rightarrow> string \<Rightarrow> 'db \<Rightarrow> unit result \<times> 'db" where
  "PushCommandsToQueue q J commands db =
     (case parse J commands of
        None \<Rightarrow> (Throw ''parse error'', db)
      | Some jsonObj \<Rightarrow>
          if contains jsonObj ''commands'' \<and> is_array (json_at jsonObj ''commands'') then
            (let ms = map command_message (json_items (json_at jsonObj ''commands'')) in
             if ms \<noteq> [] then apfst (map_result (\<lambda>_. ())) (push_all q J ms 0 db) else (Ok (), db))
          else (Ok (), db))"

text \<open>A member of the wanted kind, if there is one.\<close>

definition member_of_kind :: "(json \<Rightarrow> bool) \<Rightarrow> json \<Rightarrow> string \<Rightarrow> json option" where
  "member_of_kind kind j k = (if contains j k \<and> kind (json_at j k) then Some (json_at j k) else None)"

definition string_member :: "json \<Rightarrow> string \<Rightarrow> string" where
  "string_member j k = (case member_of_kind is_string j k of Some (JStr s) \<Rightarrow> s | _ \<Rightarrow> [])"

definition command_of_json :: "json \<Rightarrow> CommandEntry" where
  "command_of_json jsonData =
     (let i = string_member jsonData ''document_id'';
          (command, parameters) =
            (case member_of_kind is_object jsonData ''action'' of
               None \<Rightarrow> ([], JObj [])
             | Some action \<Rightarrow>
                 (string_member action ''name'',
                  case member_of_kind is_object action ''args'' of None \<Rightarrow> JObj [] | Some args \<Rightarrow> args))
      in command_entry i [] command parameters ASYNC [] IN_PROGRESS)"

definition GetCommandFromQueue ::
  "'db MultiTypeQueue \<Rightarrow> json_lib \<Rightarrow> 'db \<Rightarrow> CommandEntry option result" where
  "GetCommandFromQueue q J db =
     (case isEmpty q COMMAND [] [] db of
        Ok True \<Rightarrow> Ok None
      | Ok False \<Rightarrow> map_result (\<lambda>m. Some (command_of_json (msg_data m))) (getNext q J COMMAND [] [] db)
      | Throw e \<Rightarrow> Throw e | Terminate \<Rightarrow> Terminate)"

definition PopCommandFromQueue :: "'db MultiTypeQueue \<Rightarrow> 'db \<Rightarrow> unit result \<times> 'db" where
  "PopCommandFromQueue q db = apfst (map_result (\<lambda>_. ())) (pop q COMMAND [] [] db)"

end
