(* ===== verification/Communicator.thy ===== *)
theory Communicator
  imports Message_Queue_Utils
begin

section \<open>The communicator\<close>

text \<open>
  \<^verbatim>\<open>src/src/agent/communicator/src/communicator.cpp\<close> and
  \<^verbatim>\<open>src/src/agent/http_client/src/http_request_params.cpp\<close>: authentication with the manager, the renewal of
  the token, and the request loop that sends the messages of a queue and fetches commands.

  What is outside is an argument: \<open>parse_uri\<close> splits a URL into scheme, host and port, \<open>http\<close> answers
  a request with a status and a body, \<open>jwt_exp\<close> reads the expiry of a token (\<open>None\<close> where the library
  throws), \<open>now\<close> is the clock in seconds. The coroutines run against a script of what they meet: one
  \<open>round\<close> per iteration of the request loop.
\<close>

subsection \<open>Requests\<close>

definition HTTP_CODE_OK :: int where "HTTP_CODE_OK = 200"
definition HTTP_CODE_MULTIPLE_CHOICES :: int where "HTTP_CODE_MULTIPLE_CHOICES = 300"
definition HTTP_CODE_UNAUTHORIZED :: int where "HTTP_CODE_UNAUTHORIZED = 401"
definition HTTP_CODE_FORBIDDEN :: int where "HTTP_CODE_FORBIDDEN = 403"
definition HTTP_CODE_TIMEOUT :: int where "HTTP_CODE_TIMEOUT = 408"

lemmas http_code_defs = HTTP_CODE_OK_def HTTP_CODE_MULTIPLE_CHOICES_def HTTP_CODE_UNAUTHORIZED_def
  HTTP_CODE_FORBIDDEN_def HTTP_CODE_TIMEOUT_def

datatype MethodType = GET | POST | PUT | DELETE_

text \<open>\<^verbatim>\<open>Use_Https\<close> is not initialised (\<open>None\<close>) when the constructor returns early.\<close>

record HttpRequestParams =
  Method :: MethodType
  Host :: string
  Port :: string
  Endpoint :: string
  User_agent :: string
  Verification_Mode :: string
  Token :: string
  User_pass :: string
  Body :: string
  Use_Https :: "bool option"
  RequestTimeout :: int

record url =
  scheme :: string
  host :: string
  port :: string

type_synonym uri_parser = "string \<Rightarrow> url option"
type_synonym http = "HttpRequestParams \<Rightarrow> int \<times> string"

definition make_params ::
  "uri_parser \<Rightarrow> MethodType \<Rightarrow> string \<Rightarrow> string \<Rightarrow> string \<Rightarrow> string \<Rightarrow> string \<Rightarrow> string \<Rightarrow> string \<Rightarrow> int
     \<Rightarrow> HttpRequestParams" where
  "make_params parse_uri meth serverUrl endpoint userAgent verificationMode token userPass body timeout =
     (let p = \<lparr>Method = meth, Host = [], Port = [], Endpoint = endpoint, User_agent = userAgent,
               Verification_Mode = verificationMode, Token = token, User_pass = userPass, Body = body,
               Use_Https = None, RequestTimeout = timeout\<rparr>
      in case parse_uri serverUrl of
           None \<Rightarrow> p
         | Some url \<Rightarrow>
             if scheme url \<noteq> ''http'' \<and> scheme url \<noteq> ''https'' then p
             else if host url = [] then p
             else let https = (scheme url = ''https'')
                  in p\<lparr>Use_Https := Some https, Host := host url,
                       Port := (if port url \<noteq> [] then port url else if https then ''443'' else ''80'')\<rparr>)"

subsection \<open>The constructor\<close>

definition MIN_BATCH_SIZE :: int where "MIN_BATCH_SIZE = 1000"
definition MAX_BATCH_SIZE :: int where "MAX_BATCH_SIZE = 100000000"
definition TOKEN_PRE_EXPIRY_SECS :: int where "TOKEN_PRE_EXPIRY_SECS = 2"
definition A_SECOND_IN_MS :: int where "A_SECOND_IN_MS = 1000"
definition COMMANDS_REQUEST_TIMEOUT_MAX :: int where "COMMANDS_REQUEST_TIMEOUT_MAX = 10 * A_SECOND_IN_MS"
definition COMMANDS_REQUEST_TIMEOUT_MIN :: int where "COMMANDS_REQUEST_TIMEOUT_MIN = 15 * 60 * A_SECOND_IN_MS"
definition DEFAULT_SERVER_URL :: string where "DEFAULT_SERVER_URL = ''https://localhost:27000''"
definition DEFAULT_RETRY_INTERVAL :: string where "DEFAULT_RETRY_INTERVAL = ''30000ms''"
definition DEFAULT_BATCH_SIZE :: string where "DEFAULT_BATCH_SIZE = ''1000000B''"
definition DEFAULT_VERIFICATION_MODE :: string where "DEFAULT_VERIFICATION_MODE = ''none''"
definition DEFAULT_COMMANDS_REQUEST_TIMEOUT :: string where "DEFAULT_COMMANDS_REQUEST_TIMEOUT = ''11m''"
definition VALID_VERIFICATION_MODES :: "string list" where
  "VALID_VERIFICATION_MODES = [''full'', ''certificate'', ''none'']"

record Communicator =
  m_keepRunning :: bool
  m_retryInterval :: int
  m_batchSize :: nat
  m_serverUrl :: string
  m_uuid :: string
  m_key :: string
  m_headerInfo :: string
  m_token :: string
  m_tokenExpTimeInSeconds :: int
  m_verificationMode :: string
  m_timeoutCommands :: int

text \<open>
  The settings that the constructor reads after it has the server's address.
\<close>

definition read_settings ::
  "(yaml \<Rightarrow> string option) \<Rightarrow> yaml \<Rightarrow> string \<Rightarrow> string \<Rightarrow> string \<Rightarrow> string \<Rightarrow> Communicator result" where
  "read_settings as cfg serverUrl uuid key headerInfo =
     (let mode = GetConfigOrDefault as DEFAULT_VERIFICATION_MODE [''agent'', ''verification_mode''] cfg;
          mode' = (if mode \<in> set VALID_VERIFICATION_MODES then mode else DEFAULT_VERIFICATION_MODE)
      in case GetTimeConfigOrDefault as DEFAULT_RETRY_INTERVAL [''agent'', ''retry_interval''] cfg of
           Ok retryInterval \<Rightarrow>
             (case GetBytesConfigInRangeOrDefault as DEFAULT_BATCH_SIZE MIN_BATCH_SIZE MAX_BATCH_SIZE
                     [''events'', ''batch_size''] cfg of
                Ok batchSize \<Rightarrow>
                  (case GetTimeConfigInRangeOrDefault as DEFAULT_COMMANDS_REQUEST_TIMEOUT
                          COMMANDS_REQUEST_TIMEOUT_MIN COMMANDS_REQUEST_TIMEOUT_MAX
                          [''agent'', ''commands_request_timeout''] cfg of
                     Ok timeoutCommands \<Rightarrow>
                       Ok \<lparr>m_keepRunning = True, m_retryInterval = retryInterval,
                           m_batchSize = nat batchSize, m_serverUrl = serverUrl, m_uuid = uuid,
                           m_key = key, m_headerInfo = headerInfo, m_token = [],
                           m_tokenExpTimeInSeconds = 0, m_verificationMode = mode',
                           m_timeoutCommands = timeoutCommands\<rparr>
                   | Throw e \<Rightarrow> Throw e | Terminate \<Rightarrow> Terminate)
              | Throw e \<Rightarrow> Throw e | Terminate \<Rightarrow> Terminate)
         | Throw e \<Rightarrow> Throw e | Terminate \<Rightarrow> Terminate)"

text \<open>
  \<open>httpClient\<close>: a client was passed. \<open>configurationParser\<close>: the document of the parser that was passed, if one was.
  \<open>url_error\<close> stands for the constructor of \<^verbatim>\<open>boost::urls::url_view\<close>: it gives the message of the exception for a text
  that is no URL reference, and \<open>None\<close> for one that is. The scheme of the URL only decides what is logged.
\<close>

definition Communicator_init ::
  "(string \<Rightarrow> string option) \<Rightarrow> bool \<Rightarrow> (yaml \<Rightarrow> string option) \<Rightarrow> yaml option \<Rightarrow> string \<Rightarrow> string \<Rightarrow> string
     \<Rightarrow> Communicator result" where
  "Communicator_init url_error httpClient as configurationParser uuid key headerInfo =
     (if \<not> httpClient then Throw ''Invalid HTTP Client passed.''
      else case configurationParser of
        None \<Rightarrow> Throw ''Invalid Configuration Parser passed.''
      | Some cfg \<Rightarrow>
          let serverUrl = GetConfigOrDefault as DEFAULT_SERVER_URL [''agent'', ''server_url''] cfg
          in case url_error serverUrl of
               Some e \<Rightarrow> Throw e
             | None \<Rightarrow> read_settings as cfg serverUrl uuid key headerInfo)"

definition Stop :: "Communicator \<Rightarrow> Communicator" where
  "Stop c = c\<lparr>m_keepRunning := False\<rparr>"

subsection \<open>Authentication\<close>

definition auth_body :: "string \<Rightarrow> string \<Rightarrow> string" where
  "auth_body uuid key =
     [CHR 0x7B, CHR 0x22] @ ''uuid'' @ [CHR 0x22, CHR 0x3A, CHR 0x22] @ uuid @
     [CHR 0x22] @ '', '' @ [CHR 0x22] @ ''key'' @ [CHR 0x22, CHR 0x3A, CHR 0x22] @ key @
     [CHR 0x22, CHR 0x7D]"

text \<open>\<^verbatim>\<open>parse(body).at(k).get_ref<const std::string&>()\<close>, where it does not throw.\<close>

definition body_string :: "json_lib \<Rightarrow> string \<Rightarrow> string \<Rightarrow> string option" where
  "body_string J body k =
     (case parse J body of
        None \<Rightarrow> None
      | Some j \<Rightarrow> (case json_get j k of Some (JStr s) \<Rightarrow> Some s | _ \<Rightarrow> None))"

definition is_success :: "int \<Rightarrow> bool" where
  "is_success statusCode \<longleftrightarrow> HTTP_CODE_OK \<le> statusCode \<and> statusCode < HTTP_CODE_MULTIPLE_CHOICES"

definition is_rejected :: "int \<Rightarrow> bool" where
  "is_rejected statusCode \<longleftrightarrow> statusCode = HTTP_CODE_UNAUTHORIZED \<or> statusCode = HTTP_CODE_FORBIDDEN"

definition AuthenticateWithUuidAndKey ::
  "uri_parser \<Rightarrow> http \<Rightarrow> json_lib \<Rightarrow> Communicator \<Rightarrow> string option result" where
  "AuthenticateWithUuidAndKey parse_uri http J c =
     (let (statusCode, responseBody) =
        http (make_params parse_uri POST (m_serverUrl c) ''/api/v1/authentication'' (m_headerInfo c)
                (m_verificationMode c) [] [] (auth_body (m_uuid c) (m_key c)) 0)
      in
      if \<not> is_success statusCode then
        if is_rejected statusCode then
          (let message = (case body_string J responseBody ''message'' of None \<Rightarrow> [] | Some s \<Rightarrow> s) in
           if message = ''Invalid key'' \<or> message = ''Agent does not exist'' then Throw message else Ok None)
        else Ok None
      else Ok (body_string J responseBody ''token''))"

definition SendAuthenticationRequest ::
  "uri_parser \<Rightarrow> http \<Rightarrow> json_lib \<Rightarrow> (string \<Rightarrow> int option) \<Rightarrow> Communicator \<Rightarrow> bool result \<times> Communicator" where
  "SendAuthenticationRequest parse_uri http J jwt_exp c =
     (case AuthenticateWithUuidAndKey parse_uri http J c of
        Ok (Some token) \<Rightarrow>
          (case jwt_exp token of
             Some e \<Rightarrow> (Ok True, c\<lparr>m_token := token, m_tokenExpTimeInSeconds := e\<rparr>)
           | None \<Rightarrow> (Ok False, c\<lparr>m_token := [], m_tokenExpTimeInSeconds := 1\<rparr>))
      | Ok None \<Rightarrow> (Ok False, c)
      | Throw e \<Rightarrow> (Throw e, c)
      | Terminate \<Rightarrow> (Terminate, c))"

definition GetTokenRemainingSecs :: "int \<Rightarrow> Communicator \<Rightarrow> int" where
  "GetTokenRemainingSecs now c = max 0 (m_tokenExpTimeInSeconds c - now)"

text \<open>
  The renewal task: the delay before the first attempt, one attempt with the delay that follows it,
  and the loop over what the attempts meet (the clock after the request, the HTTP client, and whether
  to go on).
\<close>

definition first_delay :: "int \<Rightarrow> Communicator \<Rightarrow> int option" where
  "first_delay now c =
     (let remainingSecs = GetTokenRemainingSecs now c in
      if remainingSecs > TOKEN_PRE_EXPIRY_SECS
      then Some ((remainingSecs - TOKEN_PRE_EXPIRY_SECS) * A_SECOND_IN_MS) else None)"

definition renew_token ::
  "uri_parser \<Rightarrow> json_lib \<Rightarrow> (string \<Rightarrow> int option) \<Rightarrow> http \<Rightarrow> int \<Rightarrow> Communicator \<Rightarrow> int \<times> Communicator" where
  "renew_token parse_uri J jwt_exp http now c =
     (case SendAuthenticationRequest parse_uri http J jwt_exp c of
        (Ok True, c') \<Rightarrow> ((GetTokenRemainingSecs now c' - TOKEN_PRE_EXPIRY_SECS) * A_SECOND_IN_MS, c')
      | (_, c') \<Rightarrow> (m_retryInterval c', c'))"

fun WaitForTokenExpirationAndAuthenticate ::
  "uri_parser \<Rightarrow> json_lib \<Rightarrow> (string \<Rightarrow> int option) \<Rightarrow> (bool \<times> http \<times> int) list \<Rightarrow> Communicator
     \<Rightarrow> int list \<times> Communicator" where
  "WaitForTokenExpirationAndAuthenticate parse_uri J jwt_exp [] c = ([], c)"
| "WaitForTokenExpirationAndAuthenticate parse_uri J jwt_exp ((keepRunning, http, now) # rest) c =
     (if \<not> keepRunning then ([], c)
      else let (delay, c') = renew_token parse_uri J jwt_exp http now c
           in apfst ((#) delay) (WaitForTokenExpirationAndAuthenticate parse_uri J jwt_exp rest c'))"

subsection \<open>The request loop\<close>

text \<open>
  The inner loop: each poll sees \<^verbatim>\<open>m_keepRunning\<close> and, when it goes on, what the getter sees. When the
  agent is stopping it ends with a count of zero and the body of the request before.
\<close>

fun poll_messages ::
  "('o \<Rightarrow> (int \<times> string) result option) \<Rightarrow> (bool \<times> 'o) list \<Rightarrow> string \<Rightarrow> (int \<times> string) result option" where
  "poll_messages getter [] body = None"
| "poll_messages getter ((keepRunning, ob) # polls) body =
     (if \<not> keepRunning then Some (Ok (0, body))
      else case getter ob of
             None \<Rightarrow> None
           | Some (Ok (messagesCount, b)) \<Rightarrow>
               if messagesCount \<noteq> 0 then Some (Ok (messagesCount, b)) else poll_messages getter polls body
           | Some (Throw e) \<Rightarrow> Some (Throw e)
           | Some Terminate \<Rightarrow> Some Terminate)"

text \<open>The end of an iteration: the callback on a success, and the delay before the next one.\<close>

definition handle_reply ::
  "Communicator \<Rightarrow> (int \<Rightarrow> string \<Rightarrow> 's \<Rightarrow> unit result \<times> 's) option \<Rightarrow> int \<Rightarrow> int \<times> string \<Rightarrow> 's
     \<Rightarrow> unit result \<times> 's" where
  "handle_reply c onSuccess messagesCount reply s =
     (if is_success (fst reply) then
        (case onSuccess of None \<Rightarrow> (Ok (), s) | Some f \<Rightarrow> f messagesCount (snd reply) s)
      else (Ok (), s))"

definition reply_delay :: "Communicator \<Rightarrow> int \<Rightarrow> int" where
  "reply_delay c statusCode =
     (if \<not> is_success statusCode \<and> statusCode \<noteq> HTTP_CODE_TIMEOUT then m_retryInterval c else A_SECOND_IN_MS)"

definition reauthenticates :: "int \<Rightarrow> bool" where
  "reauthenticates statusCode \<longleftrightarrow> \<not> is_success statusCode \<and> is_rejected statusCode"

record ('o, 's) round =
  r_token :: string
  r_polls :: "(bool \<times> 'o) list"
  r_http :: http
  r_world :: "'s \<Rightarrow> 's"
  r_keep :: bool

datatype ('s) loop_out = Waiting HttpRequestParams 's | Stopped HttpRequestParams 's | Failed string 's | Undefined

fun ExecuteRequestLoop ::
  "Communicator \<Rightarrow> ('o \<Rightarrow> (int \<times> string) result option) option
     \<Rightarrow> (int \<Rightarrow> string \<Rightarrow> 's \<Rightarrow> unit result \<times> 's) option \<Rightarrow> ('o, 's) round list \<Rightarrow> HttpRequestParams \<Rightarrow> 's
     \<Rightarrow> 's loop_out" where
  "ExecuteRequestLoop c getter onSuccess [] params s = Waiting params s"
| "ExecuteRequestLoop c getter onSuccess (r # rounds) params s =
     (if r_token r = [] then
        (if r_keep r then ExecuteRequestLoop c getter onSuccess rounds params s else Stopped params s)
      else
        case (case getter of None \<Rightarrow> Some (Ok (0, []))
              | Some g \<Rightarrow> poll_messages g (r_polls r) (Body params)) of
          None \<Rightarrow> Waiting params s
        | Some (Throw e) \<Rightarrow> Failed e s
        | Some Terminate \<Rightarrow> Undefined
        | Some (Ok (messagesCount, b)) \<Rightarrow>
            let params' = params\<lparr>Body := b, Token := r_token r\<rparr> in
            (case handle_reply c onSuccess messagesCount (r_http r params') (r_world r s) of
               (Ok _, s') \<Rightarrow>
                 if r_keep r then ExecuteRequestLoop c getter onSuccess rounds params' s'
                 else Stopped params' s'
             | (Throw e, s') \<Rightarrow> Failed e s'
             | (Terminate, s') \<Rightarrow> Undefined))"

subsection \<open>The tasks\<close>

definition commands_params :: "uri_parser \<Rightarrow> Communicator \<Rightarrow> HttpRequestParams" where
  "commands_params parse_uri c =
     make_params parse_uri GET (m_serverUrl c) ''/api/v1/commands'' (m_headerInfo c) (m_verificationMode c)
       [] [] [] (m_timeoutCommands c)"

definition GetCommandsFromManager ::
  "uri_parser \<Rightarrow> Communicator \<Rightarrow> (int \<Rightarrow> string \<Rightarrow> 's \<Rightarrow> unit result \<times> 's) \<Rightarrow> (unit, 's) round list \<Rightarrow> 's
     \<Rightarrow> 's loop_out" where
  "GetCommandsFromManager parse_uri c onSuccess rounds =
     ExecuteRequestLoop c None (Some onSuccess) rounds (commands_params parse_uri c)"

definition events_params :: "uri_parser \<Rightarrow> Communicator \<Rightarrow> string \<Rightarrow> HttpRequestParams" where
  "events_params parse_uri c endpoint =
     make_params parse_uri POST (m_serverUrl c) endpoint (m_headerInfo c) (m_verificationMode c) [] [] [] 0"

definition StatefulMessageProcessingTask ::
  "uri_parser \<Rightarrow> Communicator \<Rightarrow> (nat \<Rightarrow> 'o \<Rightarrow> (int \<times> string) result option)
     \<Rightarrow> (int \<Rightarrow> string \<Rightarrow> 's \<Rightarrow> unit result \<times> 's) \<Rightarrow> ('o, 's) round list \<Rightarrow> 's \<Rightarrow> 's loop_out" where
  "StatefulMessageProcessingTask parse_uri c getMessages onSuccess rounds =
     ExecuteRequestLoop c (Some (getMessages (m_batchSize c))) (Some onSuccess) rounds
       (events_params parse_uri c ''/api/v1/events/stateful'')"

definition StatelessMessageProcessingTask ::
  "uri_parser \<Rightarrow> Communicator \<Rightarrow> (nat \<Rightarrow> 'o \<Rightarrow> (int \<times> string) result option)
     \<Rightarrow> (int \<Rightarrow> string \<Rightarrow> 's \<Rightarrow> unit result \<times> 's) \<Rightarrow> ('o, 's) round list \<Rightarrow> 's \<Rightarrow> 's loop_out" where
  "StatelessMessageProcessingTask parse_uri c getMessages onSuccess rounds =
     ExecuteRequestLoop c (Some (getMessages (m_batchSize c))) (Some onSuccess) rounds
       (events_params parse_uri c ''/api/v1/events/stateless'')"

text \<open>
  The download of a group's file: the content to write, if the file can be opened (\<open>can_open\<close>), and
  whether a re-authentication is tried.
\<close>

definition GetGroupConfigurationFromManager ::
  "uri_parser \<Rightarrow> http \<Rightarrow> string \<Rightarrow> bool \<Rightarrow> Communicator \<Rightarrow> string option \<times> bool" where
  "GetGroupConfigurationFromManager parse_uri http groupName can_open c =
     (if m_token c = [] then (None, False)
      else let (statusCode, responseBody) =
             http (make_params parse_uri GET (m_serverUrl c)
                     (''/api/v1/files?file_name='' @ groupName @ ''.yml'') (m_headerInfo c)
                     (m_verificationMode c) (m_token c) [] [] 0)
           in if is_success statusCode then (if can_open then Some responseBody else None, False)
              else (None, is_rejected statusCode))"

subsection \<open>Properties\<close>

lemmas communicator_limit_defs = MIN_BATCH_SIZE_def MAX_BATCH_SIZE_def A_SECOND_IN_MS_def
  COMMANDS_REQUEST_TIMEOUT_MIN_def COMMANDS_REQUEST_TIMEOUT_MAX_def

lemma default_settings:
  "ParseTimeUnit DEFAULT_RETRY_INTERVAL = Ok 30000" "ParseSizeUnit DEFAULT_BATCH_SIZE = Ok 1000000"
  "ParseTimeUnit DEFAULT_COMMANDS_REQUEST_TIMEOUT = Ok 660000"
  by (simp_all add: DEFAULT_RETRY_INTERVAL_def DEFAULT_BATCH_SIZE_def DEFAULT_COMMANDS_REQUEST_TIMEOUT_def parse_eval)

lemma read_settings_ok:
  "\<exists>c. read_settings as cfg url uuid key headerInfo = Ok c \<and> m_serverUrl c = url \<and>
     1 \<le> m_retryInterval c \<and> 1000 \<le> m_batchSize c \<and> m_batchSize c \<le> 100000000 \<and>
     m_verificationMode c \<in> set VALID_VERIFICATION_MODES \<and> m_timeoutCommands c = 660000"
proof -
  obtain r where r: "GetTimeConfigOrDefault as DEFAULT_RETRY_INTERVAL [''agent'', ''retry_interval''] cfg = Ok r" "1 \<le> r"
    using parsed_in_range [of ParseTimeUnit, OF default_settings(1), of 1 "2 ^ 63 - 1"] parse_no_terminate
    by (fastforce simp: GetTimeConfigOrDefault_def GetTimeConfigInRangeOrDefault_def)
  obtain b where b: "GetBytesConfigInRangeOrDefault as DEFAULT_BATCH_SIZE MIN_BATCH_SIZE MAX_BATCH_SIZE
      [''events'', ''batch_size''] cfg = Ok b" "1000 \<le> b" "b \<le> 100000000"
    using parsed_in_range [of ParseSizeUnit, OF default_settings(2), of 1000 100000000] parse_no_terminate
    by (fastforce simp: GetBytesConfigInRangeOrDefault_def communicator_limit_defs)
  have "GetTimeConfigInRangeOrDefault as DEFAULT_COMMANDS_REQUEST_TIMEOUT COMMANDS_REQUEST_TIMEOUT_MIN
      COMMANDS_REQUEST_TIMEOUT_MAX [''agent'', ''commands_request_timeout''] cfg = Ok 660000"
    by (simp add: GetTimeConfigInRangeOrDefault_def GetParsedConfigInRangeOrDefault_def
        communicator_limit_defs default_settings)
  with r b show ?thesis
    by (auto simp: read_settings_def Let_def VALID_VERIFICATION_MODES_def DEFAULT_VERIFICATION_MODE_def)
qed

text \<open>
  C15: the constructor throws in three cases only: no HTTP client, no configuration parser, and a server URL
  (the configured one, or the default) that does not parse. Otherwise the communicator is constructed,
  whatever the configuration document holds, with that URL, a retry interval of at least one millisecond, a
  batch size between 1000 and 100000000 bytes and one of the three verification modes; and the
  timeout of the requests for commands is always the default of eleven minutes, whatever the document
  says, because the lower limit of its range is above the upper one.
\<close>

theorem Communicator_settings:
  "Communicator_init url_error False as parser uuid key headerInfo = Throw ''Invalid HTTP Client passed.'' \<and>
   Communicator_init url_error True as None uuid key headerInfo = Throw ''Invalid Configuration Parser passed.'' \<and>
   (let url = GetConfigOrDefault as DEFAULT_SERVER_URL [''agent'', ''server_url''] cfg;
        made = Communicator_init url_error True as (Some cfg) uuid key headerInfo
    in case url_error url of
         Some e \<Rightarrow> made = Throw e
       | None \<Rightarrow>
           \<exists>c. made = Ok c \<and> m_serverUrl c = url \<and>
             1 \<le> m_retryInterval c \<and> 1000 \<le> m_batchSize c \<and> m_batchSize c \<le> 100000000 \<and>
             m_verificationMode c \<in> set VALID_VERIFICATION_MODES \<and> m_timeoutCommands c = 660000)"
  using read_settings_ok [of as cfg _ uuid key headerInfo] by (simp add: Communicator_init_def Let_def split: option.split)

text \<open>What the token and its expiry satisfy after the constructor and after every attempt to authenticate.\<close>

definition token_known :: "(string \<Rightarrow> int option) \<Rightarrow> Communicator \<Rightarrow> bool" where
  "token_known jwt_exp c \<longleftrightarrow> m_token c = [] \<or> jwt_exp (m_token c) = Some (m_tokenExpTimeInSeconds c)"

lemma SendAuthenticationRequest_known:
  "token_known jwt_exp c \<Longrightarrow> token_known jwt_exp (snd (SendAuthenticationRequest parse_uri http J jwt_exp c))"
  by (auto simp: SendAuthenticationRequest_def token_known_def split: result.splits option.splits)

lemma renew_token_known:
  "token_known jwt_exp c \<Longrightarrow> renew_token parse_uri J jwt_exp http now c = (delay, c') \<Longrightarrow> token_known jwt_exp c'"
  using SendAuthenticationRequest_known [of jwt_exp c parse_uri http J]
  by (auto simp: renew_token_def split: prod.splits result.splits bool.splits)

lemma WaitForToken_known:
  "token_known jwt_exp c \<Longrightarrow>
   token_known jwt_exp (snd (WaitForTokenExpirationAndAuthenticate parse_uri J jwt_exp env c))"
proof (induction parse_uri J jwt_exp env c rule: WaitForTokenExpirationAndAuthenticate.induct)
  case (2 parse_uri J jwt_exp keepRunning http now rest c)
  obtain delay c' where "renew_token parse_uri J jwt_exp http now c = (delay, c')" by fastforce
  with 2 renew_token_known [OF 2(2) this] show ?case by simp
qed simp

lemma Communicator_init_known:
  "Communicator_init url_error client as parser uuid key h = Ok c \<Longrightarrow> token_known jwt_exp c"
  by (auto simp: Communicator_init_def read_settings_def token_known_def Let_def split: result.splits option.splits if_splits)

text \<open>A JSON library that reads every body as an answer with that token.\<close>

definition token_lib :: json_lib where
  "token_lib = tiny_lib\<lparr>parse := \<lambda>t. Some (JObj [(''token'', JStr t)])\<rparr>"

lemmas token_eval = SendAuthenticationRequest_def AuthenticateWithUuidAndKey_def is_success_def is_rejected_def
  http_code_defs body_string_def token_lib_def

lemma default_communicator: "\<exists>c. Communicator_init (\<lambda>_. None) True (\<lambda>_. None) (Some YNull) uuid key headerInfo = Ok c"
  using read_settings_ok by (fastforce simp: Communicator_init_def Let_def)

text \<open>
  Whatever the server answers and however often the renewal task runs, the communicator holds no
  token, or a token together with the expiry time that token carries; a token whose expiry cannot be
  read is never kept for a request.
\<close>

theorem token_expiry_known:
  assumes "Communicator_init url_error client as parser uuid key headerInfo = Ok c"
    and "SendAuthenticationRequest parse_uri http J jwt_exp c = (r, c1)"
    and "WaitForTokenExpirationAndAuthenticate parse_uri J jwt_exp env c1 = (delays, c2)"
  shows "m_token c2 = [] \<or> jwt_exp (m_token c2) = Some (m_tokenExpTimeInSeconds c2)"
proof -
  have "token_known jwt_exp c1"
    using SendAuthenticationRequest_known [OF Communicator_init_known [OF assms(1)]] assms(2) by (metis snd_conv)
  from WaitForToken_known [OF this] assms(3) show ?thesis by (metis snd_conv token_known_def)
qed

theorem token_expiry_known_witness:
  "\<exists>c c1 c2. Communicator_init (\<lambda>_. None) True (\<lambda>_. None) (Some YNull) [] [] [] = Ok c \<and>
     SendAuthenticationRequest (\<lambda>_. None) (\<lambda>_. (200, ''t'')) token_lib (\<lambda>_. Some 7) c = (Ok True, c1) \<and>
     snd (WaitForTokenExpirationAndAuthenticate (\<lambda>_. None) token_lib (\<lambda>_. Some 7)
        [(True, \<lambda>_. (200, ''u''), 0), (True, \<lambda>_. (500, []), 5)] c1) = c2 \<and>
     m_token c2 = ''u'' \<and> m_tokenExpTimeInSeconds c2 = 7"
proof -
  obtain c where c: "Communicator_init (\<lambda>_. None) True (\<lambda>_. None) (Some YNull) [] [] [] = Ok c" using default_communicator by blast
  let ?env = "[(True, \<lambda>_. (200, ''u''), 0), (True, \<lambda>_. (500, []), 5)]"
  obtain c1 where c1: "SendAuthenticationRequest (\<lambda>_. None) (\<lambda>_. (200, ''t'')) token_lib (\<lambda>_. Some 7) c = (Ok True, c1)"
    by (simp add: token_eval)
  obtain ds c2 where c2: "WaitForTokenExpirationAndAuthenticate (\<lambda>_. None) token_lib (\<lambda>_. Some 7) ?env c1 = (ds, c2)"
    by fastforce
  then have t: "m_token c2 = ''u''" by (auto simp: token_eval renew_token_def)
  from token_expiry_known [OF c c1 c2] t have "m_tokenExpTimeInSeconds c2 = 7" by simp
  with c c1 c2 t show ?thesis by (intro exI [of _ c] exI [of _ c1] exI [of _ c2]) simp
qed

text \<open>
  C16: one reply to the request for commands that has a success status and is not JSON ends the fetching
  of commands for good: the exception of the parser leaves the loop, whatever rounds were to follow,
  and nothing is queued.
\<close>

theorem bad_reply_ends_fetch:
  assumes "r_token r \<noteq> []"
    and "r_http r ((commands_params parse_uri c)\<lparr>Body := [], Token := r_token r\<rparr>) = (statusCode, response)"
    and "is_success statusCode" "parse J response = None"
  shows "GetCommandsFromManager parse_uri c (\<lambda>_. PushCommandsToQueue q J) (r # rounds) db =
    Failed ''parse error'' (r_world r db)"
  using assms
  by (simp add: GetCommandsFromManager_def handle_reply_def PushCommandsToQueue_def)

theorem bad_reply_ends_fetch_witness:
  "\<exists>c. Communicator_init (\<lambda>_. None) True (\<lambda>_. None) (Some YNull) [] [] [] = Ok c \<and>
     GetCommandsFromManager (\<lambda>_. None) c (\<lambda>_. PushCommandsToQueue (mem_queue 1) tiny_lib)
       [\<lparr>r_token = ''t'', r_polls = [], r_http = \<lambda>_. (200, ''<html>''), r_world = id, r_keep = True\<rparr>,
        \<lparr>r_token = ''t'', r_polls = [], r_http = \<lambda>_. (200, ''{}''), r_world = id, r_keep = True\<rparr>] mem_queue_db
     = Failed ''parse error'' mem_queue_db"
proof -
  obtain c where c: "Communicator_init (\<lambda>_. None) True (\<lambda>_. None) (Some YNull) [] [] [] = Ok c" using default_communicator by blast
  let ?r = "\<lparr>r_token = ''t'', r_polls = [] :: (bool \<times> unit) list, r_http = \<lambda>_. (200, ''<html>''),
    r_world = id :: mem_db \<Rightarrow> mem_db, r_keep = True\<rparr>"
  have "is_success 200" by (simp add: is_success_def http_code_defs)
  moreover have "parse tiny_lib ''<html>'' = None" by (simp add: tiny_lib_def tiny_eval)
  ultimately show ?thesis
    using bad_reply_ends_fetch [of ?r "\<lambda>_. None" c 200 "''<html>''" tiny_lib] c by simp
qed

end
