(* ===== verification/Message_Delivery.thy ===== *)
theory Message_Delivery
  imports Communicator
begin

section \<open>Delivery of the messages\<close>

text \<open>
  The composition that \<^verbatim>\<open>Agent::Run\<close> (\<^verbatim>\<open>src/src/agent/src/agent.cpp\<close>) makes for the stateful and for the
  stateless messages: the request loop of the communicator, with the queue's \<open>GetMessagesFromQueue\<close> as
  the getter and \<open>PopMessagesFromQueue\<close> as the callback. While a request is under way the modules go
  on pushing, and the other loops go on removing messages of other types.

  \<open>sender_step\<close> is that system, one rule per action, built from the operations of the loop. The last
  three fields of a state are ghosts: the messages of the request under way, those that were accepted
  into the queue, and those whose request the server acknowledged.

  \<open>s_phase\<close> is the place of the loop while no request is under way. \<open>AtToken\<close>: an iteration begins, with
  the test of the token. \<open>AtPoll\<close>: before the test of \<^verbatim>\<open>m_keepRunning\<close> in the inner loop. \<open>Polled k\<close>: that test
  read \<open>k\<close>; when it was true, the getter has been called. \<open>AtCheck\<close>: the wait for the timer, after a request
  or for want of a token, and the test of \<^verbatim>\<open>m_keepRunning\<close> that ends the iteration. A loop that finds the flag
  cleared there takes no further step.
\<close>

subsection \<open>The step relation\<close>

datatype sender_phase = AtCheck | AtToken | AtPoll | Polled bool

record 'db sender =
  s_db :: 'db
  s_body :: string
  s_running :: bool
  s_token :: string
  s_phase :: sender_phase
  s_flight :: "int option"
  s_sending :: "entry list"
  s_pushed :: "entry list"
  s_acked :: "entry list"

definition message_getter ::
  "'db MultiTypeQueue \<Rightarrow> json_lib \<Rightarrow> MessageType \<Rightarrow> string option \<Rightarrow> nat \<Rightarrow> ('db \<times> bool) list
     \<Rightarrow> (int \<times> string) result option" where
  "message_getter q J ty md numMessages seen = GetMessagesFromQueue q J ty numMessages md seen"

definition message_popper :: "'db MultiTypeQueue \<Rightarrow> MessageType \<Rightarrow> int \<Rightarrow> string \<Rightarrow> 'db \<Rightarrow> unit result \<times> 'db" where
  "message_popper q ty messageCount response db = PopMessagesFromQueue q ty messageCount db"

inductive sender_step ::
  "'db MultiTypeQueue \<Rightarrow> json_lib \<Rightarrow> MessageType \<Rightarrow> string option \<Rightarrow> Communicator
     \<Rightarrow> ('db \<Rightarrow> string \<Rightarrow> table option) \<Rightarrow> 'db sender \<Rightarrow> 'db sender \<Rightarrow> bool"
  for q J ty md c tables where
  step_push:
    "msg_ok J m \<Longrightarrow> push q J m False (s_db s) (s_db s) = (Ok n, db') \<Longrightarrow>
     sender_step q J ty md c tables s
       (s\<lparr>s_db := db',
          s_pushed := s_pushed s @ (if msg_type m = ty \<and> n \<noteq> 0 then msg_entries J m else [])\<rparr>)"
| step_other:
    "ty' \<noteq> ty \<Longrightarrow> plain mn \<Longrightarrow> plain mt \<Longrightarrow> popN q ty' k mn mt (s_db s) = (r, db') \<Longrightarrow>
     sender_step q J ty md c tables s (s\<lparr>s_db := db'\<rparr>)"
| step_renew:
    "sender_step q J ty md c tables s (s\<lparr>s_token := token\<rparr>)"
| step_check:
    "s_flight s = None \<Longrightarrow> s_phase s = AtCheck \<Longrightarrow> s_running s \<Longrightarrow>
     sender_step q J ty md c tables s (s\<lparr>s_phase := AtToken\<rparr>)"
| step_token:
    "s_flight s = None \<Longrightarrow> s_phase s = AtToken \<Longrightarrow>
     sender_step q J ty md c tables s (s\<lparr>s_phase := (if s_token s = [] then AtCheck else AtPoll)\<rparr>)"
| step_test:
    "s_flight s = None \<Longrightarrow> s_phase s = AtPoll \<Longrightarrow>
     sender_step q J ty md c tables s (s\<lparr>s_phase := Polled (s_running s)\<rparr>)"
| step_none:
    "s_flight s = None \<Longrightarrow> s_phase s = Polled True \<Longrightarrow>
     message_getter q J ty md (m_batchSize c) [(s_db s, expired)] = Some (Ok (0, b)) \<Longrightarrow>
     sender_step q J ty md c tables s (s\<lparr>s_phase := AtPoll\<rparr>)"
| step_poll:
    "s_flight s = None \<Longrightarrow> s_phase s = Polled k \<Longrightarrow>
     poll_messages (message_getter q J ty md (m_batchSize c)) [(k, [(s_db s, expired)])] (s_body s)
       = Some (Ok (n, b)) \<Longrightarrow>
     sender_step q J ty md c tables s
       (s\<lparr>s_body := b, s_flight := Some n, s_sending := take (nat n) (queue (tables (s_db s)) ty)\<rparr>)"
| step_reply:
    "s_flight s = Some n \<Longrightarrow>
     handle_reply c (Some (message_popper q ty)) n reply (s_db s) = (Ok (), db') \<Longrightarrow>
     sender_step q J ty md c tables s
       (s\<lparr>s_db := db', s_phase := AtCheck, s_flight := None, s_sending := [],
          s_acked := s_acked s @ (if is_success (fst reply) then s_sending s else [])\<rparr>)"
| step_stop:
    "sender_step q J ty md c tables s (s\<lparr>s_running := False\<rparr>)"

definition sender_start :: "'db \<Rightarrow> 'db sender" where
  "sender_start db =
     \<lparr>s_db = db, s_body = [], s_running = True, s_token = [], s_phase = AtToken, s_flight = None, s_sending = [], s_pushed = [],
      s_acked = []\<rparr>"

text \<open>
  The invariant: the acknowledged messages, followed by those in the queue, are the messages that
  were there at the start followed by those that came in; the request under way carries the oldest
  messages of the queue, and its count is positive and is their number. The getter was called, since
  the flag has not been read as cleared.
\<close>

definition delivery_inv ::
  "(string \<Rightarrow> table option) \<Rightarrow> ('db \<Rightarrow> string \<Rightarrow> table option) \<Rightarrow> MessageType \<Rightarrow> 'db sender \<Rightarrow> bool" where
  "delivery_inv ts0 tables ty s \<longleftrightarrow>
     (s_running s \<longrightarrow>
        s_phase s \<noteq> Polled False \<and>
        s_acked s @ queue (tables (s_db s)) ty = queue ts0 ty @ s_pushed s \<and>
        (\<forall>n. s_flight s = Some n \<longrightarrow>
           0 < n \<and> int (length (s_sending s)) = n \<and>
           s_sending s = take (nat n) (queue (tables (s_db s)) ty)))"

context reliable_persistence
begin

lemma push_result:
  assumes "inv db" "saved db = None" "queue_tables (tables db)" "m_persistenceDest q = Some P"
    and "m_maxItems q < 2 ^ 31" "aqueue_ok (m_maxItems q) J (queue (tables db))" "msg_ok J m"
    and "push q J m False db db = (Ok n, db')"
  shows "inv db' \<and> saved db' = None \<and> queue_tables (tables db') \<and>
    aqueue_ok (m_maxItems q) J (queue (tables db')) \<and>
    queue (tables db') = (queue (tables db))
      (msg_type m := queue (tables db) (msg_type m) @ (if n \<noteq> 0 then msg_entries J m else []))"
proof -
  from push_exact [OF assms(1-7)] assms(8) have d: "inv db'" "saved db' = None" "queue_tables (tables db')"
    "queue (tables db') = snd (spec_op (m_maxItems q) J (Push m) (queue (tables db)))"
    "Count n = fst (spec_op (m_maxItems q) J (Push m) (queue (tables db)))"
    by (auto simp: run_op_def)
  have "aqueue_ok (m_maxItems q) J (queue (tables db'))"
    using spec_op_ok [OF assms(6), of "Push m"] assms(7) d(4) by simp
  with d show ?thesis by (auto split: if_splits)
qed

lemma popN_result:
  assumes "inv db" "saved db = None" "queue_tables (tables db)" "m_persistenceDest q = Some P"
    and "aqueue_ok (m_maxItems q) J (queue (tables db))" "plain mn" "plain mt"
    and "popN q ty k mn mt db = (r, db')"
  shows "inv db' \<and> saved db' = None \<and> queue_tables (tables db') \<and>
    aqueue_ok (m_maxItems q) J (queue (tables db')) \<and>
    queue (tables db') = (queue (tables db))
      (ty := remove_n (limit_count k (filter (entry_in mn mt) (queue (tables db) ty))) (entry_in mn mt)
               (queue (tables db) ty))"
proof -
  have st: "storage_table (tables db) (type_name ty)" using assms(3) by (simp add: queue_tables_def)
  from RemoveMultiple_exact [OF assms(1,2) st assms(6,7), of k] assms(4,8) have
    d: "inv db'" "saved db' = None" "only_rows_of (type_name ty) (tables db) (tables db')"
      "stored (tables db') (type_name ty) =
        remove_n (limit_count k (filter (entry_in mn mt) (stored (tables db) (type_name ty))))
          (entry_in mn mt) (stored (tables db) (type_name ty))"
    by (auto simp: popN_def)
  have "aqueue_ok (m_maxItems q) J (queue (tables db'))"
    using assms(5) queue_only_rows [OF d(3)] d(4)
    by (auto simp: aqueue_ok_def queue_def list_all_remove_n intro: le_trans [OF length_remove_n_le])
  with d assms(3) show ?thesis
    using queue_only_rows [OF d(3)] queue_tables_only_rows [OF d(3)] by (simp add: queue_def)
qed

lemma entry_in_all [simp]: "entry_in [] [] = (\<lambda>_. True)"
  by (simp add: entry_in_def fun_eq_iff)

lemma getNextBytes_result:
  assumes "inv db" "queue_tables (tables db)" "m_persistenceDest q = Some P"
    and "aqueue_ok (m_maxItems q) J (queue (tables db))" "n \<noteq> 0"
  shows "getNextBytes q J ty n [] [] db =
    Ok (map (entry_message J ty) (batch J n 0 (queue (tables db) ty)))"
proof -
  have st: "storage_table (tables db) (type_name ty)" using assms(2) by (simp add: queue_tables_def)
  have ok: "list_all (entry_ok J) (stored (tables db) (type_name ty))"
    using assms(4) by (simp add: aqueue_ok_def queue_def)
  have "plain []" by (simp add: plain_def)
  from RetrieveBySize_exact [OF assms(1) st this this ok assms(5)] assms(3) show ?thesis
    by (simp add: getNextBytes_def queue_def)
qed

lemma message_getter_result:
  assumes "inv db" "queue_tables (tables db)" "m_persistenceDest q = Some P"
    and "aqueue_ok (m_maxItems q) J (queue (tables db))" "k \<noteq> 0" "m_maxItems q < 2 ^ 31"
    and "message_getter q J ty md k [(db, expired)] = Some (Ok (n, b))"
  shows "n = int (length (batch J k 0 (queue (tables db) ty))) \<and>
    messages_text J (map (entry_message J ty) (batch J k 0 (queue (tables db) ty)))
      (case md of None \<Rightarrow> [] | Some s \<Rightarrow> s) = Ok b"
proof -
  obtain i where i: "batch J k 0 (queue (tables db) ty) = take i (queue (tables db) ty)"
    "i \<le> length (queue (tables db) ty)"
    using batch_prefix by blast
  have "length (batch J k 0 (queue (tables db) ty)) < 2 ^ 31"
    using i assms(4,6) by (auto simp: aqueue_ok_def) (meson le_less_trans min.cobounded1)
  with assms(7) getNextBytes_result [OF assms(1-5), of ty] show ?thesis
    by (auto simp: message_getter_def GetMessagesFromQueue_def getNextBytesAwaitable_def map_result_Ok
        split: option.splits result.splits if_splits)
qed

definition sender_ok :: "'a MultiTypeQueue \<Rightarrow> json_lib \<Rightarrow> 'a sender \<Rightarrow> bool" where
  "sender_ok q J s \<longleftrightarrow> inv (s_db s) \<and> saved (s_db s) = None \<and> queue_tables (tables (s_db s)) \<and>
     aqueue_ok (m_maxItems q) J (queue (tables (s_db s)))"

lemma pop_sent:
  assumes "sender_ok q J s" "m_persistenceDest q = Some P"
    and "PopMessagesFromQueue q ty n (s_db s) = (Ok (), db')"
  shows "sender_ok q J (s\<lparr>s_db := db'\<rparr>)"
    and "queue (tables db') ty = drop (limit_count n (queue (tables (s_db s)) ty)) (queue (tables (s_db s)) ty)"
proof -
  obtain r where "popN q ty n [] [] (s_db s) = (r, db')"
    using assms(3) by (cases "popN q ty n [] [] (s_db s)") (auto simp: PopMessagesFromQueue_def)
  note pop = popN_result [OF _ _ _ assms(2) _ _ _ this, of J]
  have "plain []" by (simp add: plain_def)
  with pop assms(1) show "sender_ok q J (s\<lparr>s_db := db'\<rparr>)"
    and "queue (tables db') ty = drop (limit_count n (queue (tables (s_db s)) ty)) (queue (tables (s_db s)) ty)"
    by (auto simp: sender_ok_def remove_n_True)
qed

lemma sender_step_inv:
  assumes step: "sender_step q J ty md c tables s s'"
    and q: "m_persistenceDest q = Some P" "m_maxItems q < 2 ^ 31" "m_batchSize c \<noteq> 0"
    and ok: "sender_ok q J s" and d: "delivery_inv ts0 tables ty s"
  shows "sender_ok q J s' \<and> delivery_inv ts0 tables ty s'"
  using step
proof (cases rule: sender_step.cases)
  case (step_push m n db')
  from push_result [OF _ _ _ q(1,2) _ step_push(2,3)] ok have
    r: "sender_ok q J s'" "queue (tables db') = (queue (tables (s_db s)))
      (msg_type m := queue (tables (s_db s)) (msg_type m) @ (if n \<noteq> 0 then msg_entries J m else []))"
    by (auto simp: sender_ok_def step_push(1))
  have "int (length (s_sending s)) = k \<Longrightarrow> s_sending s = take (nat k) (queue (tables (s_db s)) ty) \<Longrightarrow>
      s_sending s = take (nat k) (queue (tables db') ty)" for k
    using r(2) by (auto simp: take_append)
  with d r show ?thesis by (auto simp: delivery_inv_def step_push(1))
next
  case (step_other ty' mn mt k r db')
  from popN_result [OF _ _ _ q(1) _ step_other(3,4,5)] ok have
    "sender_ok q J s'" "queue (tables db') ty = queue (tables (s_db s)) ty"
    using step_other(2) by (auto simp: sender_ok_def step_other(1))
  with d show ?thesis by (auto simp: delivery_inv_def step_other(1))
next
  case (step_poll k expired n b)
  have "0 < n \<and> int (length (take (nat n) (queue (tables (s_db s)) ty))) = n" if run: "s_running s"
  proof -
    from d run step_poll(3) have "k" by (cases k) (auto simp: delivery_inv_def)
    with step_poll(4) have g: "message_getter q J ty md (m_batchSize c) [(s_db s, expired)] = Some (Ok (n, b))"
      "n \<noteq> 0" by (auto split: option.splits result.splits if_splits)
    from message_getter_result [OF _ _ q(1) _ q(3,2) g(1)] ok
    have "n = int (length (batch J (m_batchSize c) 0 (queue (tables (s_db s)) ty)))" by (simp add: sender_ok_def)
    with g(2) batch_prefix [of J "m_batchSize c" 0 "queue (tables (s_db s)) ty"] show ?thesis by auto
  qed
  with ok d show ?thesis by (simp add: delivery_inv_def sender_ok_def step_poll(1))
next
  case (step_reply n reply db')
  show ?thesis
  proof (cases "is_success (fst reply)")
    case True
    with step_reply(3) have pop: "PopMessagesFromQueue q ty n (s_db s) = (Ok (), db')"
      by (simp add: handle_reply_def message_popper_def)
    note popped = pop_sent [OF ok q(1) pop]
    have "s_acked s @ s_sending s @ queue (tables db') ty = queue ts0 ty @ s_pushed s" if "s_running s"
    proof -
      from d that step_reply(2) have n: "0 < n" "int (length (s_sending s)) = n"
        "s_sending s = take (nat n) (queue (tables (s_db s)) ty)"
        "s_acked s @ queue (tables (s_db s)) ty = queue ts0 ty @ s_pushed s"
        unfolding delivery_inv_def by blast+
      then have "queue (tables db') ty = drop (nat n) (queue (tables (s_db s)) ty)"
        using popped(2) by (auto simp: limit_count_def min_def)
      with n(3,4) show ?thesis by (metis append_take_drop_id)
    qed
    with popped(1) True show ?thesis
      by (simp add: delivery_inv_def sender_ok_def step_reply(1))
  next
    case False
    with step_reply ok d show ?thesis by (simp add: handle_reply_def delivery_inv_def sender_ok_def)
  qed
qed (use ok d in \<open>auto simp: delivery_inv_def sender_ok_def\<close>)

lemma sender_run_inv:
  assumes run: "(sender_step q J ty md c tables)\<^sup>*\<^sup>* (sender_start db) s"
    and q: "m_persistenceDest q = Some P" "m_maxItems q < 2 ^ 31" "m_batchSize c \<noteq> 0"
    and ok: "sender_ok q J (sender_start db)"
  shows "sender_ok q J s \<and> delivery_inv (tables db) tables ty s"
  using run
proof (induction rule: rtranclp_induct)
  case base
  with ok show ?case by (simp add: delivery_inv_def sender_start_def)
next
  case (step s s')
  with sender_step_inv [OF step(2) q] show ?case by blast
qed

end

text \<open>Requests always get made: the getter answers when the batch timer expires.\<close>

lemma messages_text_ok:
  "list_all (entry_ok J) es \<Longrightarrow> \<exists>b. messages_text J (map (entry_message J ty) es) out = Ok b"
  by (induction es arbitrary: out)
    (auto simp: entry_ok_def message_text_def entry_message_def)

lemma batch_all: "list_all p es \<Longrightarrow> list_all p (batch J n acc es)"
  by (induction J n acc es rule: batch.induct) auto

context reliable_persistence
begin

lemma sizePerType_ok:
  assumes "inv db" "queue_tables (tables db)" "m_persistenceDest q = Some P"
  shows "\<exists>n. sizePerType q ty db = Ok n"
proof -
  have "storage_table (tables db) (type_name ty)" using assms(2) by (simp add: queue_tables_def)
  then obtain T where T: "tables db (type_name ty) = Some T" "cols T = storage_keys" by (rule storage_tableE)
  have "plain []" by (simp add: plain_def)
  then have "is_ok (GetSize P (type_name ty) storage_columns (module_filters [] []) AND db)"
    by (intro GetSize_ok [OF assms(1) T(1)])
      (use storage_flds_ok(1) in \<open>simp_all add: T(2) storage_crits_ok nul_free_module_filters storage_columns_def\<close>)
  then show ?thesis
    using assms(3) by (auto simp: sizePerType_def GetElementsStoredSize_def storage_columns_def)
qed

lemma message_getter_some:
  assumes "sender_ok q J s" "m_persistenceDest q = Some P" "k \<noteq> 0" "m_maxItems q < 2 ^ 31"
  shows "\<exists>b. message_getter q J ty md k [(s_db s, True)] =
    Some (Ok (int (length (batch J k 0 (queue (tables (s_db s)) ty))), b))"
proof -
  let ?es = "batch J k 0 (queue (tables (s_db s)) ty)"
  have ok: "inv (s_db s)" "queue_tables (tables (s_db s))" "aqueue_ok (m_maxItems q) J (queue (tables (s_db s)))"
    using assms(1) by (simp_all add: sender_ok_def)
  obtain n where "sizePerType q ty (s_db s) = Ok n" using sizePerType_ok [OF ok(1,2) assms(2)] by blast
  moreover obtain b where "messages_text J (map (entry_message J ty) ?es) (case md of None \<Rightarrow> [] | Some s \<Rightarrow> s) = Ok b"
    using messages_text_ok [OF batch_all] ok(3) by (metis aqueue_ok_def)
  moreover have "length ?es < 2 ^ 31"
    using batch_prefix [of J k 0 "queue (tables (s_db s)) ty"] ok(3) assms(4)
    by (auto simp: aqueue_ok_def) (meson le_less_trans min.cobounded1)
  ultimately show ?thesis
    using getNextBytes_result [OF ok(1,2) assms(2) ok(3) assms(3)]
    by (simp add: message_getter_def GetMessagesFromQueue_def getNextBytesAwaitable_def)
qed

text \<open>While the agent runs, the loop comes to call the getter once it has a token.\<close>

lemma getter_called:
  assumes "s_flight s = None" "s_running s" "s_phase s \<noteq> Polled False"
  shows "\<exists>t. (sender_step q J ty md c tables)\<^sup>*\<^sup>* s (s\<lparr>s_token := t, s_phase := Polled True\<rparr>)"
proof -
  let ?S = "sender_step q J ty md c tables"
  define s1 where "s1 = s\<lparr>s_token := ''t''\<rparr>"
  have s1: "?S s s1" "s_flight s1 = None" "s_running s1" "s_phase s1 = s_phase s" "s_token s1 \<noteq> []"
    using assms sender_step.step_renew [of q J ty md c tables s "''t''"] by (simp_all add: s1_def)
  have poll: "?S\<^sup>*\<^sup>* u (u\<lparr>s_phase := Polled True\<rparr>)" if "s_flight u = None" "s_running u" "s_phase u = AtPoll" for u
    using sender_step.step_test [OF that(1,3), of q J ty md c tables] that(2) by auto
  have token: "?S\<^sup>*\<^sup>* u (u\<lparr>s_phase := Polled True\<rparr>)"
    if "s_flight u = None" "s_running u" "s_token u \<noteq> []" "s_phase u = AtToken" for u
    using sender_step.step_token [OF that(1,4), of q J ty md c tables] poll [of "u\<lparr>s_phase := AtPoll\<rparr>"] that
    by (auto intro: converse_rtranclp_into_rtranclp)
  have "?S\<^sup>*\<^sup>* s1 (s1\<lparr>s_phase := Polled True\<rparr>)"
  proof (cases "s_phase s1")
    case AtCheck
    from sender_step.step_check [OF s1(2) this s1(3), of q J ty md c tables] token [of "s1\<lparr>s_phase := AtToken\<rparr>"] s1
    show ?thesis by (auto intro: converse_rtranclp_into_rtranclp)
  next
    case (Polled k)
    with s1 assms(3) have "s1\<lparr>s_phase := Polled True\<rparr> = s1" by (cases k) simp_all
    then show ?thesis by simp
  qed (use poll token s1 in simp_all)
  with s1(1) show ?thesis by (intro exI [of _ "''t''"]) (simp add: s1_def converse_rtranclp_into_rtranclp)
qed

lemma delivery_round:
  assumes ok: "sender_ok q J s" and d: "delivery_inv ts0 tables ty s"
    and q: "m_persistenceDest q = Some P" "m_maxItems q < 2 ^ 31" "m_batchSize c \<noteq> 0"
    and s: "s_flight s = None" "s_running s" "queue (tables (s_db s)) ty \<noteq> []"
  shows "\<exists>s'. (sender_step q J ty md c tables)\<^sup>*\<^sup>* s s' \<and> s_flight s' = None \<and> s_running s' \<and>
    length (queue (tables (s_db s')) ty) < length (queue (tables (s_db s)) ty) \<and>
    sender_ok q J s' \<and> delivery_inv ts0 tables ty s' \<and> s_pushed s' = s_pushed s"
proof -
  obtain t where run0: "(sender_step q J ty md c tables)\<^sup>*\<^sup>* s (s\<lparr>s_token := t, s_phase := Polled True\<rparr>)"
    using getter_called [OF s(1,2), of q J ty md c] d s(2) unfolding delivery_inv_def by blast
  let ?s0 = "s\<lparr>s_token := t, s_phase := Polled True\<rparr>"
  have ok0: "sender_ok q J ?s0" "delivery_inv ts0 tables ty ?s0"
    using ok d by (auto simp: sender_ok_def delivery_inv_def)
  let ?es = "queue (tables (s_db s)) ty"
  let ?n = "int (length (batch J (m_batchSize c) 0 ?es))"
  obtain b where b: "message_getter q J ty md (m_batchSize c) [(s_db s, True)] = Some (Ok (?n, b))"
    using message_getter_some [OF ok q(1,3,2)] by blast
  have n: "0 < ?n" "nat ?n \<le> length ?es"
    using batch_prefix [of J "m_batchSize c" 0 ?es] s(3) by auto
  let ?s1 = "?s0\<lparr>s_body := b, s_flight := Some ?n, s_sending := take (nat ?n) (queue (tables (s_db ?s0)) ty)\<rparr>"
  have st1: "sender_step q J ty md c tables ?s0 ?s1"
    using b n(1) s by (intro sender_step.step_poll [where expired = True and k = True]) auto
  note inv1 = sender_step_inv [OF st1 q ok0]
  obtain r db' where pop: "popN q ty ?n [] [] (s_db s) = (r, db')" by fastforce
  have "r = Ok (int (limit_count ?n ?es))"
  proof -
    have st: "storage_table (tables (s_db s)) (type_name ty)" using ok by (simp add: sender_ok_def queue_tables_def)
    have "plain []" by (simp add: plain_def)
    from RemoveMultiple_exact [OF _ _ st this this, of ?n] ok pop q(1) show ?thesis
      by (auto simp: sender_ok_def popN_def queue_def)
  qed
  with pop have ok_pop: "PopMessagesFromQueue q ty ?n (s_db s) = (Ok (), db')"
    by (simp add: PopMessagesFromQueue_def)
  let ?s2 = "?s1\<lparr>s_db := db', s_phase := AtCheck, s_flight := None, s_sending := [],
    s_acked := s_acked ?s1 @ (if is_success (fst (200, [] :: string)) then s_sending ?s1 else [])\<rparr>"
  have st2: "sender_step q J ty md c tables ?s1 ?s2"
    using ok_pop by (intro sender_step.step_reply)
      (simp_all add: handle_reply_def message_popper_def is_success_def http_code_defs)
  have inv2: "sender_ok q J ?s2 \<and> delivery_inv ts0 tables ty ?s2"
    using sender_step_inv [OF st2 q] inv1 by blast
  have "length (queue (tables db') ty) < length ?es"
    using pop_sent(2) [OF ok q(1) ok_pop] n s(3) by (simp add: limit_count_def)
  moreover have "(sender_step q J ty md c tables)\<^sup>*\<^sup>* s ?s2"
    using run0 st1 st2 by (meson rtranclp.rtrancl_into_rtrancl)
  ultimately show ?thesis using inv2 s(2) by (intro exI [of _ ?s2]) simp
qed

lemma queue_drains_run:
  assumes q: "m_persistenceDest q = Some P" "m_maxItems q < 2 ^ 31" "m_batchSize c \<noteq> 0"
  shows "sender_ok q J s \<Longrightarrow> delivery_inv ts0 tables ty s \<Longrightarrow> s_flight s = None \<Longrightarrow> s_running s \<Longrightarrow>
    \<exists>s'. (sender_step q J ty md c tables)\<^sup>*\<^sup>* s s' \<and> s_running s' \<and> s_pushed s' = s_pushed s \<and>
      queue (tables (s_db s')) ty = [] \<and> delivery_inv ts0 tables ty s'"
proof (induction "length (queue (tables (s_db s)) ty)" arbitrary: s rule: less_induct)
  case less
  show ?case
  proof (cases "queue (tables (s_db s)) ty = []")
    case True
    with less.prems show ?thesis by (intro exI [of _ s]) simp
  next
    case False
    from delivery_round [OF less.prems(1,2) q less.prems(3,4) False] obtain s1 where
      s1: "(sender_step q J ty md c tables)\<^sup>*\<^sup>* s s1" "s_flight s1 = None" "s_running s1"
        "length (queue (tables (s_db s1)) ty) < length (queue (tables (s_db s)) ty)"
        "sender_ok q J s1" "delivery_inv ts0 tables ty s1" "s_pushed s1 = s_pushed s" by blast
    from less.hyps [OF s1(4,5,6,2,3)] s1(1,7) show ?thesis by (metis rtranclp_trans)
  qed
qed

end

context reliable_persistence
begin

lemma sender_reached:
  assumes "(sender_step q J ty md c tables)\<^sup>*\<^sup>* (sender_start db) s"
    and "m_persistenceDest q = Some P" "m_maxItems q < 2 ^ 31" "m_batchSize c \<noteq> 0"
    and "inv db" "saved db = None" "queue_tables (tables db)"
    and "aqueue_ok (m_maxItems q) J (queue (tables db))"
  shows "sender_ok q J s \<and> delivery_inv (tables db) tables ty s"
proof -
  have "sender_ok q J (sender_start db)" using assms(5-8) by (simp add: sender_ok_def sender_start_def)
  from sender_run_inv [OF assms(1-4) this] show ?thesis .
qed

text \<open>A pop that is given no positive count empties the queue.\<close>

lemma pop_all:
  assumes "sender_ok q J s" "m_persistenceDest q = Some P"
  shows "\<exists>db'. PopMessagesFromQueue q ty 0 (s_db s) = (Ok (), db') \<and> queue (tables db') ty = []"
proof -
  have st: "storage_table (tables (s_db s)) (type_name ty)"
    using assms(1) by (simp add: sender_ok_def queue_tables_def)
  obtain r db' where pop: "popN q ty 0 [] [] (s_db s) = (r, db')" by fastforce
  have "plain []" by (simp add: plain_def)
  from RemoveMultiple_exact [OF _ _ st this this, of 0] assms pop have
    "r = Ok (int (length (queue (tables (s_db s)) ty)))"
    by (auto simp: sender_ok_def popN_def queue_def limit_count_def)
  with pop have p: "PopMessagesFromQueue q ty 0 (s_db s) = (Ok (), db')"
    by (simp add: PopMessagesFromQueue_def)
  with pop_sent(2) [OF assms p] show ?thesis by (simp add: limit_count_def)
qed

text \<open>The flag is cleared before the inner loop reads it.\<close>

lemma shutdown_run:
  assumes "sender_ok q J s" "m_persistenceDest q = Some P" "s_flight s = None"
    and "s_phase s = AtPoll \<or> s_phase s = AtToken \<and> s_token s \<noteq> []"
  shows "\<exists>s'. (sender_step q J ty md c tables)\<^sup>*\<^sup>* (s\<lparr>s_running := False\<rparr>) s' \<and>
    queue (tables (s_db s')) ty = [] \<and> s_acked s' = s_acked s \<and> s_pushed s' = s_pushed s"
proof -
  obtain db' where pop: "PopMessagesFromQueue q ty 0 (s_db s) = (Ok (), db')" "queue (tables db') ty = []"
    using pop_all [OF assms(1,2)] by blast
  let ?p = "s\<lparr>s_running := False, s_phase := AtPoll\<rparr>"
  let ?s0 = "s\<lparr>s_running := False, s_phase := Polled False\<rparr>"
  let ?s1 = "?s0\<lparr>s_body := s_body ?s0, s_flight := Some 0,
    s_sending := take (nat 0) (queue (tables (s_db ?s0)) ty)\<rparr>"
  let ?s2 = "?s1\<lparr>s_db := db', s_phase := AtCheck, s_flight := None, s_sending := [],
    s_acked := s_acked ?s1 @ (if is_success (fst (200, [] :: string)) then s_sending ?s1 else [])\<rparr>"
  have "(sender_step q J ty md c tables)\<^sup>*\<^sup>* (s\<lparr>s_running := False\<rparr>) ?p"
  proof (cases "s_phase s = AtPoll")
    case True
    then have "?p = s\<lparr>s_running := False\<rparr>" by simp
    then show ?thesis by simp
  next
    case False
    with assms(4) sender_step.step_token [of "s\<lparr>s_running := False\<rparr>" q J ty md c tables] assms(3)
    show ?thesis by auto
  qed
  moreover have "sender_step q J ty md c tables ?p ?s0"
    using sender_step.step_test [of ?p q J ty md c tables] assms(3) by simp
  moreover have "sender_step q J ty md c tables ?s0 ?s1"
    using assms(3) by (intro sender_step.step_poll [where k = False]) simp_all
  moreover have "sender_step q J ty md c tables ?s1 ?s2"
    using pop(1) by (intro sender_step.step_reply)
      (simp_all add: handle_reply_def message_popper_def is_success_def http_code_defs)
  ultimately have "(sender_step q J ty md c tables)\<^sup>*\<^sup>* (s\<lparr>s_running := False\<rparr>) ?s2"
    by (meson rtranclp.rtrancl_into_rtrancl)
  then show ?thesis using pop(2) by (intro exI [of _ ?s2]) simp
qed

text \<open>A loop that waits for its timer when the flag is cleared makes no further request.\<close>

lemma stopped_at_check:
  assumes run: "(sender_step q J ty md c tables)\<^sup>*\<^sup>* s s'"
    and q: "m_persistenceDest q = Some P" "m_maxItems q < 2 ^ 31"
    and s: "sender_ok q J s" "\<not> s_running s" "s_phase s = AtCheck" "s_flight s = None"
      "s_acked s @ queue (tables (s_db s)) ty = old @ s_pushed s"
  shows "sender_ok q J s' \<and> \<not> s_running s' \<and> s_phase s' = AtCheck \<and> s_flight s' = None \<and>
    s_acked s' @ queue (tables (s_db s')) ty = old @ s_pushed s'"
  using run
proof (induction rule: rtranclp_induct)
  case base
  with s show ?case by simp
next
  case (step t t')
  from step(2) show ?case
  proof (cases rule: sender_step.cases)
    case (step_push m n db')
    from push_result [OF _ _ _ q _ step_push(2,3)] step(3) have
      "sender_ok q J t'" "queue (tables db') = (queue (tables (s_db t)))
        (msg_type m := queue (tables (s_db t)) (msg_type m) @ (if n \<noteq> 0 then msg_entries J m else []))"
      by (auto simp: sender_ok_def step_push(1))
    with step(3) show ?thesis by (auto simp: step_push(1) simp flip: append_assoc)
  next
    case (step_other ty' mn mt k r db')
    from popN_result [OF _ _ _ q(1) _ step_other(3,4,5)] step(3) have
      "sender_ok q J t'" "queue (tables db') ty = queue (tables (s_db t)) ty"
      using step_other(2) by (auto simp: sender_ok_def step_other(1))
    with step(3) show ?thesis by (simp add: step_other(1))
  qed (use step(3) in \<open>auto simp: sender_ok_def\<close>)
qed

end

text \<open>A short run on the in-memory store.\<close>

definition some_communicator :: Communicator where
  "some_communicator =
     \<lparr>m_keepRunning = True, m_retryInterval = 30000, m_batchSize = 1000, m_serverUrl = [], m_uuid = [], m_key = [],
      m_headerInfo = [], m_token = [], m_tokenExpTimeInSeconds = 0, m_verificationMode = [], m_timeoutCommands = 0\<rparr>"

lemma some_communicator_batch: "m_batchSize some_communicator \<noteq> 0"
  by (simp add: some_communicator_def)

lemma some_queue_ok:
  "m_maxItems (mem_queue 2) < 2 ^ 31"
  "aqueue_ok (m_maxItems (mem_queue 2)) tiny_lib (queue (m_tables mem_queue_db))"
  by (simp_all add: aqueue_ok_def mem_queue_db_ok)

lemma pushed_state:
  "\<exists>s. (sender_step (mem_queue 2) tiny_lib STATEFUL None some_communicator m_tables)\<^sup>*\<^sup>* (sender_start mem_queue_db) s \<and>
     s_running s \<and> s_flight s = None \<and> s_phase s = AtPoll \<and> queue (m_tables (s_db s)) STATEFUL \<noteq> [] \<and>
     s_pushed s = msg_entries tiny_lib (str_message STATEFUL [''a''])"
proof -
  let ?m = "str_message STATEFUL [''a'']"
  have m: "msg_ok tiny_lib ?m" by (rule str_message_ok) (simp add: tiny_char_def)
  obtain r db' where p: "push (mem_queue 2) tiny_lib ?m False mem_queue_db mem_queue_db = (r, db')" by fastforce
  note x = memr.push_exact [OF mem_queue_db_ok(1-3) mem_queue_sel(1) some_queue_ok m]
  have e: "queue (m_tables mem_queue_db) = (\<lambda>_. [])" by (simp add: fun_eq_iff mem_queue_db_ok)
  have r: "r = Ok 1" "queue (m_tables db') STATEFUL = msg_entries tiny_lib ?m" "msg_entries tiny_lib ?m \<noteq> []"
    using x p unfolding e by (cases r; auto simp: run_op_def str_message_def msg_entries_def)+
  let ?s = "sender_start mem_queue_db"
  let ?s' = "?s\<lparr>s_db := db',
    s_pushed := s_pushed ?s @ (if msg_type ?m = STATEFUL \<and> (1::int) \<noteq> 0 then msg_entries tiny_lib ?m else [])\<rparr>"
  let ?S = "sender_step (mem_queue 2) tiny_lib STATEFUL None some_communicator m_tables"
  let ?s1 = "?s'\<lparr>s_token := ''t''\<rparr>"
  have "?S ?s ?s'"
    using p r(1) by (intro sender_step.step_push [OF m]) (simp add: sender_start_def)
  moreover have "?S ?s' ?s1" by (rule sender_step.step_renew)
  moreover have "?S ?s1 (?s1\<lparr>s_phase := (if s_token ?s1 = [] then AtCheck else AtPoll)\<rparr>)"
    by (rule sender_step.step_token) (simp_all add: sender_start_def)
  ultimately have "?S\<^sup>*\<^sup>* ?s (?s1\<lparr>s_phase := AtPoll\<rparr>)"
    by (auto intro: converse_rtranclp_into_rtranclp)
  moreover have "s_running ?s1" "s_flight ?s1 = None" "queue (m_tables (s_db ?s1)) STATEFUL \<noteq> []"
    "s_pushed ?s1 = msg_entries tiny_lib ?m"
    using r by (simp_all add: sender_start_def str_message_def)
  ultimately show ?thesis by (intro exI [of _ "?s1\<lparr>s_phase := AtPoll\<rparr>"]) simp
qed

lemma sent_state:
  "\<exists>s. (sender_step (mem_queue 2) tiny_lib STATEFUL None some_communicator m_tables)\<^sup>*\<^sup>* (sender_start mem_queue_db) s \<and>
     s_running s \<and> s_pushed s = msg_entries tiny_lib (str_message STATEFUL [''a'']) \<and>
     queue (m_tables (s_db s)) STATEFUL = []"
proof -
  obtain s where s: "(sender_step (mem_queue 2) tiny_lib STATEFUL None some_communicator m_tables)\<^sup>*\<^sup>* (sender_start mem_queue_db) s"
    "s_running s" "s_flight s = None" "s_pushed s = msg_entries tiny_lib (str_message STATEFUL [''a''])"
    using pushed_state by blast
  note ok = memr.sender_reached [OF s(1) mem_queue_sel(1) some_queue_ok(1) some_communicator_batch
      mem_queue_db_ok(1-3) some_queue_ok(2)]
  from memr.queue_drains_run [OF mem_queue_sel(1) some_queue_ok(1) some_communicator_batch] ok s(2,3)
  obtain s' where "(sender_step (mem_queue 2) tiny_lib STATEFUL None some_communicator m_tables)\<^sup>*\<^sup>* s s'" "s_running s'"
    "s_pushed s' = s_pushed s" "queue (m_tables (s_db s')) STATEFUL = []" by blast
  with s(1,4) show ?thesis by (metis rtranclp_trans)
qed

subsection \<open>Properties\<close>

text \<open>
  C12: no message is lost or reordered while the agent runs. In every state that pushes, requests,
  answers of the server (successes and failures) and removals from other queues can reach, the
  messages the server acknowledged, followed by those still in the queue, are exactly the messages
  that were in the queue at the start followed by those accepted since, in that order; so a message
  leaves the queue only after a request that carried it succeeded.
\<close>

theorem no_message_lost:
  assumes "reliable_persistence P tables saved canon dinv"
    and "(sender_step q J ty md c tables)\<^sup>*\<^sup>* (sender_start db) s" "s_running s"
    and "m_persistenceDest q = Some P" "m_maxItems q < 2 ^ 31" "m_batchSize c \<noteq> 0"
    and "dinv db" "saved db = None" "queue_tables (tables db)"
    and "aqueue_ok (m_maxItems q) J (queue (tables db))"
  shows "s_acked s @ queue (tables (s_db s)) ty = queue (tables db) ty @ s_pushed s"
  using reliable_persistence.sender_reached [OF assms(1,2,4-10)] assms(3) by (simp add: delivery_inv_def)

theorem no_message_lost_witness:
  "\<exists>s. (sender_step (mem_queue 2) tiny_lib STATEFUL None some_communicator m_tables)\<^sup>*\<^sup>* (sender_start mem_queue_db) s \<and>
     s_running s \<and> s_acked s = msg_entries tiny_lib (str_message STATEFUL [''a''])"
proof -
  obtain s where s: "(sender_step (mem_queue 2) tiny_lib STATEFUL None some_communicator m_tables)\<^sup>*\<^sup>* (sender_start mem_queue_db) s"
    "s_running s" "s_pushed s = msg_entries tiny_lib (str_message STATEFUL [''a''])"
    "queue (m_tables (s_db s)) STATEFUL = []"
    using sent_state by blast
  from no_message_lost [OF memr.reliable_persistence_axioms, OF s(1,2) mem_queue_sel(1) some_queue_ok(1)
      some_communicator_batch mem_queue_db_ok(1-3) some_queue_ok(2)] s
  show ?thesis by (auto simp: mem_queue_db_ok)
qed

text \<open>
  C13: the messages get delivered. From every state in which the agent runs and no request is under
  way, the request loop can go on, with a server that authenticates the agent and accepts what it is sent, to a state in which the
  queue is empty and every message it held or accepted has been acknowledged.
\<close>

theorem queue_drains:
  assumes "reliable_persistence P tables saved canon dinv"
    and "(sender_step q J ty md c tables)\<^sup>*\<^sup>* (sender_start db) s" "s_running s" "s_flight s = None"
    and "m_persistenceDest q = Some P" "m_maxItems q < 2 ^ 31" "m_batchSize c \<noteq> 0"
    and "dinv db" "saved db = None" "queue_tables (tables db)"
    and "aqueue_ok (m_maxItems q) J (queue (tables db))"
  shows "\<exists>s'. (sender_step q J ty md c tables)\<^sup>*\<^sup>* s s' \<and> queue (tables (s_db s')) ty = [] \<and>
    s_acked s' = queue (tables db) ty @ s_pushed s"
proof -
  note ok = reliable_persistence.sender_reached [OF assms(1,2,5-11)]
  from reliable_persistence.queue_drains_run [OF assms(1,5-7)] ok assms(3,4)
  obtain s' where "(sender_step q J ty md c tables)\<^sup>*\<^sup>* s s'" "s_running s'" "s_pushed s' = s_pushed s"
    "queue (tables (s_db s')) ty = []" "delivery_inv (tables db) tables ty s'" by blast
  then show ?thesis by (auto simp: delivery_inv_def)
qed

theorem queue_drains_witness:
  "\<exists>s s'. (sender_step (mem_queue 2) tiny_lib STATEFUL None some_communicator m_tables)\<^sup>*\<^sup>* s s' \<and>
     queue (m_tables (s_db s)) STATEFUL \<noteq> [] \<and> queue (m_tables (s_db s')) STATEFUL = []"
proof -
  from pushed_state obtain s where s: "(sender_step (mem_queue 2) tiny_lib STATEFUL None some_communicator m_tables)\<^sup>*\<^sup>* (sender_start mem_queue_db) s"
    "s_running s" "s_flight s = None" "queue (m_tables (s_db s)) STATEFUL \<noteq> []" by blast
  from queue_drains [OF memr.reliable_persistence_axioms, OF s(1-3) mem_queue_sel(1) some_queue_ok(1)
      some_communicator_batch mem_queue_db_ok(1-3) some_queue_ok(2)] s(4)
  show ?thesis by blast
qed

text \<open>
  C14: a shutdown may discard the queue. When the agent is told to stop while the loop is in an iteration, with
  a token and before the inner loop reads the flag, the loop still makes the request it was about to
  make, with a count of zero and the body of the request before; when the server accepts it, the pop
  that follows removes every message of the queue, and none of them has been sent. When the stop comes
  while the loop waits for its timer, the loop ends there: no request follows and no message is lost.
\<close>

theorem shutdown_discards_queue:
  assumes "reliable_persistence P tables saved canon dinv"
    and "(sender_step q J ty md c tables)\<^sup>*\<^sup>* (sender_start db) s" "s_running s" "s_flight s = None"
    and "m_persistenceDest q = Some P" "m_maxItems q < 2 ^ 31" "m_batchSize c \<noteq> 0"
    and "dinv db" "saved db = None" "queue_tables (tables db)"
    and "aqueue_ok (m_maxItems q) J (queue (tables db))"
  shows "(s_phase s = AtPoll \<or> s_phase s = AtToken \<and> s_token s \<noteq> [] \<longrightarrow>
      (\<exists>s'. (sender_step q J ty md c tables)\<^sup>*\<^sup>* (s\<lparr>s_running := False\<rparr>) s' \<and>
        queue (tables (s_db s')) ty = [] \<and>
        queue (tables db) ty @ s_pushed s' = s_acked s' @ queue (tables (s_db s)) ty)) \<and>
    (s_phase s = AtCheck \<longrightarrow>
      (\<forall>s'. (sender_step q J ty md c tables)\<^sup>*\<^sup>* (s\<lparr>s_running := False\<rparr>) s' \<longrightarrow>
        s_flight s' = None \<and> s_acked s' @ queue (tables (s_db s')) ty = queue (tables db) ty @ s_pushed s'))"
proof -
  note ok = reliable_persistence.sender_reached [OF assms(1,2,5-11)]
  have eq: "s_acked s @ queue (tables (s_db s)) ty = queue (tables db) ty @ s_pushed s"
    using ok assms(3) by (simp add: delivery_inv_def)
  have ok': "reliable_persistence.sender_ok tables saved dinv q J (s\<lparr>s_running := False\<rparr>)"
    using ok by (simp add: reliable_persistence.sender_ok_def [OF assms(1)])
  show ?thesis
  proof (intro conjI impI allI)
    assume "s_phase s = AtPoll \<or> s_phase s = AtToken \<and> s_token s \<noteq> []"
    from reliable_persistence.shutdown_run [OF assms(1) conjunct1 [OF ok] assms(5,4) this] eq
    show "\<exists>s'. (sender_step q J ty md c tables)\<^sup>*\<^sup>* (s\<lparr>s_running := False\<rparr>) s' \<and>
        queue (tables (s_db s')) ty = [] \<and>
        queue (tables db) ty @ s_pushed s' = s_acked s' @ queue (tables (s_db s)) ty" by metis
  next
    fix s'
    assume "s_phase s = AtCheck" "(sender_step q J ty md c tables)\<^sup>*\<^sup>* (s\<lparr>s_running := False\<rparr>) s'"
    with reliable_persistence.stopped_at_check [OF assms(1) _ assms(5,6) ok'] eq assms(4)
    show "s_flight s' = None" "s_acked s' @ queue (tables (s_db s')) ty = queue (tables db) ty @ s_pushed s'"
      by auto
  qed
qed

theorem shutdown_discards_queue_witness:
  "\<exists>s s'. (sender_step (mem_queue 2) tiny_lib STATEFUL None some_communicator m_tables)\<^sup>*\<^sup>* s s' \<and>
     queue (m_tables (s_db s)) STATEFUL \<noteq> [] \<and> queue (m_tables (s_db s')) STATEFUL = [] \<and>
     s_pushed s' = s_acked s' @ queue (m_tables (s_db s)) STATEFUL"
proof -
  from pushed_state obtain s where s: "(sender_step (mem_queue 2) tiny_lib STATEFUL None some_communicator m_tables)\<^sup>*\<^sup>* (sender_start mem_queue_db) s"
    "s_running s" "s_flight s = None" "s_phase s = AtPoll" "queue (m_tables (s_db s)) STATEFUL \<noteq> []" by blast
  from shutdown_discards_queue [OF memr.reliable_persistence_axioms, OF s(1-3) mem_queue_sel(1) some_queue_ok(1)
      some_communicator_batch mem_queue_db_ok(1-3) some_queue_ok(2)] s(4)
  obtain s' where s': "(sender_step (mem_queue 2) tiny_lib STATEFUL None some_communicator m_tables)\<^sup>*\<^sup>* (s\<lparr>s_running := False\<rparr>) s'"
    "queue (m_tables (s_db s')) STATEFUL = []"
    "queue (m_tables mem_queue_db) STATEFUL @ s_pushed s' = s_acked s' @ queue (m_tables (s_db s)) STATEFUL"
    by blast
  show ?thesis
    using s' s(5) by (intro exI [of _ "s\<lparr>s_running := False\<rparr>"] exI [of _ s']) (simp add: mem_queue_db_ok)
qed

end
