(* ===== verification/Command_Dispatch.thy ===== *)
theory Command_Dispatch
  imports Message_Queue_Utils
begin

section \<open>Dispatching commands and reporting their results\<close>

text \<open>
  \<^verbatim>\<open>src/src/agent/src/command_handler_utils.cpp\<close>: a command runs against a timer of ten minutes, both
  writing one shared result, and the outcome is pushed to the queue as a stateful message. How the
  two coroutines end, and which ends first, is an argument; the \<^verbatim>\<open>||\<close> of the source waits for both, after
  cancelling the slower one.
\<close>

datatype exec_end = Returned CommandExecutionResult | Raised string

datatype timer_end = Expired | Aborted | SystemError string | OtherError string

definition ExecuteCommandTask :: "exec_end \<Rightarrow> CommandExecutionResult \<Rightarrow> CommandExecutionResult" where
  "ExecuteCommandTask e res =
     (case e of
        Returned x \<Rightarrow> x
      | Raised what \<Rightarrow>
          if ErrorCode res = UNKNOWN
          then execution_result FAILURE (''Error during command execution: '' @ what) else res)"

definition TimerTask :: "timer_end \<Rightarrow> CommandExecutionResult \<Rightarrow> CommandExecutionResult" where
  "TimerTask t res =
     (if ErrorCode res \<noteq> UNKNOWN then res
      else case t of
             Expired \<Rightarrow> execution_result TIMEOUT ''Command timed out''
           | Aborted \<Rightarrow> res
           | SystemError what \<Rightarrow> execution_result FAILURE (''System error: '' @ what)
           | OtherError what \<Rightarrow> execution_result FAILURE (''Unexpected error: '' @ what))"

definition dispatch_result :: "bool \<Rightarrow> timer_end \<Rightarrow> exec_end \<Rightarrow> CommandExecutionResult" where
  "dispatch_result timer_first t e =
     (let res = execution_result UNKNOWN [] in
      if timer_first then ExecuteCommandTask e (TimerTask t res) else TimerTask t (ExecuteCommandTask e res))"

text \<open>The report: one JSON object in an array, with the command's identifier in the metadata.\<close>

definition report_metadata :: "CommandEntry \<Rightarrow> json" where
  "report_metadata cmd =
     JObj [(''id'', JStr (Id cmd)), (''module'', JStr ''command''), (''operation'', JStr ''update'')]"

definition report_data :: "CommandEntry \<Rightarrow> json" where
  "report_data cmd =
     JObj [(''command'', JObj [(''result'',
       JObj [(''code'', JInt (status_int (ErrorCode (ExecutionResult cmd)))),
             (''message'', JStr (ResultMessage (ExecutionResult cmd)))])])]"

definition ReportCommandResult ::
  "'db MultiTypeQueue \<Rightarrow> json_lib \<Rightarrow> CommandEntry \<Rightarrow> 'db \<Rightarrow> unit result \<times> 'db" where
  "ReportCommandResult q J cmd db =
     (case dump J (report_metadata cmd) of
        None \<Rightarrow> (Throw ''invalid UTF-8 byte'', db)
      | Some md \<Rightarrow>
          apfst (map_result (\<lambda>_. ()))
            (push q J \<lparr>msg_type = STATEFUL, msg_data = JArr [report_data cmd], msg_moduleName = ''command'',
                       msg_moduleType = [], msg_metaData = md\<rparr> False db db))"

definition DispatchCommand ::
  "'db MultiTypeQueue \<Rightarrow> json_lib \<Rightarrow> CommandEntry \<Rightarrow> (string \<Rightarrow> json \<Rightarrow> exec_end) \<Rightarrow> bool \<Rightarrow> timer_end \<Rightarrow> 'db
     \<Rightarrow> CommandExecutionResult result \<times> 'db" where
  "DispatchCommand q J cmd executeFunction timer_first t db =
     (let res = dispatch_result timer_first t (executeFunction (Command cmd) (Parameters cmd)) in
      apfst (map_result (\<lambda>_. res)) (ReportCommandResult q J (cmd\<lparr>ExecutionResult := res\<rparr>) db))"

definition DispatchCommand_module ::
  "'db MultiTypeQueue \<Rightarrow> json_lib \<Rightarrow> CommandEntry \<Rightarrow> (string \<Rightarrow> json \<Rightarrow> exec_end) option \<Rightarrow> bool \<Rightarrow> timer_end
     \<Rightarrow> 'db \<Rightarrow> CommandExecutionResult result \<times> 'db" where
  "DispatchCommand_module q J cmd module timer_first t db =
     (case module of
        None \<Rightarrow> (Ok (execution_result FAILURE ''Module not found''), db)
      | Some ExecuteCommand \<Rightarrow> DispatchCommand q J cmd ExecuteCommand timer_first t db)"

text \<open>The choice that \<^verbatim>\<open>Agent::Run\<close> makes between the two built-in modules and the others.\<close>

definition agent_dispatch ::
  "'db MultiTypeQueue \<Rightarrow> json_lib \<Rightarrow> (string \<Rightarrow> json \<Rightarrow> exec_end) \<Rightarrow> CommandExecutionResult
     \<Rightarrow> (string \<Rightarrow> (string \<Rightarrow> json \<Rightarrow> exec_end) option) \<Rightarrow> bool \<Rightarrow> timer_end \<Rightarrow> CommandEntry \<Rightarrow> 'db
     \<Rightarrow> CommandExecutionResult result \<times> 'db" where
  "agent_dispatch q J centralized restart GetModule timer_first t cmd db =
     (if Module cmd = CENTRALIZED_CONFIGURATION_MODULE then DispatchCommand q J cmd centralized timer_first t db
      else if Module cmd = RESTART_HANDLER_MODULE then (Ok restart, db)
      else DispatchCommand_module q J cmd (GetModule (Module cmd)) timer_first t db)"

lemma dispatch_result_known:
  assumes "\<And>x. e = Returned x \<Longrightarrow> ErrorCode x \<noteq> UNKNOWN"
  shows "ErrorCode (dispatch_result first t e) \<noteq> UNKNOWN"
  using assms by (cases e; cases t) (auto simp: dispatch_result_def ExecuteCommandTask_def TimerTask_def Let_def)

end
