(* ===== verification/Command_Handler.thy ===== *)
theory Command_Handler
  imports Command_Dispatch Command_Store
begin

section \<open>The command handler\<close>

text \<open>
  \<^verbatim>\<open>src/src/agent/command_handler/src/command_handler.cpp\<close>: the task that takes commands from the queue, checks
  and stores them, has them executed, and writes their results. The store is an \<open>icommand_store\<close>; the
  queue is used through the callbacks that \<^verbatim>\<open>Agent::Run\<close> gives: \<open>get\<close>, \<open>pop\<close> and \<open>report\<close>, functions on
  a type \<open>'q\<close> of queue states.

  The task is the step relation \<open>handler_step\<close>: its phases are the points between two effects, so
  that a crash, which loses everything but the two databases, can come at each of them. The clean-up
  of the commands in progress at the start is one step: a crash inside it is not modelled.
\<close>

subsection \<open>Construction\<close>

text \<open>
  The constructor: without a configuration parser it throws; when the store cannot be made, the handler
  is left with none, and using it later is undefined.
\<close>

record 's CommandHandler =
  ch_keepRunning :: bool
  m_commandStore :: "'s icommand_store option"

definition CommandHandler_init ::
  "yaml option \<Rightarrow> (yaml \<Rightarrow> string option) \<Rightarrow> string \<Rightarrow> json_lib \<Rightarrow> 's icommand_store option
     \<Rightarrow> (string \<Rightarrow> 's persistence option) \<Rightarrow> 's \<Rightarrow> 's CommandHandler result \<times> 's" where
  "CommandHandler_init parser as data_path J given open s =
     (case parser of
        None \<Rightarrow> (Throw ''Invalid Configuration Parser passed.'', s)
      | Some cfg \<Rightarrow>
          (let dbFolderPath = GetConfigOrDefault as data_path [''agent'', ''path.data''] cfg;
               handler = \<lparr>ch_keepRunning = True, m_commandStore = None\<rparr>
           in case given of
                Some S \<Rightarrow> (Ok (handler\<lparr>m_commandStore := Some S\<rparr>), s)
              | None \<Rightarrow>
                  (case CommandStore_init dbFolderPath (open (dbFolderPath @ ''/'' @ COMMANDSTORE_DB_NAME)) s of
                     (Ok P, s') \<Rightarrow> (Ok (handler\<lparr>m_commandStore := Some (command_store P J)\<rparr>), s')
                   | (Throw _, s') \<Rightarrow> (Ok handler, s')
                   | (Terminate, s') \<Rightarrow> (Terminate, s'))))"

definition CommandHandler_Stop :: "'s CommandHandler \<Rightarrow> 's CommandHandler" where
  "CommandHandler_Stop h = h\<lparr>ch_keepRunning := False\<rparr>"

subsection \<open>Checking commands\<close>

record CommandDetails =
  d_module :: string
  d_mode :: CommandExecutionMode
  d_arguments :: "(string \<times> value_t) list"

definition VALID_COMMANDS_MAP :: "(string \<times> CommandDetails) list" where
  "VALID_COMMANDS_MAP =
     [(SET_GROUP_COMMAND,
       \<lparr>d_module = CENTRALIZED_CONFIGURATION_MODULE, d_mode = SYNC, d_arguments = [(GROUPS_ARG, VArray)]\<rparr>),
      (FETCH_CONFIG_COMMAND,
       \<lparr>d_module = CENTRALIZED_CONFIGURATION_MODULE, d_mode = SYNC, d_arguments = []\<rparr>),
      (RESTART_COMMAND,
       \<lparr>d_module = RESTART_HANDLER_MODULE, d_mode = SYNC, d_arguments = []\<rparr>)]"

text \<open>The loop that looks for extra parameters asks for keys, which only an object's members have.\<close>

definition keys_throw :: "json \<Rightarrow> bool" where
  "keys_throw j \<longleftrightarrow> \<not> is_object j \<and> \<not> json_empty j"

definition CheckCommand :: "CommandEntry \<Rightarrow> bool result \<times> CommandEntry" where
  "CheckCommand cmd =
     (case map_of VALID_COMMANDS_MAP (Command cmd) of
        None \<Rightarrow> (Ok False, cmd)
      | Some details \<Rightarrow>
          if list_ex (\<lambda>(a, t). \<not> contains (Parameters cmd) a \<or> json_type (json_at (Parameters cmd) a) \<noteq> t)
               (d_arguments details)
          then (Ok False, cmd)
          else if keys_throw (Parameters cmd) then (Throw ''cannot use key() for non-object iterators'', cmd)
          else (Ok True, cmd\<lparr>Module := d_module details, ExecutionMode := d_mode details\<rparr>))"

subsection \<open>Commands left over from an earlier run\<close>

definition settled :: "CommandEntry \<Rightarrow> CommandEntry" where
  "settled cmd =
     (if Command cmd = RESTART_COMMAND
      then cmd\<lparr>ExecutionResult := \<lparr>ErrorCode = SUCCESS, ResultMessage = ''Agent restarted successfully''\<rparr>\<rparr>
      else cmd\<lparr>ExecutionResult := \<lparr>ErrorCode = FAILURE, ResultMessage = ''Agent stopped during execution''\<rparr>\<rparr>)"

fun settle_each ::
  "'s icommand_store \<Rightarrow> (CommandEntry \<Rightarrow> 'q \<Rightarrow> unit result \<times> 'q) \<Rightarrow> CommandEntry list \<Rightarrow> 'q \<Rightarrow> 's
     \<Rightarrow> unit result \<times> 'q \<times> 's" where
  "settle_each S report [] q s = (Ok (), q, s)"
| "settle_each S report (cmd # cmds) q s =
     (case report (settled cmd) q of
        (Throw e, q') \<Rightarrow> (Throw e, q', s)
      | (Terminate, q') \<Rightarrow> (Terminate, q', s)
      | (Ok _, q') \<Rightarrow>
          (case S_UpdateCommand S (settled cmd) s of
             (Throw e, s') \<Rightarrow> (Throw e, q', s')
           | (Terminate, s') \<Rightarrow> (Terminate, q', s')
           | (Ok _, s') \<Rightarrow> settle_each S report cmds q' s'))"

definition CleanUpInProgressCommands ::
  "'s icommand_store \<Rightarrow> (CommandEntry \<Rightarrow> 'q \<Rightarrow> unit result \<times> 'q) \<Rightarrow> 'q \<Rightarrow> 's \<Rightarrow> unit result \<times> 'q \<times> 's" where
  "CleanUpInProgressCommands S report q s =
     (case S_GetCommandByStatus S IN_PROGRESS s of
        Ok None \<Rightarrow> (Ok (), q, s)
      | Ok (Some cmds) \<Rightarrow> settle_each S report cmds q s
      | Throw e \<Rightarrow> (Throw e, q, s)
      | Terminate \<Rightarrow> (Terminate, q, s))"

subsection \<open>Taking a command from the queue\<close>

datatype taken = NoCommand | Refuse CommandEntry | Accept CommandEntry

definition refused :: "CommandEntry \<Rightarrow> string \<Rightarrow> CommandEntry" where
  "refused cmd msg = cmd\<lparr>ExecutionResult := \<lparr>ErrorCode = FAILURE, ResultMessage = msg\<rparr>\<rparr>"

definition take_command ::
  "'s icommand_store \<Rightarrow> json_lib \<Rightarrow> CommandEntry option result \<Rightarrow> string \<Rightarrow> 's \<Rightarrow> taken result \<times> 's" where
  "take_command S J got now s =
     (case got of
        Throw e \<Rightarrow> (Throw e, s)
      | Terminate \<Rightarrow> (Terminate, s)
      | Ok None \<Rightarrow> (Ok NoCommand, s)
      | Ok (Some cmd) \<Rightarrow>
          (case (dump J (Parameters cmd), CheckCommand cmd) of
             (None, _) \<Rightarrow> (Throw ''invalid UTF-8 byte'', s)
           | (_, (Throw e, _)) \<Rightarrow> (Throw e, s)
           | (_, (Terminate, _)) \<Rightarrow> (Terminate, s)
           | (_, (Ok False, c)) \<Rightarrow> (Ok (Refuse (refused c ''Command is not valid'')), s)
           | (_, (Ok True, c)) \<Rightarrow>
               (case S_StoreCommand S now c s of
                  (Ok True, s') \<Rightarrow> (Ok (Accept c), s')
                | (Ok False, s') \<Rightarrow>
                    (Ok (Refuse (refused c (''Agent'' @ [CHR 0x27] @ ''s database failure''))), s')
                | (Throw e, s') \<Rightarrow> (Throw e, s')
                | (Terminate, s') \<Rightarrow> (Terminate, s'))))"

subsection \<open>The task\<close>

datatype phase =
    Starting
  | Polling
  | Reporting CommandEntry
  | Discarding
  | Popping CommandEntry
  | Dispatching CommandEntry
  | Ended

record ('q, 's) handler =
  h_queue :: 'q
  h_store :: 's
  h_phase :: phase
  h_spawned :: "CommandEntry list"
  h_dispatched :: "string list"

definition finish :: "'s icommand_store \<Rightarrow> CommandEntry \<Rightarrow> CommandExecutionResult \<Rightarrow> 's \<Rightarrow> bool result \<times> 's" where
  "finish S cmd res s = S_UpdateCommand S (cmd\<lparr>ExecutionResult := res\<rparr>) s"

fun after :: "'a result \<Rightarrow> phase \<Rightarrow> phase" where
  "after (Ok _) p = p"
| "after _ p = Ended"

text \<open>
  What is asked of the surroundings: the clock gives readable texts, the commands of the queue can be
  written to the database, and a finished command has a result without NUL bytes, which is final
  unless the command restarts the agent. \<open>dispatches c q r q'\<close>: executing \<open>c\<close> can end with \<open>r\<close>.
\<close>

definition result_ok :: "CommandEntry \<Rightarrow> CommandExecutionResult \<Rightarrow> bool" where
  "result_ok c res \<longleftrightarrow> CHR 0x00 \<notin> set (ResultMessage res) \<and> ErrorCode res \<noteq> UNKNOWN \<and>
     (ErrorCode res = IN_PROGRESS \<longrightarrow> Command c = RESTART_COMMAND)"

inductive handler_step ::
  "'s icommand_store \<Rightarrow> json_lib \<Rightarrow> (string \<Rightarrow> bool) \<Rightarrow> ('q \<Rightarrow> CommandEntry option result)
     \<Rightarrow> ('q \<Rightarrow> unit result \<times> 'q) \<Rightarrow> (CommandEntry \<Rightarrow> 'q \<Rightarrow> unit result \<times> 'q)
     \<Rightarrow> (CommandEntry \<Rightarrow> 'q \<Rightarrow> CommandExecutionResult result \<Rightarrow> 'q \<Rightarrow> bool)
     \<Rightarrow> ('q, 's) handler \<Rightarrow> ('q, 's) handler \<Rightarrow> bool"
  for S J clock get popq report dispatches where
  step_start:
    "h_phase h = Starting \<Longrightarrow>
     CleanUpInProgressCommands S report (h_queue h) (h_store h) = (r, q', s') \<Longrightarrow>
     handler_step S J clock get popq report dispatches h
       (h\<lparr>h_queue := q', h_store := s', h_phase := after r Polling\<rparr>)"
| step_take:
    "h_phase h = Polling \<Longrightarrow> clock now \<Longrightarrow> (\<And>c. get (h_queue h) = Ok (Some c) \<Longrightarrow> storable J c) \<Longrightarrow>
     take_command S J (get (h_queue h)) now (h_store h) = (r, s') \<Longrightarrow>
     handler_step S J clock get popq report dispatches h
       (h\<lparr>h_store := s',
          h_phase := (case r of Ok NoCommand \<Rightarrow> Polling | Ok (Refuse c) \<Rightarrow> Reporting c
                      | Ok (Accept c) \<Rightarrow> Popping c | _ \<Rightarrow> Ended)\<rparr>)"
| step_end:
    "h_phase h = Polling \<Longrightarrow>
     handler_step S J clock get popq report dispatches h (h\<lparr>h_phase := Ended\<rparr>)"
| step_report:
    "h_phase h = Reporting c \<Longrightarrow> report c (h_queue h) = (r, q') \<Longrightarrow>
     handler_step S J clock get popq report dispatches h (h\<lparr>h_queue := q', h_phase := after r Discarding\<rparr>)"
| step_discard:
    "h_phase h = Discarding \<Longrightarrow> popq (h_queue h) = (r, q') \<Longrightarrow>
     handler_step S J clock get popq report dispatches h (h\<lparr>h_queue := q', h_phase := after r Polling\<rparr>)"
| step_sync:
    "h_phase h = Popping c \<Longrightarrow> ExecutionMode c = SYNC \<Longrightarrow> popq (h_queue h) = (Ok u, q') \<Longrightarrow>
     handler_step S J clock get popq report dispatches h
       (h\<lparr>h_queue := q', h_phase := Dispatching c, h_dispatched := h_dispatched h @ [Id c]\<rparr>)"
| step_async:
    "h_phase h = Popping c \<Longrightarrow> ExecutionMode c = ASYNC \<Longrightarrow> popq (h_queue h) = (Ok u, q') \<Longrightarrow>
     handler_step S J clock get popq report dispatches h
       (h\<lparr>h_queue := q', h_phase := Polling, h_spawned := h_spawned h @ [c],
          h_dispatched := h_dispatched h @ [Id c]\<rparr>)"
| step_pop_fails:
    "h_phase h = Popping c \<Longrightarrow> popq (h_queue h) = (r, q') \<Longrightarrow> \<not> is_ok r \<Longrightarrow>
     handler_step S J clock get popq report dispatches h (h\<lparr>h_queue := q', h_phase := Ended\<rparr>)"
| step_done:
    "h_phase h = Dispatching c \<Longrightarrow> dispatches c (h_queue h) (Ok res) q' \<Longrightarrow> result_ok c res \<Longrightarrow>
     finish S c res (h_store h) = (r, s') \<Longrightarrow>
     handler_step S J clock get popq report dispatches h
       (h\<lparr>h_queue := q', h_store := s', h_phase := after r Polling\<rparr>)"
| step_dispatch_throws:
    "h_phase h = Dispatching c \<Longrightarrow> dispatches c (h_queue h) (Throw e) q' \<Longrightarrow>
     handler_step S J clock get popq report dispatches h (h\<lparr>h_queue := q', h_phase := Ended\<rparr>)"
| step_spawned_done:
    "c \<in> set (h_spawned h) \<Longrightarrow> dispatches c (h_queue h) (Ok res) q' \<Longrightarrow> result_ok c res \<Longrightarrow>
     finish S c res (h_store h) = (r, s') \<Longrightarrow>
     handler_step S J clock get popq report dispatches h
       (h\<lparr>h_queue := q', h_store := s', h_spawned := remove1 c (h_spawned h)\<rparr>)"
| step_world:
    "handler_step S J clock get popq report dispatches h (h\<lparr>h_queue := q'\<rparr>)"
| step_crash:
    "handler_step S J clock get popq report dispatches h (h\<lparr>h_phase := Starting, h_spawned := []\<rparr>)"

definition handler_start :: "'q \<Rightarrow> 's \<Rightarrow> ('q, 's) handler" where
  "handler_start q s = \<lparr>h_queue = q, h_store = s, h_phase = Starting, h_spawned = [], h_dispatched = []\<rparr>"

subsection \<open>Facts on the operations\<close>

lemma valid_details:
  "map_of VALID_COMMANDS_MAP c = Some d \<Longrightarrow> d_module d \<noteq> [] \<and> CHR 0x00 \<notin> set (d_module d) \<and> d_mode d = SYNC"
  by (auto simp: VALID_COMMANDS_MAP_def command_name_defs split: if_splits)

lemma CheckCommand_True:
  assumes "CheckCommand cmd = (Ok True, c)"
  shows "Id c = Id cmd \<and> Module c \<noteq> [] \<and> ExecutionMode c = SYNC \<and> (storable J cmd \<longrightarrow> storable J c)"
proof -
  from assms obtain d where d: "map_of VALID_COMMANDS_MAP (Command cmd) = Some d"
    "c = cmd\<lparr>Module := d_module d, ExecutionMode := d_mode d\<rparr>"
    by (auto simp: CheckCommand_def split: option.splits if_splits)
  with valid_details [OF d(1)] show ?thesis by (simp add: storable_def)
qed

lemma settled_sel [simp]: "Id (settled c) = Id c" "Command (settled c) = Command c"
  by (simp_all add: settled_def)

lemma settled_code: "code_of (settled c) \<noteq> UNKNOWN" "code_of (settled c) \<noteq> IN_PROGRESS"
  by (simp_all add: settled_def)

lemma storable_settled: "storable J c \<Longrightarrow> storable J (settled c)"
  by (auto simp: settled_def intro!: storable_result)

lemma storable_finish: "storable J c \<Longrightarrow> result_ok c res \<Longrightarrow> storable J (c\<lparr>ExecutionResult := res\<rparr>)"
  by (simp add: storable_def result_ok_def)

context command_store_laws
begin

lemma update_ids:
  assumes "sinv s" "storable J c" "Module c \<noteq> [] \<or> code_of c \<noteq> UNKNOWN" "S_UpdateCommand S c s = (r, s')"
  shows "sinv s' \<and> Id ` set (commands s') = Id ` set (commands s) \<and> is_ok r"
proof -
  have "map Id (map (\<lambda>x. if Id x = Id c then upd_entry c x else x) (commands s)) = map Id (commands s)" by simp
  then have "Id ` set (map (\<lambda>x. if Id x = Id c then upd_entry c x else x) (commands s)) = Id ` set (commands s)"
    by (metis set_map)
  with update_law [OF assms] show ?thesis by (auto simp del: set_map)
qed

lemma take_command_law:
  assumes "sinv s" "clock now" "\<And>c. got = Ok (Some c) \<Longrightarrow> storable J c" "take_command S J got now s = (r, s')"
  shows "sinv s' \<and>
    (case r of
       Ok (Accept c) \<Rightarrow> Id c \<notin> Id ` set (commands s) \<and> storable J c \<and> Module c \<noteq> [] \<and>
         (\<exists>t. commands s' = commands s @ [c\<lparr>Time := t\<rparr>])
     | _ \<Rightarrow> commands s' = commands s)"
proof (cases "\<exists>cmd c p. got = Ok (Some cmd) \<and> dump J (Parameters cmd) = Some p \<and> CheckCommand cmd = (Ok True, c)")
  case True
  then obtain cmd c p where c: "got = Ok (Some cmd)" "dump J (Parameters cmd) = Some p"
    "CheckCommand cmd = (Ok True, c)" by blast
  obtain x s1 where x: "S_StoreCommand S now c s = (x, s1)" by fastforce
  note chk = CheckCommand_True [OF c(3), of J]
  have "storable J c" using chk assms(3) [OF c(1)] by simp
  from store_law [OF assms(1) this assms(2) x] chk assms(3,4) c x show ?thesis
    by (auto simp: take_command_def) blast
next
  case False
  then have "s' = s \<and> (\<forall>c. r \<noteq> Ok (Accept c))"
    using assms(4) by (auto simp: take_command_def split: result.splits option.splits prod.splits bool.splits)
  with assms(1) show ?thesis by (auto split: result.splits taken.splits)
qed

lemma settle_each_ids:
  assumes "sinv s" "\<forall>c\<in>set cmds. storable J c" "settle_each S report cmds q s = (r, q', s')"
  shows "sinv s' \<and> Id ` set (commands s') = Id ` set (commands s)"
  using assms
proof (induction cmds arbitrary: q s)
  case (Cons cmd cmds)
  obtain x q1 where x: "report (settled cmd) q = (x, q1)" by fastforce
  obtain y s1 where y: "S_UpdateCommand S (settled cmd) s = (y, s1)" by fastforce
  have "storable J (settled cmd)" using Cons.prems(2) storable_settled by simp
  from update_ids [OF Cons.prems(1) this _ y] settled_code(1) obtain u where
    s1: "sinv s1" "Id ` set (commands s1) = Id ` set (commands s)" "y = Ok u" by auto
  show ?case
  proof (cases x)
    case (Ok v)
    with Cons.IH [OF s1(1)] Cons.prems(2,3) s1 x y show ?thesis by simp
  qed (use x Cons.prems in auto)
qed simp

lemma CleanUp_ids:
  assumes "sinv s" "CleanUpInProgressCommands S report q s = (r, q', s')"
  shows "sinv s' \<and> Id ` set (commands s') = Id ` set (commands s)"
proof (cases "\<exists>cs. S_GetCommandByStatus S IN_PROGRESS s = Ok (Some cs)")
  case True
  then obtain cs where cs: "S_GetCommandByStatus S IN_PROGRESS s = Ok (Some cs)" by blast
  with by_status_law [OF assms(1), of IN_PROGRESS] have
    "mset cs = mset (filter (\<lambda>c. code_of c = IN_PROGRESS) (commands s))" by auto
  then have "\<forall>c\<in>set cs. storable J c"
    using commands_storable [OF assms(1)] by (metis filter_is_subset set_mset_mset subsetD)
  from settle_each_ids [OF assms(1) this] assms(2) cs show ?thesis by (simp add: CleanUpInProgressCommands_def)
next
  case False
  with assms show ?thesis
    by (auto simp: CleanUpInProgressCommands_def split: result.splits option.splits)
qed

text \<open>The invariant behind at-most-once execution: what was dispatched is in the store.\<close>

definition handler_inv :: "('q, 's) handler \<Rightarrow> bool" where
  "handler_inv h \<longleftrightarrow>
     sinv (h_store h) \<and> distinct (h_dispatched h) \<and> set (h_dispatched h) \<subseteq> Id ` set (commands (h_store h)) \<and>
     (\<forall>c\<in>set (h_spawned h). storable J c \<and> Module c \<noteq> []) \<and>
     (case h_phase h of
        Popping c \<Rightarrow> Id c \<in> Id ` set (commands (h_store h)) \<and> Id c \<notin> set (h_dispatched h) \<and>
          storable J c \<and> Module c \<noteq> []
      | Dispatching c \<Rightarrow> storable J c \<and> Module c \<noteq> []
      | _ \<Rightarrow> True)"

lemma after_cases: "after r p = p \<or> after r p = Ended"
  by (cases r) simp_all

lemma finish_ids:
  assumes "sinv s" "storable J c" "Module c \<noteq> []" "result_ok c res" "finish S c res s = (r, s')"
  shows "sinv s' \<and> Id ` set (commands s') = Id ` set (commands s) \<and> is_ok r"
  using update_ids [OF assms(1) storable_finish [OF assms(2,4)]] assms(3,5) by (simp add: finish_def)

lemma handler_step_inv:
  assumes "handler_step S J clock get popq report dispatches h h'" "handler_inv h"
  shows "handler_inv h'"
  using assms
proof (cases rule: handler_step.cases)
  case (step_start r q' s')
  note ids = CleanUp_ids [OF _ step_start(3)]
  with assms(2) step_start after_cases [of r Polling] show ?thesis
    by (auto simp: handler_inv_def)
next
  case (step_take now r s')
  have "sinv (h_store h)" using assms(2) by (simp add: handler_inv_def)
  note law = take_command_law [OF this step_take(3,4,5)]
  show ?thesis
  proof (cases "\<exists>c. r = Ok (Accept c)")
    case True
    then obtain c where "r = Ok (Accept c)" by blast
    with law assms(2) step_take(1,2) show ?thesis by (auto simp: handler_inv_def)
  next
    case False
    with law assms(2) step_take(1,2) show ?thesis
      by (auto simp: handler_inv_def split: result.splits taken.splits)
  qed
next
  case (step_done c res q' r s')
  with assms(2) finish_ids [OF _ _ _ step_done(4,5)] after_cases [of r Polling] show ?thesis
    by (auto simp: handler_inv_def)
next
  case (step_spawned_done c res q' r s')
  with assms(2) have "sinv (h_store h)" "storable J c" "Module c \<noteq> []" by (auto simp: handler_inv_def)
  note ids = finish_ids [OF this step_spawned_done(4,5)]
  have "set (remove1 c (h_spawned h)) \<subseteq> set (h_spawned h)" by (rule set_remove1_subset)
  with ids assms(2) step_spawned_done(1) show ?thesis
    by (cases "h_phase h") (auto simp: handler_inv_def)
next
  case (step_report c r q')
  with assms(2) show ?thesis by (cases r) (simp_all add: handler_inv_def)
next
  case (step_discard r q')
  with assms(2) show ?thesis by (cases r) (simp_all add: handler_inv_def)
qed (simp_all add: handler_inv_def split: phase.splits)

end

subsection \<open>What a reliable store adds\<close>

lemma upd_entry_settled: "upd_entry (settled x) x = settled x"
  by (cases x) (simp add: upd_entry_def settled_def)

context reliable_command_store
begin

lemma settle_each_done:
  assumes "sinv s" "set cmds \<subseteq> set (commands s)" "distinct (map Id cmds)"
    and "settle_each S report cmds q s = (Ok u, q', s')"
  shows "sinv s' \<and> q' = fold (\<lambda>c q. snd (report (settled c) q)) cmds q \<and>
    commands s' = map (\<lambda>x. if Id x \<in> Id ` set cmds then settled x else x) (commands s)"
  using assms
proof (induction cmds arbitrary: q s)
  case (Cons cmd cmds)
  obtain x q1 where x: "report (settled cmd) q = (x, q1)" by fastforce
  with Cons.prems(4) obtain v where v: "x = Ok v" by (cases x) auto
  obtain y s1 where y: "S_UpdateCommand S (settled cmd) s = (y, s1)" by fastforce
  have st: "storable J (settled cmd)"
    using Cons.prems(1,2) commands_storable storable_settled by auto
  have "y = Ok True" using update_ok [OF Cons.prems(1) st] settled_code(1) y by simp
  with update_law [OF Cons.prems(1) st _ y] settled_code(1) have s1: "sinv s1"
    "commands s1 = map (\<lambda>x. if Id x = Id cmd then upd_entry (settled cmd) x else x) (commands s)" by auto
  have same: "x = cmd" if "x \<in> set (commands s)" "Id x = Id cmd" for x
    using ids_distinct [OF Cons.prems(1)] Cons.prems(2) that by (auto simp: distinct_map dest: inj_onD)
  have c1: "commands s1 = map (\<lambda>x. if Id x = Id cmd then settled x else x) (commands s)"
    unfolding s1(2) using same upd_entry_settled by (intro map_cong refl if_cong) metis+
  have "c \<in> set (commands s1)" if "c \<in> set cmds" for c
  proof -
    have "Id c \<noteq> Id cmd" using Cons.prems(3) that by (metis distinct.simps(2) image_eqI list.simps(9) set_map)
    moreover have "c \<in> set (commands s)" using Cons.prems(2) that by auto
    ultimately show ?thesis unfolding c1 by force
  qed
  then have sub: "set cmds \<subseteq> set (commands s1)" by blast
  have "settle_each S report cmds q1 s1 = (Ok u, q', s')"
    using Cons.prems(4) x v y \<open>y = Ok True\<close> by simp
  from Cons.IH [OF s1(1) sub _ this] Cons.prems(3) have IH: "sinv s'"
    "q' = fold (\<lambda>c q. snd (report (settled c) q)) cmds q1"
    "commands s' = map (\<lambda>x. if Id x \<in> Id ` set cmds then settled x else x) (commands s1)" by auto
  have "commands s' = map (\<lambda>x. if Id x \<in> Id ` set (cmd # cmds) then settled x else x) (commands s)"
    unfolding IH(3) c1 using Cons.prems(3) by auto
  with IH x show ?case by simp
qed simp

lemma CleanUp_done:
  assumes "sinv s" "CleanUpInProgressCommands S report q s = (Ok u, q', s')"
  shows "sinv s' \<and>
    (\<exists>cs. mset cs = mset (filter (\<lambda>c. code_of c = IN_PROGRESS) (commands s)) \<and>
       q' = fold (\<lambda>c q. snd (report (settled c) q)) cs q) \<and>
    commands s' = map (\<lambda>x. if code_of x = IN_PROGRESS then settled x else x) (commands s)"
proof (cases "S_GetCommandByStatus S IN_PROGRESS s = Ok None")
  case True
  with by_status_ok [OF assms(1)] have e: "filter (\<lambda>c. code_of c = IN_PROGRESS) (commands s) = []" by blast
  then have "map (\<lambda>x. if code_of x = IN_PROGRESS then settled x else x) (commands s) = commands s"
    by (intro map_idI) (auto simp: filter_empty_conv)
  with True assms e show ?thesis by (auto simp: CleanUpInProgressCommands_def)
next
  case False
  with by_status_law [OF assms(1), of IN_PROGRESS] obtain cs where
    cs: "S_GetCommandByStatus S IN_PROGRESS s = Ok (Some cs)"
      "mset cs = mset (filter (\<lambda>c. code_of c = IN_PROGRESS) (commands s))" by blast
  then have set: "set cs = {c \<in> set (commands s). code_of c = IN_PROGRESS}" by (metis set_filter set_mset_mset)
  have "distinct (map Id (filter (\<lambda>c. code_of c = IN_PROGRESS) (commands s)))"
    using ids_distinct [OF assms(1)] by (simp add: distinct_map_filter)
  moreover have "mset (map Id cs) = mset (map Id (filter (\<lambda>c. code_of c = IN_PROGRESS) (commands s)))"
    using cs(2) by (metis mset_map)
  ultimately have dist: "distinct (map Id cs)" by (metis mset_eq_imp_distinct_iff)
  have run: "settle_each S report cs q s = (Ok u, q', s')"
    using assms(2) cs(1) by (simp add: CleanUpInProgressCommands_def)
  have sub: "set cs \<subseteq> set (commands s)" using set by blast
  note fin = settle_each_done [OF assms(1) sub dist run]
  have "(Id x \<in> Id ` set cs) = (code_of x = IN_PROGRESS)" if "x \<in> set (commands s)" for x
    using ids_distinct [OF assms(1)] that set by (auto simp: distinct_map dest: inj_onD)
  then have "map (\<lambda>x. if Id x \<in> Id ` set cs then settled x else x) (commands s) =
      map (\<lambda>x. if code_of x = IN_PROGRESS then settled x else x) (commands s)" by simp
  with fin cs(2) show ?thesis by auto
qed

text \<open>The commands that are under way, and the invariant that nothing else is in progress.\<close>

definition active :: "('q, 'a) handler \<Rightarrow> string set" where
  "active h = Id ` set (h_spawned h) \<union>
     (case h_phase h of Popping c \<Rightarrow> {Id c} | Dispatching c \<Rightarrow> {Id c} | _ \<Rightarrow> {})"

definition progress_inv :: "('q, 'a) handler \<Rightarrow> bool" where
  "progress_inv h \<longleftrightarrow>
     (h_phase h \<noteq> Starting \<and> h_phase h \<noteq> Ended \<longrightarrow>
        (\<forall>c\<in>set (commands (h_store h)). code_of c = IN_PROGRESS \<longrightarrow>
           Id c \<in> active h \<or> Command c = RESTART_COMMAND))"

lemma finish_done:
  assumes "sinv s" "storable J c" "Module c \<noteq> []" "result_ok c res" "finish S c res s = (r, s')"
    and "x \<in> set (commands s')" "code_of x = IN_PROGRESS"
  shows "(x \<in> set (commands s) \<and> Id x \<noteq> Id c) \<or> Command x = RESTART_COMMAND"
proof -
  let ?u = "c\<lparr>ExecutionResult := res\<rparr>"
  note st = storable_finish [OF assms(2,4)]
  have "r = Ok True" using update_ok [OF assms(1) st] assms(3,5) by (simp add: finish_def)
  with update_law [OF assms(1) st] assms(3,5) have
    "commands s' = map (\<lambda>x. if Id x = Id ?u then upd_entry ?u x else x) (commands s)" by (simp add: finish_def)
  with assms(6) obtain y where y: "y \<in> set (commands s)" "x = (if Id y = Id c then upd_entry ?u y else y)" by auto
  show ?thesis
  proof (cases "Id y = Id c")
    case True
    with y(2) assms(7) have "ErrorCode res = IN_PROGRESS" "x = upd_entry ?u y"
      using assms(4) by (auto simp: upd_entry_def result_ok_def split: if_splits)
    then show ?thesis using assms(4) by (auto simp: upd_entry_def result_ok_def RESTART_COMMAND_def)
  qed (use y in auto)
qed

lemma progress_step:
  assumes "handler_step S J clock get popq report dispatches h h'" "handler_inv h" "progress_inv h"
  shows "progress_inv h'"
  using assms(1)
proof (cases rule: handler_step.cases)
  case (step_start r q' s')
  show ?thesis
  proof (cases r)
    case (Ok u)
    with assms(2) step_start(3) CleanUp_done [of "h_store h" report "h_queue h" u q' s'] have
      "commands s' = map (\<lambda>x. if code_of x = IN_PROGRESS then settled x else x) (commands (h_store h))"
      by (simp add: handler_inv_def)
    then have "code_of c \<noteq> IN_PROGRESS" if "c \<in> set (commands s')" for c
      using that settled_code(2) by auto
    with step_start(1) show ?thesis by (simp add: progress_inv_def)
  qed (simp_all add: step_start(1) progress_inv_def)
next
  case (step_take now r s')
  have "sinv (h_store h)" using assms(2) by (simp add: handler_inv_def)
  note law = take_command_law [OF this step_take(3,4,5)]
  show ?thesis
  proof (cases "\<exists>c. r = Ok (Accept c)")
    case True
    then obtain c where "r = Ok (Accept c)" by blast
    with law assms(3) step_take(1,2) show ?thesis by (auto simp: progress_inv_def active_def)
  next
    case False
    with law assms(3) step_take(1,2) show ?thesis
      by (auto simp: progress_inv_def active_def split: result.splits taken.splits)
  qed
next
  case (step_done c res q' r s')
  have a: "sinv (h_store h)" "storable J c" "Module c \<noteq> []"
    using assms(2) step_done(2) by (simp_all add: handler_inv_def)
  have "is_ok r" using finish_ids [OF a step_done(4,5)] by blast
  then have "after r Polling = Polling" by auto
  with finish_done [OF a step_done(4,5)] assms(3) step_done(1,2) show ?thesis
    by (fastforce simp: progress_inv_def active_def)
next
  case (step_spawned_done c res q' r s')
  have a: "sinv (h_store h)" "storable J c" "Module c \<noteq> []"
    using assms(2) step_spawned_done(2) by (auto simp: handler_inv_def)
  have "Id x \<in> Id ` set (remove1 c (h_spawned h))" if "Id x \<in> Id ` set (h_spawned h)" "Id x \<noteq> Id c" for x
    using that by (metis (no_types, lifting) image_iff in_set_remove1)
  with finish_done [OF a step_spawned_done(4,5)] assms(3) step_spawned_done(1) show ?thesis
    by (fastforce simp: progress_inv_def active_def)
next
  case (step_report c r q')
  with assms(3) show ?thesis by (cases r) (simp_all add: progress_inv_def active_def)
next
  case (step_discard r q')
  with assms(3) show ?thesis by (cases r) (simp_all add: progress_inv_def active_def)
qed (use assms(3) in \<open>auto simp: progress_inv_def active_def\<close>)

end

context command_store_laws
begin

lemma handler_run_inv:
  assumes "(handler_step S J clock get popq report dispatches)\<^sup>*\<^sup>* (handler_start q s) h" "sinv s"
  shows "handler_inv h"
  using assms(1)
proof (induction rule: rtranclp_induct)
  case base
  with assms(2) show ?case by (simp add: handler_inv_def handler_start_def)
next
  case (step h h')
  from handler_step_inv [OF step(2,3)] show ?case .
qed

lemma settle_each_returns:
  assumes "sinv s" "\<forall>c\<in>set cmds. storable J c" "\<And>c q. fst (report c q) = Ok ()"
  shows "fst (settle_each S report cmds q s) = Ok ()"
  using assms(1,2)
proof (induction cmds arbitrary: q s)
  case (Cons cmd cmds)
  obtain q1 where x: "report (settled cmd) q = (Ok (), q1)" using assms(3) by (metis prod.collapse)
  obtain y s1 where y: "S_UpdateCommand S (settled cmd) s = (y, s1)" by fastforce
  have "storable J (settled cmd)" using Cons.prems(2) storable_settled by simp
  from update_ids [OF Cons.prems(1) this _ y] settled_code(1) obtain u where "sinv s1" "y = Ok u" by auto
  with Cons x y show ?case by simp
qed simp

end

context reliable_command_store
begin

lemma progress_run_inv:
  assumes "(handler_step S J clock get popq report dispatches)\<^sup>*\<^sup>* (handler_start q s) h" "sinv s"
  shows "handler_inv h \<and> progress_inv h"
  using assms(1)
proof (induction rule: rtranclp_induct)
  case base
  with assms(2) show ?case by (simp add: handler_inv_def progress_inv_def handler_start_def)
next
  case (step h h')
  with progress_step [OF step(2)] handler_step_inv [OF step(2)] show ?case by blast
qed

lemma CleanUp_returns:
  assumes "sinv s" "\<And>c q. fst (report c q) = Ok ()"
  shows "fst (CleanUpInProgressCommands S report q s) = Ok ()"
proof (cases "S_GetCommandByStatus S IN_PROGRESS s = Ok None")
  case False
  with by_status_law [OF assms(1), of IN_PROGRESS] obtain cs where
    cs: "S_GetCommandByStatus S IN_PROGRESS s = Ok (Some cs)"
      "mset cs = mset (filter (\<lambda>c. code_of c = IN_PROGRESS) (commands s))" by blast
  then have "\<forall>c\<in>set cs. storable J c"
    using commands_storable [OF assms(1)] by (metis filter_is_subset set_mset_mset subsetD)
  from settle_each_returns [OF assms(1) this assms(2)] cs(1) show ?thesis
    by (simp add: CleanUpInProgressCommands_def)
qed (simp add: CleanUpInProgressCommands_def)

end

context command_store_laws
begin

lemma CleanUp_nothing:
  assumes "sinv s" "filter (\<lambda>c. code_of c = IN_PROGRESS) (commands s) = []"
  shows "CleanUpInProgressCommands S report q s = (Ok (), q, s)"
  using by_status_law [OF assms(1), of IN_PROGRESS] assms(2) by (auto simp: CleanUpInProgressCommands_def)

end

context reliable_command_store
begin

lemma take_command_accepts:
  assumes "sinv s" "clock now" "storable J cmd" "CheckCommand cmd = (Ok True, c)" "Id c \<notin> Id ` set (commands s)"
  shows "\<exists>s'. take_command S J (Ok (Some cmd)) now s = (Ok (Accept c), s')"
proof -
  have c: "storable J c" using CheckCommand_True [OF assms(4), of J] assms(3) by blast
  obtain s' where "S_StoreCommand S now c s = (Ok True, s')"
    using store_ok [OF assms(1) c assms(2,5)] by (metis prod.collapse)
  moreover from assms(3) obtain p where "dump J (Parameters cmd) = Some p" by (rule storableE)
  ultimately show ?thesis using assms(4) by (simp add: take_command_def)
qed

end

subsection \<open>A small instance\<close>

text \<open>A queue that is a list, over the in-memory command store, for the examples.\<close>

definition list_get :: "CommandEntry list \<Rightarrow> CommandEntry option result" where
  "list_get q = Ok (case q of [] \<Rightarrow> None | c # _ \<Rightarrow> Some c)"

definition list_pop :: "CommandEntry list \<Rightarrow> unit result \<times> CommandEntry list" where
  "list_pop q = (Ok (), tl q)"

definition list_report :: "CommandEntry \<Rightarrow> CommandEntry list \<Rightarrow> unit result \<times> CommandEntry list" where
  "list_report c q = (Ok (), q)"

definition list_dispatches ::
  "CommandEntry \<Rightarrow> CommandEntry list \<Rightarrow> CommandExecutionResult result \<Rightarrow> CommandEntry list \<Rightarrow> bool" where
  "list_dispatches c q r q' \<longleftrightarrow> r = Ok (execution_result SUCCESS ''done'') \<and> q' = q"

abbreviation mem_step where
  "mem_step \<equiv> handler_step (command_store mem_persistence tiny_lib) tiny_lib (clock_text mem_canon)
     list_get list_pop list_report list_dispatches"

definition fetch_command :: CommandEntry where
  "fetch_command = command_entry ''7'' [] ''fetch-config'' (JObj []) ASYNC [] IN_PROGRESS"

lemma fetch_command_ok:
  "storable tiny_lib fetch_command" "clock_text mem_canon ''1''" "dump tiny_lib (Parameters fetch_command) = Some ''{}''"
  "CheckCommand fetch_command = (Ok True, fetch_command\<lparr>Module := ''CentralizedConfiguration'', ExecutionMode := SYNC\<rparr>)"
  by (simp_all add: storable_def params_ok_def fetch_command_def command_entry_def tiny_eval clock_text_def
      mem_canon_def stod_accepts_def isspace_def isdigit_def number_text_def CheckCommand_def VALID_COMMANDS_MAP_def
      command_name_defs keys_throw_def)

lemma mem_store_good: "store_good J (m_tables mem_command_db)" "store_commands J (m_tables mem_command_db) = []"
  by (simp_all add: store_good_def store_commands_def mem_command_db_ok)

text \<open>A run that ends with the command dispatched, and one that ends with it finished.\<close>

lemma mem_run_dispatched:
  "\<exists>h. mem_step\<^sup>*\<^sup>* (handler_start [fetch_command, fetch_command] mem_command_db) h \<and>
     h_dispatched h = [''7''] \<and> h_spawned h = [] \<and>
     h_phase h = Dispatching (fetch_command\<lparr>Module := ''CentralizedConfiguration'', ExecutionMode := SYNC\<rparr>)"
proof -
  let ?c = "fetch_command\<lparr>Module := ''CentralizedConfiguration'', ExecutionMode := SYNC\<rparr>"
  let ?h0 = "handler_start [fetch_command, fetch_command] mem_command_db"
  let ?h1 = "?h0\<lparr>h_queue := h_queue ?h0, h_store := h_store ?h0, h_phase := after (Ok ()) Polling\<rparr>"
  have si: "mem.store_inv tiny_lib mem_command_db"
    by (simp add: mem.store_inv_def mem_command_db_ok mem_store_good)
  have s1: "mem_step ?h0 ?h1"
    by (rule handler_step.step_start)
      (simp_all add: handler_start_def mem.cs.CleanUp_nothing [OF si] mem_store_good)
  have "Id ?c \<notin> Id ` set (store_commands tiny_lib (m_tables mem_command_db))" by (simp add: mem_store_good)
  from memr.csr.take_command_accepts [OF si fetch_command_ok(2,1,4) this] obtain s' where
    take: "take_command (command_store mem_persistence tiny_lib) tiny_lib (Ok (Some fetch_command)) ''1'' mem_command_db
      = (Ok (Accept ?c), s')" by blast
  let ?h2 = "?h1\<lparr>h_store := s', h_phase := Popping ?c\<rparr>"
  have "mem_step ?h1 (?h1\<lparr>h_store := s', h_phase := (case Ok (Accept ?c) of Ok NoCommand \<Rightarrow> Polling
      | Ok (Refuse c) \<Rightarrow> Reporting c | Ok (Accept c) \<Rightarrow> Popping c | _ \<Rightarrow> Ended)\<rparr>)"
    by (rule handler_step.step_take [where now = "''1''"])
      (use take fetch_command_ok in \<open>auto simp: handler_start_def list_get_def\<close>)
  then have s2: "mem_step ?h1 ?h2" by simp
  let ?h3 = "?h2\<lparr>h_queue := [fetch_command], h_phase := Dispatching ?c, h_dispatched := h_dispatched ?h2 @ [Id ?c]\<rparr>"
  have s3: "mem_step ?h2 ?h3"
    by (rule handler_step.step_sync) (simp_all add: handler_start_def list_pop_def)
  have "mem_step\<^sup>*\<^sup>* ?h0 ?h3"
    by (rule rtranclp.rtrancl_into_rtrancl [of mem_step, OF rtranclp.rtrancl_into_rtrancl [of mem_step,
        OF r_into_rtranclp [of mem_step, OF s1] s2] s3])
  moreover have "h_dispatched ?h3 = [''7'']" "h_spawned ?h3 = []" "h_phase ?h3 = Dispatching ?c"
    by (simp_all add: handler_start_def fetch_command_def command_entry_def)
  ultimately show ?thesis by blast
qed

lemma mem_run_finished:
  "\<exists>h. mem_step\<^sup>*\<^sup>* (handler_start [fetch_command, fetch_command] mem_command_db) h \<and>
     h_dispatched h = [''7''] \<and> h_spawned h = [] \<and> h_phase h = Polling"
proof -
  let ?c = "fetch_command\<lparr>Module := ''CentralizedConfiguration'', ExecutionMode := SYNC\<rparr>"
  obtain h where h: "mem_step\<^sup>*\<^sup>* (handler_start [fetch_command, fetch_command] mem_command_db) h"
    "h_dispatched h = [''7'']" "h_spawned h = []" "h_phase h = Dispatching ?c" using mem_run_dispatched by blast
  let ?res = "execution_result SUCCESS ''done''"
  have res: "result_ok ?c ?res" by (simp add: result_ok_def)
  obtain r s' where r: "finish (command_store mem_persistence tiny_lib) ?c ?res (h_store h) = (r, s')" by fastforce
  have si: "mem.store_inv tiny_lib mem_command_db"
    by (simp add: mem.store_inv_def mem_command_db_ok mem_store_good)
  note inv = mem.cs.handler_run_inv [OF h(1) si]
  have "mem.store_inv tiny_lib (h_store h)" "storable tiny_lib ?c" "Module ?c \<noteq> []"
    using inv h(4) by (simp_all add: mem.cs.handler_inv_def)
  from mem.cs.finish_ids [OF this res r] have "after r Polling = Polling" by auto
  moreover have "mem_step h (h\<lparr>h_queue := h_queue h, h_store := s', h_phase := after r Polling\<rparr>)"
    by (rule handler_step.step_done [OF h(4) _ res r]) (simp add: list_dispatches_def)
  ultimately show ?thesis
    using h by (intro exI [of _ "h\<lparr>h_queue := h_queue h, h_store := s', h_phase := Polling\<rparr>"])
      (simp add: rtranclp.rtrancl_into_rtrancl)
qed

subsection \<open>Properties\<close>

text \<open>
  C17: a command is executed at most once. In every run of the handler, over any database that keeps
  its contract, with crashes and restarts at any point and whatever the queue delivers, however often,
  no identifier is dispatched twice, and every identifier that was dispatched is in the store.
\<close>

theorem command_at_most_once:
  assumes "persistence_laws P tables saved canon dinv" "dinv db" "store_good J (tables db)"
    and "(handler_step (command_store P J) J (clock_text canon) get popq report dispatches)\<^sup>*\<^sup>* (handler_start q db) h"
  shows "distinct (h_dispatched h) \<and>
    set (h_dispatched h) \<subseteq> Id ` set (store_commands J (tables (h_store h)))"
proof -
  have s: "persistence_laws.store_inv tables dinv J db"
    using assms(2,3) by (simp add: persistence_laws.store_inv_def [OF assms(1)])
  have C: "command_store_laws (command_store P J) J (\<lambda>db. store_commands J (tables db))
      (persistence_laws.store_inv tables dinv J) (clock_text canon)"
    by (rule persistence_laws.command_store_contract [OF assms(1)])
  from command_store_laws.handler_run_inv [OF C assms(4) s] show ?thesis
    by (simp add: command_store_laws.handler_inv_def [OF C])
qed

theorem command_at_most_once_witness:
  "\<exists>h. mem_step\<^sup>*\<^sup>* (handler_start [fetch_command, fetch_command] mem_command_db) h \<and>
     h_dispatched h = [''7''] \<and> ''7'' \<in> Id ` set (store_commands tiny_lib (m_tables (h_store h)))"
proof -
  obtain h where h: "mem_step\<^sup>*\<^sup>* (handler_start [fetch_command, fetch_command] mem_command_db) h"
    "h_dispatched h = [''7'']" using mem_run_finished by blast
  from command_at_most_once [OF mem.persistence_laws_axioms, OF mem_command_db_ok(1) mem_store_good(1) h(1)] h(2)
  have "''7'' \<in> Id ` set (store_commands tiny_lib (m_tables (h_store h)))" by simp
  with h show ?thesis by blast
qed

text \<open>
  C18: an idle handler leaves nothing in progress. With a database that does not fail, whenever the
  handler is waiting for the next command and none runs in the background, every command of the store
  has a final status, apart from those that restart the agent; also after crashes.
\<close>

theorem idle_handler_settled:
  assumes "reliable_persistence P tables saved canon dinv" "dinv db" "store_good J (tables db)"
    and "(handler_step (command_store P J) J (clock_text canon) get popq report dispatches)\<^sup>*\<^sup>* (handler_start q db) h"
    and "h_phase h = Polling" "h_spawned h = []" "c \<in> set (store_commands J (tables (h_store h)))"
  shows "code_of c \<noteq> IN_PROGRESS \<or> Command c = RESTART_COMMAND"
proof -
  have L: "persistence_laws P tables saved canon dinv" using assms(1) by (simp add: reliable_persistence_def)
  have s: "persistence_laws.store_inv tables dinv J db"
    using assms(2,3) by (simp add: persistence_laws.store_inv_def [OF L])
  note C = reliable_persistence.reliable_command_store_contract [OF assms(1), of J]
  from reliable_command_store.progress_run_inv [OF C assms(4) s] assms(5-7) show ?thesis
    by (auto simp: reliable_command_store.progress_inv_def [OF C] reliable_command_store.active_def [OF C])
qed

theorem idle_handler_settled_witness:
  "\<exists>h c. mem_step\<^sup>*\<^sup>* (handler_start [fetch_command, fetch_command] mem_command_db) h \<and>
     c \<in> set (store_commands tiny_lib (m_tables (h_store h))) \<and> Id c = ''7'' \<and>
     (code_of c \<noteq> IN_PROGRESS \<or> Command c = RESTART_COMMAND)"
proof -
  obtain h where h: "mem_step\<^sup>*\<^sup>* (handler_start [fetch_command, fetch_command] mem_command_db) h"
    "h_dispatched h = [''7'']" "h_spawned h = []" "h_phase h = Polling" using mem_run_finished by blast
  have si: "mem.store_inv tiny_lib mem_command_db"
    by (simp add: mem.store_inv_def mem_command_db_ok mem_store_good)
  from mem.cs.handler_run_inv [OF h(1) si] h(2) obtain c where
    c: "c \<in> set (store_commands tiny_lib (m_tables (h_store h)))" "Id c = ''7''"
    by (auto simp: mem.cs.handler_inv_def)
  from idle_handler_settled [OF memr.reliable_persistence_axioms, OF mem_command_db_ok(1) mem_store_good(1) h(1,4,3) c(1)]
  show ?thesis using h(1) c by blast
qed

text \<open>
  C19: at the start the handler settles what an earlier run left behind. With a database that does not
  fail and a queue that accepts the reports, it reports each command that is in progress exactly once,
  as restarted if it is a restart and as failed otherwise, writes that result, leaves the other
  commands as they were, and afterwards no command is in progress.
\<close>

theorem CleanUp_settles:
  assumes "reliable_persistence P tables saved canon dinv" "dinv db" "store_good J (tables db)"
    and "\<And>c q. fst (report c q) = Ok ()"
  shows "\<exists>cs db'. CleanUpInProgressCommands (command_store P J) report q db =
      (Ok (), fold (\<lambda>c q. snd (report (settled c) q)) cs q, db') \<and>
    mset cs = mset (filter (\<lambda>c. code_of c = IN_PROGRESS) (store_commands J (tables db))) \<and>
    store_commands J (tables db') =
      map (\<lambda>c. if code_of c = IN_PROGRESS then settled c else c) (store_commands J (tables db)) \<and>
    list_all (\<lambda>c. code_of c \<noteq> IN_PROGRESS) (store_commands J (tables db'))"
proof -
  have L: "persistence_laws P tables saved canon dinv" using assms(1) by (simp add: reliable_persistence_def)
  have s: "persistence_laws.store_inv tables dinv J db"
    using assms(2,3) by (simp add: persistence_laws.store_inv_def [OF L])
  note C = reliable_persistence.reliable_command_store_contract [OF assms(1), of J]
  obtain q' db' where run: "CleanUpInProgressCommands (command_store P J) report q db = (Ok (), q', db')"
    using reliable_command_store.CleanUp_returns [OF C, OF s, of report q] assms(4) by (metis prod.collapse)
  from reliable_command_store.CleanUp_done [OF C, OF s run] obtain cs where
    "mset cs = mset (filter (\<lambda>c. code_of c = IN_PROGRESS) (store_commands J (tables db)))"
    "q' = fold (\<lambda>c q. snd (report (settled c) q)) cs q"
    "store_commands J (tables db') =
      map (\<lambda>c. if code_of c = IN_PROGRESS then settled c else c) (store_commands J (tables db))" by blast
  with run show ?thesis
    by (intro exI [of _ cs] exI [of _ db']) (auto simp: list_all_iff settled_code)
qed

theorem CleanUp_settles_witness:
  "\<exists>db db'. CleanUpInProgressCommands (command_store mem_persistence tiny_lib) list_report [] db = (Ok (), [], db') \<and>
     store_commands tiny_lib (m_tables db) = [fetch_command\<lparr>Time := ''1''\<rparr>] \<and>
     map code_of (store_commands tiny_lib (m_tables db')) = [FAILURE]"
proof -
  have si: "mem.store_inv tiny_lib mem_command_db"
    by (simp add: mem.store_inv_def mem_command_db_ok mem_store_good)
  obtain r db where r: "StoreCommand mem_persistence tiny_lib ''1'' fetch_command mem_command_db = (r, db)" by fastforce
  have "r = Ok True"
    using memr.StoreCommand_ok [OF mem_command_db_ok(1,2) fetch_command_ok(1), of "''1''"] r mem_command_db_ok(3)
    by (simp add: number_text_def isdigit_def)
  then have db: "mem.store_inv tiny_lib db" "store_commands tiny_lib (m_tables db) = [fetch_command\<lparr>Time := ''1''\<rparr>]"
    using mem.store_command_law [OF si fetch_command_ok(1,2) r] by (auto simp: mem_store_good mem_canon_def)
  have rep: "fst (list_report c q) = Ok ()" for c q by (simp add: list_report_def)
  have good: "mem_inv db" "store_good tiny_lib (m_tables db)" using db(1) by (simp_all add: mem.store_inv_def)
  from CleanUp_settles [OF memr.reliable_persistence_axioms, OF good, of list_report "[]", OF rep] obtain cs db' where
    run: "CleanUpInProgressCommands (command_store mem_persistence tiny_lib) list_report [] db =
      (Ok (), fold (\<lambda>c q. snd (list_report (settled c) q)) cs [], db')"
    "store_commands tiny_lib (m_tables db') =
      map (\<lambda>c. if code_of c = IN_PROGRESS then settled c else c) (store_commands tiny_lib (m_tables db))" by blast
  have "fold (\<lambda>c q. snd (list_report (settled c) q)) cs [] = []" by (induction cs) (simp_all add: list_report_def)
  moreover have "map code_of (store_commands tiny_lib (m_tables db')) = [FAILURE]"
    unfolding run(2) db(2) by (simp add: fetch_command_def command_entry_def settled_def RESTART_COMMAND_def)
  ultimately show ?thesis using run(1) db(2) by (intro exI [of _ db] exI [of _ db']) simp
qed

end
