(* ===== verification/Sql_Text.thy ===== *)
theory Sql_Text
  imports Persistence
begin

section \<open>The SQL that the agent writes\<close>

text \<open>
  \<^verbatim>\<open>src/src/agent/persistence/src/sqlite_manager.cpp\<close> builds its statements as text. This theory has the
  functions that build them and says which statement a text spells.

  The database library's scanner is not part of the sources: it is the parameter \<open>scan\<close> of the locale \<open>sql_lexer\<close>,
  whose laws are SQL's lexical rules for the characters that the agent writes, among them that a quote
  inside a literal is written twice and that a NUL byte ends the text, also inside a literal, which
  is then not a token. \<open>stmt_toks\<close> gives the tokens of a statement, all of them, and a text spells a statement
  when its tokens are exactly those, with at most a semicolon after them.

  The lemmas show that the text built for an operation spells the statement that was meant, with
  exactly the given values, and no other statement; when a text value holds a NUL byte, the text is
  not even a list of tokens. \<open>sql_lex\<close> is a scanner that satisfies the laws, \<open>sql_parse\<close> the inverse of
  \<open>stmt_toks\<close>.
\<close>

subsection \<open>Writing\<close>

definition quote :: char where "quote = CHR 0x27"

text \<open>\<^verbatim>\<open>fmt::join\<close>.\<close>

fun join :: "string \<Rightarrow> string list \<Rightarrow> string" where
  "join sep [] = []"
| "join sep [x] = x"
| "join sep (x # y # xs) = x @ sep @ join sep (y # xs)"

fun MAP_COL_TYPE_STRING :: "ColumnType \<Rightarrow> string" where
  "MAP_COL_TYPE_STRING INTEGER = ''INTEGER''"
| "MAP_COL_TYPE_STRING TEXT = ''TEXT''"
| "MAP_COL_TYPE_STRING REAL = ''REAL''"

fun MAP_LOGOP_STRING :: "LogicalOperator \<Rightarrow> string" where
  "MAP_LOGOP_STRING AND = ''AND''"
| "MAP_LOGOP_STRING OR = ''OR''"

fun MAP_ORDER_STRING :: "OrderType \<Rightarrow> string" where
  "MAP_ORDER_STRING ASC = ''ASC''"
| "MAP_ORDER_STRING DESC = ''DESC''"

fun EscapeSingleQuotes :: "string \<Rightarrow> string" where
  "EscapeSingleQuotes [] = []"
| "EscapeSingleQuotes (c # s) = (if c = quote then [quote, quote] else [c]) @ EscapeSingleQuotes s"

definition literal :: "ColumnValue \<Rightarrow> string" where
  "literal col = (if Type col = TEXT then [quote] @ EscapeSingleQuotes (Value col) @ [quote] else Value col)"

definition assignment :: "ColumnValue \<Rightarrow> string" where
  "assignment col = Name col @ ''='' @ literal col"

definition where_clause :: "Criteria \<Rightarrow> LogicalOperator \<Rightarrow> string" where
  "where_clause selCriteria logOp =
     (if selCriteria = [] then []
      else ''WHERE '' @ join ('' '' @ MAP_LOGOP_STRING logOp @ '' '') (map assignment selCriteria))"

definition field_text :: "ColumnKey \<Rightarrow> string" where
  "field_text col =
     Name col @ '' '' @ MAP_COL_TYPE_STRING (Type col) @ (if has_attr col NOT_NULL then '' NOT NULL'' else [])"

definition pk_text :: "ColumnKey \<Rightarrow> string" where
  "pk_text col = Name col @ (if has_attr col AUTO_INCREMENT then '' AUTOINCREMENT'' else [])"

definition create_text :: "string \<Rightarrow> Keys \<Rightarrow> string" where
  "create_text tableName keys =
     (let pk = map pk_text (filter (\<lambda>c. has_attr c PRIMARY_KEY) keys) in
      ''CREATE TABLE IF NOT EXISTS '' @ tableName @ '' ('' @ join '', '' (map field_text keys) @
      (if pk = [] then [] else '', PRIMARY KEY('' @ join '', '' pk @ '')'') @ '')'')"

definition insert_text :: "string \<Rightarrow> Row \<Rightarrow> string" where
  "insert_text tableName row =
     ''INSERT INTO '' @ tableName @ '' ('' @ join '', '' (map Name row) @ '') VALUES ('' @
     join '', '' (map literal row) @ '')''"

definition update_text :: "string \<Rightarrow> Row \<Rightarrow> Criteria \<Rightarrow> LogicalOperator \<Rightarrow> string" where
  "update_text tableName flds selCriteria logOp =
     ''UPDATE '' @ tableName @ '' SET '' @ join '', '' (map assignment flds) @
     (if selCriteria = [] then [] else '' '' @ where_clause selCriteria logOp)"

definition remove_text :: "string \<Rightarrow> Criteria \<Rightarrow> LogicalOperator \<Rightarrow> string" where
  "remove_text tableName selCriteria logOp =
     ''DELETE FROM '' @ tableName @ (if selCriteria = [] then [] else '' '' @ where_clause selCriteria logOp)"

definition drop_text :: "string \<Rightarrow> string" where
  "drop_text tableName = ''DROP TABLE '' @ tableName"

definition select_text ::
  "string \<Rightarrow> Names \<Rightarrow> Criteria \<Rightarrow> LogicalOperator \<Rightarrow> Names \<Rightarrow> OrderType \<Rightarrow> int \<Rightarrow> string" where
  "select_text tableName flds selCriteria logOp orderBy orderType limit =
     ''SELECT '' @ (if flds = [] then ''*'' else join '', '' (map Name flds)) @ '' FROM '' @ tableName @ '' '' @
     where_clause selCriteria logOp @
     (if orderBy = [] then []
      else '' ORDER BY '' @ join '', '' (map Name orderBy) @ '' '' @ MAP_ORDER_STRING orderType) @
     (if limit > 0 then '' LIMIT '' @ dec_int limit else [])"

definition count_text :: "string \<Rightarrow> Criteria \<Rightarrow> LogicalOperator \<Rightarrow> string" where
  "count_text tableName selCriteria logOp =
     ''SELECT COUNT(*) FROM '' @ tableName @ '' '' @ where_clause selCriteria logOp"

definition length_text :: "string \<Rightarrow> string" where
  "length_text n = ''LENGTH('' @ n @ '')''"

definition size_text :: "string \<Rightarrow> Names \<Rightarrow> Criteria \<Rightarrow> LogicalOperator \<Rightarrow> string" where
  "size_text tableName flds selCriteria logOp =
     ''SELECT SUM('' @ join '' + '' (map (\<lambda>c. length_text (Name c)) flds) @ '') AS total_bytes FROM '' @
     tableName @ '' '' @ where_clause selCriteria logOp"

definition exists_text :: "string \<Rightarrow> string" where
  "exists_text table =
     ''SELECT name FROM sqlite_master WHERE type='' @ [quote] @ ''table'' @ [quote] @ '' AND name='' @ [quote] @
     table @ [quote] @ '';''"

subsection \<open>Tokens\<close>

datatype tok = Word string | Num string | Str string | Sym char

text \<open>
  The rest of a literal after its first quote: its value and the text after it. Two quotes stand for
  one; a text that ends first, also by a NUL byte, has no literal.
\<close>

fun lex_literal :: "string \<Rightarrow> (string \<times> string) option" where
  "lex_literal [] = None"
| "lex_literal (c # s) =
     (if c = CHR 0x00 then None
      else if c = quote then
        (case s of
           [] \<Rightarrow> Some ([], [])
         | d # s' \<Rightarrow> if d = quote then map_option (apfst ((#) quote)) (lex_literal s') else Some ([], s))
      else map_option (apfst ((#) c)) (lex_literal s))"

lemma lex_literal_shorter: "lex_literal s = Some (v, r) \<Longrightarrow> length r < length s"
  by (induction s arbitrary: v r rule: lex_literal.induct) (fastforce split: if_splits list.splits)+

text \<open>A word: a name or a keyword. What may follow a word or a number without being part of it.\<close>

definition is_word :: "string \<Rightarrow> bool" where
  "is_word w \<longleftrightarrow> w \<noteq> [] \<and> list_all ident_char w \<and> \<not> isdigit (hd w)"

definition bnd :: "string \<Rightarrow> bool" where
  "bnd rest \<longleftrightarrow> rest = [] \<or> hd rest \<in> set '' ,()=;+*''"

text \<open>
  SQL's lexical rules, where the agent's texts use them. \<open>None\<close>: the first statement of the text has something that is
  no token, so it is rejected before it is executed.
\<close>

locale sql_lexer =
  fixes scan :: "string \<Rightarrow> tok list option"
  assumes lex_end: "scan [] = Some []"
    and lex_blank: "scan (CHR '' '' # s) = scan s"
    and lex_quote: "scan (quote # s) =
      (case lex_literal s of None \<Rightarrow> None | Some (v, r) \<Rightarrow> map_option ((#) (Str v)) (scan r))"
    and lex_word: "is_word w \<Longrightarrow> bnd s \<Longrightarrow> scan (w @ s) = map_option ((#) (Word w)) (scan s)"
    and lex_number: "number_text n \<Longrightarrow> hd n \<noteq> CHR ''-'' \<Longrightarrow> bnd s \<Longrightarrow> scan (n @ s) = map_option ((#) (Num n)) (scan s)"
    and lex_minus: "s \<noteq> [] \<Longrightarrow> isdigit (hd s) \<Longrightarrow> scan (CHR ''-'' # s) = map_option ((#) (Sym (CHR ''-''))) (scan s)"
    and lex_symbol: "c \<in> set '',()*+'' \<Longrightarrow> scan (c # s) = map_option ((#) (Sym c)) (scan s)"
    and lex_equals: "s \<noteq> [] \<Longrightarrow> hd s \<noteq> CHR ''='' \<Longrightarrow> scan (CHR ''='' # s) = map_option ((#) (Sym (CHR ''=''))) (scan s)"
    and lex_semicolon: "scan '';'' = Some [Sym (CHR '';'')]"

text \<open>A scanner with these rules.\<close>

definition num_char :: "char \<Rightarrow> bool" where
  "num_char c \<longleftrightarrow> isdigit c \<or> c = CHR ''.''"

function sql_lex :: "string \<Rightarrow> tok list option" where
  "sql_lex [] = Some []"
| "sql_lex (c # s) =
     (if c = CHR 0x00 then Some []
      else if isspace c then sql_lex s
      else if c = quote then
        (case lex_literal s of
           None \<Rightarrow> None | Some (v, r) \<Rightarrow> map_option ((#) (Str v)) (sql_lex r))
      else if isdigit c then
        map_option ((#) (Num (takeWhile num_char (c # s)))) (sql_lex (dropWhile num_char s))
      else if ident_char c then
        map_option ((#) (Word (takeWhile ident_char (c # s)))) (sql_lex (dropWhile ident_char s))
      else map_option ((#) (Sym c)) (sql_lex s))"
  by pat_completeness auto
termination
  by (relation "measure length") (auto dest: lex_literal_shorter simp: le_imp_less_Suc length_dropWhile_le)

lemmas char_facts = ident_char_def isdigit_def isspace_def quote_def num_char_def

lemma number_chars:
  assumes "number_text n" "hd n \<noteq> CHR ''-''"
  shows "n \<noteq> []" "isdigit (hd n)" "list_all num_char n"
proof -
  have n: "n \<noteq> []" using assms(1) by (auto simp: number_text_def)
  then obtain c u where c: "n = c # u" "c \<noteq> CHR ''-''" using assms(2) by (cases n) auto
  have d: "takeWhile isdigit n \<noteq> []"
    "dropWhile isdigit n = [] \<or> hd (dropWhile isdigit n) = CHR ''.'' \<and> list_all isdigit (tl (dropWhile isdigit n))"
    using assms(1) c by (auto simp: number_text_def Let_def split: if_splits)
  show "n \<noteq> []" by (rule n)
  show "isdigit (hd n)" using d(1) c(1) by (auto split: if_splits)
  have "list_all num_char (takeWhile isdigit n)" by (auto simp: list_all_iff num_char_def dest: set_takeWhileD)
  moreover have "list_all num_char (dropWhile isdigit n)"
    using d(2) by (cases "dropWhile isdigit n") (auto simp: list_all_iff num_char_def simp del: dropWhile_eq_Nil_conv)
  ultimately show "list_all num_char n" by (metis list_all_append takeWhile_dropWhile_id)
qed

lemma scan_word:
  assumes "w \<noteq> []" "list_all p w" "bnd rest" "\<And>c. c \<in> set '' ,()=;+*'' \<Longrightarrow> \<not> p c"
  shows "takeWhile p (w @ rest) = w" "dropWhile p (tl w @ rest) = rest"
proof -
  have "takeWhile p rest = []" "dropWhile p rest = rest"
    using assms(3,4) by (cases rest; auto simp: bnd_def)+
  moreover have "list_all p (tl w)" using assms(1,2) by (cases w) auto
  ultimately show "takeWhile p (w @ rest) = w" "dropWhile p (tl w @ rest) = rest"
    using assms(2) by (simp_all add: takeWhile_append2 dropWhile_append2 list_all_iff)
qed

interpretation lx: sql_lexer sql_lex
proof
  show "sql_lex [] = Some []" by simp
  show "sql_lex (CHR '' '' # s) = sql_lex s" for s by (simp add: char_facts)
  show "sql_lex (quote # s) = (case lex_literal s of None \<Rightarrow> None | Some (v, r) \<Rightarrow> map_option ((#) (Str v)) (sql_lex r))" for s
    by (simp add: char_facts)
  show "sql_lex (w @ s) = map_option ((#) (Word w)) (sql_lex s)" if "is_word w" "bnd s" for w s
  proof -
    have "w \<noteq> []" using that(1) by (simp add: is_word_def)
    then obtain c u where w: "w = c # u" by (cases w) auto
    have "takeWhile ident_char (w @ s) = w" "dropWhile ident_char (tl w @ s) = s"
      using that by (intro scan_word; auto simp: is_word_def char_facts)+
    moreover have "ident_char c" "\<not> isdigit c" "c \<noteq> CHR 0x00" "\<not> isspace c" "c \<noteq> quote"
      using that(1) w by (auto simp: is_word_def char_facts)
    ultimately show ?thesis by (simp add: w del: takeWhile.simps)
  qed
  show "sql_lex (n @ s) = map_option ((#) (Num n)) (sql_lex s)" if "number_text n" "hd n \<noteq> CHR ''-''" "bnd s" for n s
  proof -
    note n = number_chars [OF that(1,2)]
    obtain c u where w: "n = c # u" using n(1) by (cases n) auto
    have "takeWhile num_char (n @ s) = n" "dropWhile num_char (tl n @ s) = s"
      using that(3) n by (intro scan_word; auto simp: char_facts)+
    moreover have "isdigit c" "c \<noteq> CHR 0x00" "\<not> isspace c" "c \<noteq> quote" using n(2) w by (auto simp: char_facts)
    ultimately show ?thesis by (simp add: w del: takeWhile.simps)
  qed
  show "sql_lex (CHR ''-'' # s) = map_option ((#) (Sym (CHR ''-''))) (sql_lex s)" for s by (simp add: char_facts)
  show "sql_lex (c # s) = map_option ((#) (Sym c)) (sql_lex s)" if "c \<in> set '',()*+''" for c s
  proof -
    have "c \<noteq> CHR 0x00" "\<not> isspace c" "c \<noteq> quote" "\<not> isdigit c" "\<not> ident_char c" using that by (auto simp: char_facts)
    then show ?thesis by simp
  qed
  show "sql_lex (CHR ''='' # s) = map_option ((#) (Sym (CHR ''=''))) (sql_lex s)" for s by (simp add: char_facts)
  show "sql_lex '';'' = Some [Sym (CHR '';'')]" by (simp add: char_facts)
qed

declare sql_lex.simps(2) [simp del]

subsection \<open>Statements\<close>

datatype sqlval = VText string | VNum string

type_synonym sql_where = "LogicalOperator \<times> (string \<times> sqlval) list"

datatype stmt =
    SCreate string "(string \<times> ColumnType \<times> bool) list" "(string \<times> bool) list"
  | SInsert string "string list" "sqlval list"
  | SUpdate string "(string \<times> sqlval) list" sql_where
  | SDelete string sql_where
  | SDrop string
  | SSelect "string list" string sql_where "string list" OrderType int
  | SCount string sql_where
  | SSize "string list" string sql_where

text \<open>The values of a row and the conditions of a query, as the statements carry them.\<close>

definition val_of :: "ColumnValue \<Rightarrow> sqlval" where
  "val_of c = (if Type c = TEXT then VText (Value c) else VNum (Value c))"

definition assigns_of :: "Row \<Rightarrow> (string \<times> sqlval) list" where
  "assigns_of cs = map (\<lambda>c. (Name c, val_of c)) cs"

text \<open>With at most one condition the operator is not written.\<close>

definition where_op :: "Criteria \<Rightarrow> LogicalOperator \<Rightarrow> LogicalOperator" where
  "where_op cs op = (if length cs \<le> 1 then AND else op)"

definition where_of :: "Criteria \<Rightarrow> LogicalOperator \<Rightarrow> sql_where" where
  "where_of cs op = (where_op cs op, assigns_of cs)"

definition cols_of :: "Keys \<Rightarrow> (string \<times> ColumnType \<times> bool) list" where
  "cols_of ks = map (\<lambda>k. (Name k, Type k, has_attr k NOT_NULL)) ks"

definition pks_of :: "Keys \<Rightarrow> (string \<times> bool) list" where
  "pks_of ks = map (\<lambda>k. (Name k, has_attr k AUTO_INCREMENT)) (filter (\<lambda>k. has_attr k PRIMARY_KEY) ks)"

subsection \<open>The tokens of a statement\<close>

abbreviation comma :: tok where "comma \<equiv> Sym (CHR '','')"
abbreviation lparen :: tok where "lparen \<equiv> Sym (CHR ''('')"
abbreviation rparen :: tok where "rparen \<equiv> Sym (CHR '')'')"
abbreviation equals :: tok where "equals \<equiv> Sym (CHR ''='')"
abbreviation star :: tok where "star \<equiv> Sym (CHR ''*'')"
abbreviation plus_sign :: tok where "plus_sign \<equiv> Sym (CHR ''+'')"

abbreviation semicolon :: tok where "semicolon \<equiv> Sym (CHR '';'')"

fun join_list :: "'a list \<Rightarrow> 'a list list \<Rightarrow> 'a list" where
  "join_list sep [] = []"
| "join_list sep [x] = x"
| "join_list sep (x # y # xs) = x @ sep @ join_list sep (y # xs)"

fun val_tok :: "sqlval \<Rightarrow> tok" where
  "val_tok (VText s) = Str s"
| "val_tok (VNum n) = Num n"

definition assign_toks :: "string \<times> sqlval \<Rightarrow> tok list" where
  "assign_toks a = [Word (fst a), equals, val_tok (snd a)]"

definition names_toks :: "string list \<Rightarrow> tok list" where
  "names_toks ns = join_list [comma] (map (\<lambda>n. [Word n]) ns)"

fun where_toks :: "sql_where \<Rightarrow> tok list" where
  "where_toks (op, ws) =
     (if ws = [] then []
      else Word ''WHERE'' # join_list [Word (MAP_LOGOP_STRING op)] (map assign_toks ws))"

definition length_toks :: "string \<Rightarrow> tok list" where
  "length_toks n = [Word ''LENGTH'', lparen, Word n, rparen]"

definition order_toks :: "string list \<Rightarrow> OrderType \<Rightarrow> tok list" where
  "order_toks os d =
     (if os = [] then [] else [Word ''ORDER'', Word ''BY''] @ names_toks os @ [Word (MAP_ORDER_STRING d)])"

definition limit_toks :: "int \<Rightarrow> tok list" where
  "limit_toks n = (if n > 0 then [Word ''LIMIT'', Num (dec_int n)] else [])"

definition field_toks :: "string \<times> ColumnType \<times> bool \<Rightarrow> tok list" where
  "field_toks =
     (\<lambda>(n, ty, not_null). [Word n, Word (MAP_COL_TYPE_STRING ty)] @
        (if not_null then [Word ''NOT'', Word ''NULL''] else []))"

definition pk_toks :: "string \<times> bool \<Rightarrow> tok list" where
  "pk_toks = (\<lambda>(n, auto_inc). Word n # (if auto_inc then [Word ''AUTOINCREMENT''] else []))"

text \<open>The words of a statement in order, a signed numeral being one of them.\<close>

fun stmt_words :: "stmt \<Rightarrow> tok list" where
  "stmt_words (SCreate t cs pks) =
     [Word ''CREATE'', Word ''TABLE'', Word ''IF'', Word ''NOT'', Word ''EXISTS'', Word t, lparen] @
     join_list [comma] (map field_toks cs) @
     (if pks = [] then [] else
        [comma, Word ''PRIMARY'', Word ''KEY'', lparen] @ join_list [comma] (map pk_toks pks) @ [rparen]) @ [rparen]"
| "stmt_words (SInsert t ns vs) =
     [Word ''INSERT'', Word ''INTO'', Word t, lparen] @ names_toks ns @
     [rparen, Word ''VALUES'', lparen] @ join_list [comma] (map (\<lambda>v. [val_tok v]) vs) @ [rparen]"
| "stmt_words (SUpdate t as w) =
     [Word ''UPDATE'', Word t, Word ''SET''] @ join_list [comma] (map assign_toks as) @ where_toks w"
| "stmt_words (SDelete t w) = [Word ''DELETE'', Word ''FROM'', Word t] @ where_toks w"
| "stmt_words (SDrop t) = [Word ''DROP'', Word ''TABLE'', Word t]"
| "stmt_words (SSelect ns t w os d n) =
     Word ''SELECT'' # (if ns = [] then [star] else names_toks ns) @
     [Word ''FROM'', Word t] @ where_toks w @ order_toks os d @ limit_toks n"
| "stmt_words (SCount t w) =
     [Word ''SELECT'', Word ''COUNT'', lparen, star, rparen, Word ''FROM'', Word t] @ where_toks w"
| "stmt_words (SSize ns t w) =
     [Word ''SELECT'', Word ''SUM'', lparen] @ join_list [plus_sign] (map length_toks ns) @
     [rparen, Word ''AS'', Word ''total_bytes'', Word ''FROM'', Word t] @ where_toks w"

text \<open>The sign of a numeral is a token of its own.\<close>

fun split_sign :: "tok \<Rightarrow> tok list" where
  "split_sign (Num (c # n)) = (if c = CHR ''-'' then [Sym c, Num n] else [Num (c # n)])"
| "split_sign t = [t]"

definition spread :: "tok list \<Rightarrow> tok list" where
  "spread ts = concat (map split_sign ts)"

definition stmt_toks :: "stmt \<Rightarrow> tok list" where
  "stmt_toks s = spread (stmt_words s)"

text \<open>
  A statement that can be written: its names are identifiers, its numerals are numerals, its texts have no NUL
  byte, no list is empty that SQL does not allow to be, and what is not written has a fixed
  value (the operator of fewer than two conditions, the direction of no order, no limit).
\<close>

fun val_ok :: "sqlval \<Rightarrow> bool" where
  "val_ok (VText s) \<longleftrightarrow> CHR 0x00 \<notin> set s"
| "val_ok (VNum n) \<longleftrightarrow> number_text n"

definition assigns_ok :: "(string \<times> sqlval) list \<Rightarrow> bool" where
  "assigns_ok as \<longleftrightarrow> list_all (\<lambda>a. ident (fst a) \<and> val_ok (snd a)) as"

fun where_ok :: "sql_where \<Rightarrow> bool" where
  "where_ok (op, ws) \<longleftrightarrow> assigns_ok ws \<and> (length ws \<le> 1 \<longrightarrow> op = AND)"

fun stmt_ok :: "stmt \<Rightarrow> bool" where
  "stmt_ok (SCreate t cs pks) \<longleftrightarrow>
     ident t \<and> cs \<noteq> [] \<and> list_all (\<lambda>c. ident (fst c)) cs \<and> list_all (\<lambda>p. ident (fst p)) pks"
| "stmt_ok (SInsert t ns vs) \<longleftrightarrow>
     ident t \<and> ns \<noteq> [] \<and> length vs = length ns \<and> list_all ident ns \<and> list_all val_ok vs"
| "stmt_ok (SUpdate t as w) \<longleftrightarrow> ident t \<and> as \<noteq> [] \<and> assigns_ok as \<and> where_ok w"
| "stmt_ok (SDelete t w) \<longleftrightarrow> ident t \<and> where_ok w"
| "stmt_ok (SDrop t) \<longleftrightarrow> ident t"
| "stmt_ok (SSelect ns t w os d n) \<longleftrightarrow>
     (ident t \<or> t = ''sqlite_master'') \<and> list_all ident ns \<and> where_ok w \<and> list_all ident os \<and>
     (os = [] \<longrightarrow> d = ASC) \<and> 0 \<le> n"
| "stmt_ok (SCount t w) \<longleftrightarrow> ident t \<and> where_ok w"
| "stmt_ok (SSize ns t w) \<longleftrightarrow> ident t \<and> ns \<noteq> [] \<and> list_all ident ns \<and> where_ok w"

text \<open>The text \<open>q\<close> spells the statement \<open>s\<close>: its tokens are those of \<open>s\<close> and nothing follows but perhaps a semicolon.\<close>

definition spells :: "(string \<Rightarrow> tok list option) \<Rightarrow> string \<Rightarrow> stmt \<Rightarrow> bool" where
  "spells scan q s \<longleftrightarrow>
     stmt_ok s \<and> (scan q = Some (stmt_toks s) \<or> scan q = Some (stmt_toks s @ [semicolon]))"

subsection \<open>A statement is determined by its tokens\<close>

fun tok_val :: "tok \<Rightarrow> sqlval option" where
  "tok_val (Num w) = Some (VNum w)"
| "tok_val (Str s) = Some (VText s)"
| "tok_val _ = None"

fun p_names :: "tok list \<Rightarrow> string list \<times> tok list" where
  "p_names (Word n # ts) =
     (case ts of t # ts' \<Rightarrow> if t = comma then apfst ((#) n) (p_names ts') else ([n], ts) | [] \<Rightarrow> ([n], []))"
| "p_names ts = ([], ts)"

fun p_vals :: "tok list \<Rightarrow> sqlval list \<times> tok list" where
  "p_vals (v # ts) =
     (case tok_val v of
        None \<Rightarrow> ([], v # ts)
      | Some x \<Rightarrow>
          (case ts of t # ts' \<Rightarrow> if t = comma then apfst ((#) x) (p_vals ts') else ([x], ts) | [] \<Rightarrow> ([x], [])))"
| "p_vals [] = ([], [])"

fun p_assigns :: "tok list \<Rightarrow> (string \<times> sqlval) list \<times> tok list" where
  "p_assigns (Word n # e # v # ts) =
     (case (e = equals, tok_val v) of
        (True, Some x) \<Rightarrow>
          (case ts of
             t # ts' \<Rightarrow> if t = comma then apfst ((#) (n, x)) (p_assigns ts') else ([(n, x)], ts)
           | [] \<Rightarrow> ([(n, x)], []))
      | _ \<Rightarrow> ([], Word n # e # v # ts))"
| "p_assigns ts = ([], ts)"

text \<open>Conditions, each but the first with the operator before it.\<close>

fun logop :: "tok \<Rightarrow> LogicalOperator option" where
  "logop (Word w) = (if w = ''AND'' then Some AND else if w = ''OR'' then Some OR else None)"
| "logop _ = None"

fun p_conds :: "tok list \<Rightarrow> (string \<times> sqlval) list \<times> LogicalOperator list \<times> tok list" where
  "p_conds (Word n # e # v # ts) =
     (case (e = equals, tok_val v) of
        (True, Some x) \<Rightarrow>
          (case ts of
             t # ts' \<Rightarrow>
               (case logop t of
                  Some op \<Rightarrow> (let (cs, ops, r) = p_conds ts' in ((n, x) # cs, op # ops, r))
                | None \<Rightarrow> ([(n, x)], [], ts))
           | [] \<Rightarrow> ([(n, x)], [], []))
      | _ \<Rightarrow> ([], [], Word n # e # v # ts))"
| "p_conds ts = ([], [], ts)"

fun p_where :: "tok list \<Rightarrow> sql_where \<times> tok list" where
  "p_where (Word w # ts) =
     (if w = ''WHERE'' then
        (let (cs, ops, r) = p_conds ts in ((case ops of [] \<Rightarrow> AND | op # _ \<Rightarrow> op, cs), r))
      else ((AND, []), Word w # ts))"
| "p_where ts = ((AND, []), ts)"

fun p_order :: "tok list \<Rightarrow> (string list \<times> OrderType) \<times> tok list" where
  "p_order (Word o1 # Word b # ts) =
     (if o1 = ''ORDER'' \<and> b = ''BY'' then
        (case p_names ts of
           (ns, Word d # r) \<Rightarrow> ((ns, if d = ''DESC'' then DESC else ASC), r)
         | (ns, r) \<Rightarrow> ((ns, ASC), r))
      else (([], ASC), Word o1 # Word b # ts))"
| "p_order ts = (([], ASC), ts)"

fun p_limit :: "tok list \<Rightarrow> int" where
  "p_limit [Word l, Num n] = (if l = ''LIMIT'' then int (val_dec n) else 0)"
| "p_limit ts = 0"

fun p_lengths :: "tok list \<Rightarrow> string list \<times> tok list" where
  "p_lengths (Word l # p # Word n # q # ts) =
     (if l = ''LENGTH'' \<and> p = lparen \<and> q = rparen then
        (case ts of t # ts' \<Rightarrow> if t = plus_sign then apfst ((#) n) (p_lengths ts') else ([n], ts) | [] \<Rightarrow> ([n], []))
      else ([], Word l # p # Word n # q # ts))"
| "p_lengths ts = ([], ts)"

fun type_of_name :: "string \<Rightarrow> ColumnType" where
  "type_of_name s = (if s = ''INTEGER'' then INTEGER else if s = ''REAL'' then REAL else TEXT)"

text \<open>The columns, up to the primary key or the end, and the columns of the primary key.\<close>

fun p_cols :: "tok list \<Rightarrow> (string \<times> ColumnType \<times> bool) list \<times> tok list" where
  "p_cols (Word n # Word ty # Word a # Word b # t # ts) =
     (if t = comma then apfst ((#) (n, type_of_name ty, True)) (p_cols ts)
      else ([(n, type_of_name ty, True)], t # ts))"
| "p_cols (Word n # Word ty # Sym c # ts) =
     (if n = ''PRIMARY'' then ([], Word n # Word ty # Sym c # ts)
      else if Sym c = comma then apfst ((#) (n, type_of_name ty, False)) (p_cols ts)
      else ([(n, type_of_name ty, False)], Sym c # ts))"
| "p_cols ts = ([], ts)"

fun p_pks :: "tok list \<Rightarrow> (string \<times> bool) list" where
  "p_pks (Word n # Word a # t # ts) = (if t = comma then (n, True) # p_pks ts else [(n, True)])"
| "p_pks (Word n # Sym c # ts) = (if Sym c = comma then (n, False) # p_pks ts else [(n, False)])"
| "p_pks ts = []"

definition p_create :: "string \<Rightarrow> tok list \<Rightarrow> stmt" where
  "p_create t ts =
     (let (cs, r) = p_cols ts in
      SCreate t cs (case r of Word _ # Word _ # Sym _ # r' \<Rightarrow> p_pks r' | _ \<Rightarrow> []))"

definition p_insert :: "string \<Rightarrow> tok list \<Rightarrow> stmt option" where
  "p_insert t ts =
     (case p_names ts of
        (ns, Sym _ # Word _ # Sym _ # r) \<Rightarrow> Some (SInsert t ns (fst (p_vals r))) | _ \<Rightarrow> None)"

definition p_tail :: "string list \<Rightarrow> tok list \<Rightarrow> stmt option" where
  "p_tail ns ts =
     (case ts of
        Word _ # Word t # r \<Rightarrow>
          (let (w, r1) = p_where r; ((os, d), r2) = p_order r1 in Some (SSelect ns t w os d (p_limit r2)))
      | _ \<Rightarrow> None)"

definition p_select :: "tok list \<Rightarrow> stmt option" where
  "p_select ts =
     (case ts of
        Sym _ # r \<Rightarrow> p_tail [] r
      | Word f # p # r \<Rightarrow>
          if p = lparen \<and> f = ''COUNT'' then
            (case r of _ # _ # _ # Word t # r1 \<Rightarrow> Some (SCount t (fst (p_where r1))) | _ \<Rightarrow> None)
          else if p = lparen \<and> f = ''SUM'' then
            (case p_lengths r of
               (ns, _ # _ # _ # _ # Word t # r1) \<Rightarrow> Some (SSize ns t (fst (p_where r1))) | _ \<Rightarrow> None)
          else (case p_names ts of (ns, r1) \<Rightarrow> p_tail ns r1)
      | _ \<Rightarrow> None)"

text \<open>The inverse of \<open>spread\<close>, and a statement by its first word.\<close>

fun merge_sign :: "tok list \<Rightarrow> tok list" where
  "merge_sign (Sym c # Num n # ts) =
     (if c = CHR ''-'' then Num (c # n) # merge_sign ts else Sym c # merge_sign (Num n # ts))"
| "merge_sign (t # ts) = t # merge_sign ts"
| "merge_sign [] = []"

definition sql_parse :: "tok list \<Rightarrow> stmt option" where
  "sql_parse ts =
     (case merge_sign ts of
        Word v # r \<Rightarrow>
          if v = ''SELECT'' then p_select r
          else if v = ''CREATE'' then
            (case r of _ # _ # _ # _ # Word t # _ # r' \<Rightarrow> Some (p_create t r') | _ \<Rightarrow> None)
          else if v = ''INSERT'' then (case r of _ # Word t # _ # r' \<Rightarrow> p_insert t r' | _ \<Rightarrow> None)
          else if v = ''UPDATE'' then
            (case r of
               Word t # _ # r' \<Rightarrow>
                 (let (as, r1) = p_assigns r' in Some (SUpdate t as (fst (p_where r1)))) | _ \<Rightarrow> None)
          else if v = ''DELETE'' then
            (case r of _ # Word t # r' \<Rightarrow> Some (SDelete t (fst (p_where r'))) | _ \<Rightarrow> None)
          else if v = ''DROP'' then (case r of [_, Word t] \<Rightarrow> Some (SDrop t) | _ \<Rightarrow> None)
          else None
      | _ \<Rightarrow> None)"


definition no_more :: "tok list \<Rightarrow> bool" where
  "no_more rest \<longleftrightarrow> (rest = [] \<or> hd rest \<noteq> comma \<and> hd rest \<noteq> plus_sign \<and> logop (hd rest) = None)"

lemma no_more_simps [simp]:
  "no_more []" "no_more (rparen # r)" "no_more (Word w # r) \<longleftrightarrow> w \<noteq> ''AND'' \<and> w \<noteq> ''OR''"
  by (simp_all add: no_more_def)

lemma p_names_toks:
  "ns \<noteq> [] \<Longrightarrow> no_more rest \<Longrightarrow> p_names (names_toks ns @ rest) = (ns, rest)"
  unfolding names_toks_def
  by (induction ns rule: induct_list012) (auto simp: no_more_def neq_Nil_conv split: list.splits)

lemma tok_val_tok [simp]: "tok_val (val_tok v) = Some v"
  by (cases v) simp_all

lemma p_vals_toks:
  "vs \<noteq> [] \<Longrightarrow> no_more rest \<Longrightarrow>
   p_vals (join_list [comma] (map (\<lambda>v. [val_tok v]) vs) @ rest) = (vs, rest)"
  by (induction vs rule: induct_list012) (auto simp: no_more_def neq_Nil_conv split: list.splits)

lemma p_assigns_toks:
  "as \<noteq> [] \<Longrightarrow> no_more rest \<Longrightarrow> p_assigns (join_list [comma] (map assign_toks as) @ rest) = (as, rest)"
  by (induction as rule: induct_list012)
     (auto simp: no_more_def neq_Nil_conv assign_toks_def split: list.splits)

lemma logop_word [simp]: "logop (Word (MAP_LOGOP_STRING op)) = Some op"
  by (cases op) simp_all

lemma p_conds_toks:
  "ws \<noteq> [] \<Longrightarrow> no_more rest \<Longrightarrow>
   p_conds (join_list [Word (MAP_LOGOP_STRING op)] (map assign_toks ws) @ rest) =
     (ws, replicate (length ws - 1) op, rest)"
proof (induction ws rule: induct_list012)
  case (3 c d ws)
  then have "p_conds (join_list [Word (MAP_LOGOP_STRING op)] (map assign_toks (d # ws)) @ rest) =
    (d # ws, replicate (length ws) op, rest)" by simp
  then show ?case by (simp add: assign_toks_def [of c] del: logop.simps)
qed (auto simp: no_more_def neq_Nil_conv assign_toks_def split: list.splits)

lemma p_where_toks:
  assumes "no_more rest" "p_where rest = ((AND, []), rest)" "where_ok w"
  shows "p_where (where_toks w @ rest) = (w, rest)"
proof -
  obtain op ws where w: "w = (op, ws)" by fastforce
  show ?thesis
  proof (cases "ws = []")
    case True
    then show ?thesis using assms by (simp add: w)
  next
    case False
    then have "(case replicate (length ws - 1) op of [] \<Rightarrow> AND | o1 # _ \<Rightarrow> o1) = op"
      using assms(3) by (cases ws; cases "tl ws") (simp_all add: w)
    then show ?thesis using False p_conds_toks [OF False assms(1), of op] by (simp add: w)
  qed
qed

lemma p_where_end: "where_ok w \<Longrightarrow> fst (p_where (where_toks w)) = w"
  using p_where_toks [of "[]" w] by simp

lemma type_of_name_string [simp]: "type_of_name (MAP_COL_TYPE_STRING ty) = ty"
  by (cases ty) simp_all

declare type_of_name.simps [simp del]

lemma ident_keyword: "ident s \<Longrightarrow> map tolower k \<in> set sql_keywords \<Longrightarrow> s \<noteq> k"
  by (auto simp: ident_def)

lemma p_cols_field:
  "ident (fst k) \<Longrightarrow> p_cols (field_toks k @ Sym c # ts) =
     (if Sym c = comma then apfst ((#) k) (p_cols ts) else ([k], Sym c # ts))"
proof -
  have "map tolower ''PRIMARY'' \<in> set sql_keywords" by code_simp
  then show "ident (fst k) \<Longrightarrow> ?thesis"
    using ident_keyword [of "fst k" "''PRIMARY''"] by (cases k) (simp add: field_toks_def)
qed

lemma p_cols_toks:
  assumes "Sym c = comma \<Longrightarrow> p_cols ts = ([], ts)"
  shows "ks \<noteq> [] \<Longrightarrow> list_all (\<lambda>k. ident (fst k)) ks \<Longrightarrow>
    p_cols (join_list [comma] (map field_toks ks) @ Sym c # ts) = (ks, if Sym c = comma then ts else Sym c # ts)"
  using assms by (induction ks rule: induct_list012) (simp_all add: p_cols_field)

lemma p_pks_field: "p_pks (pk_toks k @ Sym c # ts) = (if Sym c = comma then k # p_pks ts else [k])"
  by (cases k) (simp add: pk_toks_def)

lemma p_pks_toks: "ks \<noteq> [] \<Longrightarrow> p_pks (join_list [comma] (map pk_toks ks) @ rparen # r) = ks"
  by (induction ks rule: induct_list012) (simp_all add: p_pks_field)

lemma p_create_toks:
  assumes "cs \<noteq> []" "list_all (\<lambda>k. ident (fst k)) cs"
  shows "p_create t (join_list [comma] (map field_toks cs) @
    (if pks = [] then [] else
      [comma, Word ''PRIMARY'', Word ''KEY'', lparen] @ join_list [comma] (map pk_toks pks) @ [rparen]) @ [rparen]) = SCreate t cs pks"
  using p_cols_toks [OF _ assms, of "CHR '')''" "[]"] p_pks_toks [of pks "[rparen]"]
    p_cols_toks [OF _ assms, of "CHR '',''" "[Word ''PRIMARY'', Word ''KEY'', lparen] @ join_list [comma] (map pk_toks pks) @ [rparen, rparen]"]
  by (cases "pks = []") (simp_all add: p_create_def)

lemma p_lengths_toks:
  "ns \<noteq> [] \<Longrightarrow> p_lengths (join_list [plus_sign] (map length_toks ns) @ rparen # r) = (ns, rparen # r)"
  by (induction ns rule: induct_list012) (simp_all add: length_toks_def)

lemma p_order_toks:
  "(os = [] \<longrightarrow> d = ASC) \<Longrightarrow> p_order (order_toks os d @ limit_toks n) = ((os, d), limit_toks n)"
proof (cases "os = []")
  case True
  then show "(os = [] \<longrightarrow> d = ASC) \<Longrightarrow> ?thesis" by (simp add: order_toks_def limit_toks_def)
next
  case False
  then show ?thesis
    using p_names_toks [of os "Word (MAP_ORDER_STRING d) # limit_toks n"]
    by (cases d) (simp_all add: order_toks_def)
qed

lemma p_limit_toks: "0 \<le> n \<Longrightarrow> p_limit (limit_toks n) = n"
  by (simp add: limit_toks_def dec_int_def)

lemma p_tail_toks:
  assumes "where_ok w" "os = [] \<longrightarrow> d = ASC" "0 \<le> n"
  shows "p_tail ns ([Word ''FROM'', Word t] @ where_toks w @ order_toks os d @ limit_toks n) = Some (SSelect ns t w os d n)"
proof -
  let ?r = "order_toks os d @ limit_toks n"
  have "no_more ?r" "p_where ?r = ((AND, []), ?r)" by (simp_all add: order_toks_def limit_toks_def)
  then show ?thesis
    using p_where_toks [of ?r w] assms by (simp add: p_tail_def p_order_toks p_limit_toks)
qed

lemma p_select_names:
  "ns \<noteq> [] \<Longrightarrow> p_select (names_toks ns @ Word w # r) = (case p_names (names_toks ns @ Word w # r) of (ns, r1) \<Rightarrow> p_tail ns r1)"
  by (cases ns; cases "tl ns") (simp_all add: p_select_def names_toks_def)

lemma merge_sign_skip: "x \<noteq> Sym (CHR ''-'') \<Longrightarrow> merge_sign (x # ys) = x # merge_sign ys"
  by (cases "x # ys" rule: merge_sign.cases) auto

lemma merge_spread: "list_all (\<lambda>t. t \<noteq> Sym (CHR ''-'')) ts \<Longrightarrow> merge_sign (spread ts) = ts"
proof (induction ts)
  case (Cons t ts)
  show ?case
  proof (cases "\<exists>n. t = Num (CHR ''-'' # n)")
    case True
    with Cons show ?thesis by (auto simp: spread_def)
  next
    case False
    then have "split_sign t = [t]" by (cases t rule: split_sign.cases) auto
    with Cons merge_sign_skip [of t "spread ts"] show ?thesis by (simp add: spread_def)
  qed
qed (simp add: spread_def)

definition used_sym :: "tok \<Rightarrow> bool" where
  "used_sym t = (case t of Sym c \<Rightarrow> c \<in> set '',()=*+'' | _ \<Rightarrow> True)"

lemma used_sym_join:
  "list_all used_sym sep \<Longrightarrow> list_all (list_all used_sym) xs \<Longrightarrow> list_all used_sym (join_list sep xs)"
  by (induction sep xs rule: join_list.induct) simp_all

lemma used_sym_val [simp]: "used_sym (val_tok v)"
  by (cases v) (simp_all add: used_sym_def)

lemma used_sym_simps [simp]:
  "used_sym (Word w)" "used_sym (Num w)" "used_sym (Str w)" "used_sym (Sym c) \<longleftrightarrow> c \<in> set '',()=*+''"
  "list_all used_sym (assign_toks a)" "list_all used_sym (field_toks f)"
  "list_all used_sym (pk_toks k)" "list_all used_sym (length_toks n)"
proof -
  show s: "used_sym (Word w)" "used_sym (Num w)" "used_sym (Str w)" "used_sym (Sym c) \<longleftrightarrow> c \<in> set '',()=*+''" for w c
    by (simp_all add: used_sym_def)
  show "list_all used_sym (assign_toks a)" "list_all used_sym (field_toks f)"
    "list_all used_sym (pk_toks k)" "list_all used_sym (length_toks n)"
    by (simp_all add: s assign_toks_def field_toks_def pk_toks_def length_toks_def split: prod.split)
qed

lemma used_sym_lists [simp]:
  "list_all used_sym (names_toks ns)" "list_all used_sym (join_list [comma] (map assign_toks as))"
  "list_all used_sym (join_list [comma] (map (\<lambda>v. [val_tok v]) vs))" "list_all used_sym (join_list [comma] (map field_toks cs))"
  "list_all used_sym (join_list [comma] (map pk_toks pks))" "list_all used_sym (join_list [plus_sign] (map length_toks ns))"
  "list_all used_sym (join_list [Word w] (map assign_toks as))"
  unfolding names_toks_def by (rule used_sym_join; simp add: list.pred_map comp_def list.pred_True)+

lemma used_sym_words: "list_all used_sym (stmt_words s)"
proof -
  have "list_all used_sym (where_toks w)" for w by (cases w) simp
  then show ?thesis by (cases s) (simp_all add: order_toks_def limit_toks_def)
qed

lemma parse_toks:
  assumes "stmt_ok s"
  shows "sql_parse (stmt_toks s) = Some s"
proof -
  have m: "merge_sign (stmt_toks s) = stmt_words s" 
    unfolding stmt_toks_def using used_sym_words [of s] by (intro merge_spread) (auto simp: list_all_iff)
  show ?thesis
  proof (cases s)
    case (SCreate t cs pks)
    with assms m show ?thesis using p_create_toks [of cs t pks] by (simp add: sql_parse_def)
  next
    case (SInsert t ns vs)
    then have "ns \<noteq> []" "vs \<noteq> []" using assms by auto
    with SInsert m show ?thesis using p_names_toks [of ns] p_vals_toks [of vs "[rparen]"]
      by (simp add: sql_parse_def p_insert_def)
  next
    case (SUpdate t as w)
    have "no_more (where_toks w)" by (cases w) simp
    with SUpdate assms m show ?thesis using p_assigns_toks [of as "where_toks w"] by (simp add: sql_parse_def p_where_end)
  next
    case (SSelect ns t w os d n)
    let ?ts = "[Word ''FROM'', Word t] @ where_toks w @ order_toks os d @ limit_toks n"
    have "p_select ((if ns = [] then [star] else names_toks ns) @ ?ts) = p_tail ns ?ts"
      using p_names_toks [of ns ?ts] by (simp add: p_select_names) (simp add: p_select_def)
    with SSelect assms m p_tail_toks [of w os d n ns t] show ?thesis by (simp add: sql_parse_def)
  next
    case (SSize ns t w)
    with assms m show ?thesis using p_lengths_toks [of ns] by (simp add: sql_parse_def p_select_def p_where_end)
  qed (use assms m in \<open>simp_all add: sql_parse_def p_select_def p_where_end\<close>)
qed

lemma stmt_toks_inj: "stmt_ok s \<Longrightarrow> stmt_ok s' \<Longrightarrow> stmt_toks s = stmt_toks s' \<Longrightarrow> s = s'"
  using parse_toks by (metis option.inject)

lemma no_semicolon: "semicolon \<notin> set (stmt_toks s)"
proof -
  have "semicolon \<in> set (spread ts) \<longleftrightarrow> semicolon \<in> set ts" for ts
  proof (induction ts)
    case (Cons t ts)
    then show ?case by (cases t rule: split_sign.cases) (simp_all add: spread_def)
  qed (simp add: spread_def)
  then show ?thesis using used_sym_words [of s] by (auto simp: stmt_toks_def list_all_iff)
qed

text \<open>A text spells at most one statement.\<close>

lemma spells_unique:
  assumes "spells scan q s" "spells scan q s'"
  shows "s = s'"
proof -
  have semi: "semicolon \<in> set (stmt_toks a @ [semicolon])" for a by simp
  have "stmt_toks s = stmt_toks s'"
    using assms no_semicolon [of s] no_semicolon [of s'] semi [of s] semi [of s']
    unfolding spells_def by (metis append1_eq_conv option.inject)
  then show ?thesis using stmt_toks_inj assms by (simp add: spells_def)
qed

subsection \<open>The tokens of the texts\<close>

definition opt_app :: "'a list option \<Rightarrow> 'a list option \<Rightarrow> 'a list option" where
  "opt_app a b = (case a of None \<Rightarrow> None | Some x \<Rightarrow> map_option ((@) x) b)"

lemma opt_app_simps [simp]:
  "opt_app None b = None" "opt_app (Some x) (Some y) = Some (x @ y)" "opt_app a None = None"
  "opt_app (Some []) b = b"
  by (simp_all add: opt_app_def map_option_idI split: option.splits)

lemma opt_app_assoc: "opt_app (opt_app a b) c = opt_app a (opt_app b c)"
  by (cases a; cases b; cases c) simp_all

lemma opt_app_one: "opt_app (Some [x]) b = map_option ((#) x) b"
  by (cases b) simp_all

lemma opt_app_Some_Some [simp]: "opt_app (Some x) (opt_app (Some y) b) = opt_app (Some (x @ y)) b"
  by (cases b) simp_all

fun join_toks :: "tok list \<Rightarrow> tok list option list \<Rightarrow> tok list option" where
  "join_toks sep [] = Some []"
| "join_toks sep [x] = x"
| "join_toks sep (x # y # xs) = opt_app x (opt_app (Some sep) (join_toks sep (y # xs)))"

lemma join_toks_list: "join_toks st xs = (if None \<in> set xs then None else Some (join_list st (map the xs)))"
  by (induction st xs rule: join_toks.induct) (auto simp: opt_app_def split: option.splits)

lemma spread_simps [simp]:
  "spread [] = []" "spread (Word w # ts) = Word w # spread ts" "spread (Str w # ts) = Str w # spread ts"
  "spread (Sym c # ts) = Sym c # spread ts" "spread (xs @ ys) = spread xs @ spread ys"
  by (simp_all add: spread_def)

lemma spread_join: "spread (join_list [sep] xs) = join_list (split_sign sep) (map spread xs)"
  by (induction "[sep]" xs rule: join_list.induct) (simp_all, simp add: spread_def)

lemma spread_lists [simp]:
  "spread (names_toks ns) = names_toks ns" "spread (field_toks f) = field_toks f" "spread (pk_toks k) = pk_toks k"
  "spread (length_toks n) = length_toks n" "spread (order_toks os d) = order_toks os d"
proof -
  show n: "spread (names_toks ns) = names_toks ns" for ns by (simp add: names_toks_def spread_join o_def)
  show "spread (order_toks os d) = order_toks os d" by (simp add: order_toks_def n)
qed (simp_all add: field_toks_def pk_toks_def length_toks_def split: prod.split)

text \<open>
  The literal of a column, with the type that the code goes by. \<open>texts_ok\<close>: no text has a NUL byte.
\<close>

definition value_text_ok :: "ColumnValue \<Rightarrow> bool" where
  "value_text_ok c \<longleftrightarrow> Type c = TEXT \<or> number_text (Value c)"

definition texts_ok :: "ColumnValue list \<Rightarrow> bool" where
  "texts_ok cs \<longleftrightarrow> list_all (\<lambda>c. Type c = TEXT \<longrightarrow> CHR 0x00 \<notin> set (Value c)) cs"

definition names_ok :: "ColumnValue list \<Rightarrow> bool" where
  "names_ok cs \<longleftrightarrow> list_all (\<lambda>c. ident (Name c) \<and> value_text_ok c) cs"

definition literal_toks :: "ColumnValue \<Rightarrow> tok list option" where
  "literal_toks c =
     (if Type c = TEXT \<and> CHR 0x00 \<in> set (Value c) then None else Some (spread [val_tok (val_of c)]))"

lemma texts_ok_simps [simp]: "texts_ok []" "texts_ok (xs @ ys) \<longleftrightarrow> texts_ok xs \<and> texts_ok ys"
  by (simp_all add: texts_ok_def)

lemma texts_ok_toks: "texts_ok cs \<longleftrightarrow> list_all (\<lambda>c. literal_toks c = Some (spread [val_tok (val_of c)])) cs"
  by (auto simp: texts_ok_def literal_toks_def list_all_iff)

lemma texts_bad: "None \<in> literal_toks ` set cs \<longleftrightarrow> \<not> texts_ok cs"
  by (auto simp: texts_ok_def literal_toks_def list_all_iff image_iff)

lemma lex_literal_escape:
  assumes "rest = [] \<or> hd rest \<noteq> quote"
  shows "lex_literal (EscapeSingleQuotes v @ quote # rest) = (if CHR 0x00 \<in> set v then None else Some (v, rest))"
  using assms
proof (induction v)
  case Nil
  then show ?case by (cases rest) (auto simp: quote_def)
next
  case (Cons c v)
  then show ?case by (auto simp: quote_def)
qed

lemma number_sign:
  assumes "number_text s"
  shows "s \<noteq> []" "hd s = CHR ''-'' \<Longrightarrow> number_text (tl s) \<and> hd (tl s) \<noteq> CHR ''-'' \<and> tl s \<noteq> [] \<and> isdigit (hd (tl s))"
proof -
  show "s \<noteq> []" using assms by (auto simp: number_text_def)
  then obtain c u where s: "s = c # u" by (cases s) auto
  assume "hd s = CHR ''-''"
  with s have c: "c = CHR ''-''" by simp
  with assms s have u: "takeWhile isdigit u \<noteq> []" by (simp add: number_text_def Let_def)
  then obtain d v where d: "u = d # v" "isdigit d" by (cases u) (auto split: if_splits)
  then have "d \<noteq> CHR ''-''" by (auto simp: isdigit_def)
  with assms s c d show "number_text (tl s) \<and> hd (tl s) \<noteq> CHR ''-'' \<and> tl s \<noteq> [] \<and> isdigit (hd (tl s))"
    by (simp add: number_text_def)
qed

lemma ident_word: "ident s \<Longrightarrow> is_word s"
  by (simp add: ident_def is_word_def)

lemma bnd_simps [simp]:
  "bnd []" "bnd (CHR '' '' # r)" "bnd (CHR '','' # r)" "bnd (CHR '')'' # r)" "bnd (CHR ''('' # r)"
  "bnd (CHR ''='' # r)" "bnd (CHR '';'' # r)"
  by (simp_all add: bnd_def)

context sql_lexer
begin

lemma scan_name: "is_word w \<Longrightarrow> bnd rest \<Longrightarrow> scan (w @ rest) = opt_app (Some [Word w]) (scan rest)"
  by (simp add: lex_word opt_app_one)

lemma scan_ident: "ident s \<Longrightarrow> bnd rest \<Longrightarrow> scan (s @ rest) = opt_app (Some [Word s]) (scan rest)"
  using scan_name ident_word by blast

lemma scan_text:
  assumes "bnd rest"
  shows "scan (quote # EscapeSingleQuotes v @ quote # rest) =
    opt_app (if CHR 0x00 \<in> set v then None else Some [Str v]) (scan rest)"
proof -
  have "rest = [] \<or> hd rest \<noteq> quote" using assms by (auto simp: bnd_def quote_def)
  from lex_literal_escape [OF this, of v] show ?thesis by (simp add: lex_quote opt_app_one)
qed

lemma scan_number:
  assumes "number_text n" "bnd rest"
  shows "scan (n @ rest) = opt_app (Some (spread [Num n])) (scan rest)"
proof (cases "hd n = CHR ''-''")
  case False
  then have "spread [Num n] = [Num n]" using number_sign(1) [OF assms(1)] by (cases n) (simp_all add: spread_def)
  with lex_number [OF assms(1) False assms(2)] show ?thesis by (simp add: opt_app_one)
next
  case True
  note u = number_sign(2) [OF assms(1) True]
  have n: "n = CHR ''-'' # tl n" using True number_sign(1) [OF assms(1)] by (cases n) auto
  have "scan (n @ rest) = map_option ((#) (Sym (CHR ''-''))) (scan (tl n @ rest))"
    using lex_minus [of "tl n @ rest"] u n by (metis append_Cons append_is_Nil_conv hd_append)
  also have "scan (tl n @ rest) = map_option ((#) (Num (tl n))) (scan rest)" using u assms(2) by (intro lex_number) auto
  also have "map_option ((#) (Sym (CHR ''-''))) (map_option ((#) (Num (tl n))) (scan rest)) =
      opt_app (Some [Sym (CHR ''-''), Num (tl n)]) (scan rest)" by (cases "scan rest") simp_all
  also have "[Sym (CHR ''-''), Num (tl n)] = spread [Num n]" by (subst n) (simp add: spread_def)
  finally show ?thesis .
qed

lemma scan_literal:
  assumes "value_text_ok c" "bnd rest"
  shows "scan (literal c @ rest) = opt_app (literal_toks c) (scan rest)"
  using scan_text [OF assms(2), of "Value c"] scan_number [of "Value c" rest] assms
  by (cases "Type c = TEXT") (simp_all add: literal_def literal_toks_def val_of_def value_text_ok_def)

lemma scan_join:
  assumes item: "\<And>x rest. x \<in> set xs \<Longrightarrow> bnd rest \<Longrightarrow> scan (f x @ rest) = opt_app (g x) (scan rest)"
    and sep: "\<And>r. scan (sep @ r) = opt_app (Some st) (scan r)" "\<And>r. bnd (sep @ r)"
    and rest: "bnd rest" and ne: "xs \<noteq> []"
  shows "scan (join sep (map f xs) @ rest) = opt_app (join_toks st (map g xs)) (scan rest)"
  using item ne
proof (induction xs)
  case (Cons x xs)
  show ?case
  proof (cases xs)
    case Nil
    with Cons.prems(1) [of x] rest show ?thesis by simp
  next
    case (Cons y ys)
    have IH: "scan (join sep (map f xs) @ rest) = opt_app (join_toks st (map g xs)) (scan rest)"
      using Cons.IH Cons.prems(1) Cons by simp
    have "scan (f x @ sep @ join sep (map f xs) @ rest) =
        opt_app (g x) (opt_app (Some st) (scan (join sep (map f xs) @ rest)))"
      using Cons.prems(1) [of x "sep @ join sep (map f xs) @ rest"] sep by simp
    then show ?thesis using Cons IH by (simp add: opt_app_assoc)
  qed
qed simp

lemma scan_symbols [simp]:
  "scan (CHR '' '' # r) = scan r"
  "scan (CHR '','' # r) = opt_app (Some [comma]) (scan r)"
  "scan (CHR ''('' # r) = opt_app (Some [lparen]) (scan r)"
  "scan (CHR '')'' # r) = opt_app (Some [rparen]) (scan r)"
  "scan (CHR ''*'' # r) = opt_app (Some [star]) (scan r)"
  "scan (CHR ''+'' # r) = opt_app (Some [plus_sign]) (scan r)"
  "scan [] = Some []"
  by (simp_all add: lex_blank lex_symbol lex_end opt_app_one)

lemma scan_comma: "scan ('', '' @ r) = opt_app (Some [comma]) (scan r)" "bnd ('', '' @ r)"
  by simp_all

lemma scan_names:
  assumes "ns \<noteq> []" "list_all ident ns" "bnd rest"
  shows "scan (join '', '' ns @ rest) = opt_app (Some (names_toks ns)) (scan rest)"
proof -
  have "scan (join '', '' (map (\<lambda>n. n) ns) @ rest) =
      opt_app (join_toks [comma] (map (\<lambda>n. Some [Word n]) ns)) (scan rest)"
    using assms by (intro scan_join scan_comma) (auto simp: scan_ident list_all_iff)
  then show ?thesis by (simp add: join_toks_list names_toks_def image_iff o_def)
qed

lemma scan_values:
  assumes "cs \<noteq> []" "names_ok cs" "bnd rest"
  shows "scan (join '', '' (map literal cs) @ rest) =
    (if texts_ok cs then opt_app (Some (spread (join_list [comma] (map (\<lambda>v. [val_tok v]) (map val_of cs))))) (scan rest)
     else None)"
proof -
  have "scan (join '', '' (map literal cs) @ rest) = opt_app (join_toks [comma] (map literal_toks cs)) (scan rest)"
    using assms by (intro scan_join scan_comma) (auto simp: scan_literal list_all_iff names_ok_def)
  moreover have "map the (map literal_toks cs) = map spread (map (\<lambda>v. [val_tok v]) (map val_of cs))" if "texts_ok cs"
    using that unfolding texts_ok_toks by (auto simp: list_all_iff)
  ultimately show ?thesis
    using texts_bad [of cs] by (simp add: join_toks_list spread_join del: map_map)
qed

lemma scan_assignment:
  assumes "ident (Name c)" "value_text_ok c" "bnd rest"
  shows "scan (assignment c @ rest) = opt_app (opt_app (Some [Word (Name c), equals]) (literal_toks c)) (scan rest)"
proof -
  have "literal c \<noteq> [] \<and> hd (literal c) \<noteq> CHR ''=''"
  proof (cases "Type c = TEXT")
    case False
    then have n: "number_text (Value c)" using assms(2) by (simp add: value_text_ok_def)
    then have "hd (Value c) \<noteq> CHR ''=''" using number_chars(2) [OF n] by (cases "hd (Value c) = CHR ''-''") (auto simp: isdigit_def)
    with False number_sign(1) [OF n] show ?thesis by (simp add: literal_def)
  qed (simp add: literal_def quote_def)
  then have "scan (CHR ''='' # literal c @ rest) = opt_app (Some [equals]) (scan (literal c @ rest))"
    by (simp add: lex_equals opt_app_one)
  then show ?thesis
    using scan_ident [OF assms(1), of "''='' @ literal c @ rest"] scan_literal [OF assms(2,3)]
    by (simp add: assignment_def opt_app_assoc)
qed

lemma scan_assignments:
  assumes "cs \<noteq> []" "names_ok cs" "bnd rest"
    and sep: "\<And>r. scan (sep @ r) = opt_app (Some [st]) (scan r)" "\<And>r. bnd (sep @ r)" "split_sign st = [st]"
  shows "scan (join sep (map assignment cs) @ rest) =
    (if texts_ok cs then opt_app (Some (spread (join_list [st] (map assign_toks (assigns_of cs))))) (scan rest) else None)"
proof -
  let ?g = "\<lambda>c. opt_app (Some [Word (Name c), equals]) (literal_toks c)"
  have "scan (join sep (map assignment cs) @ rest) = opt_app (join_toks [st] (map ?g cs)) (scan rest)"
    using assms by (intro scan_join) (auto simp: scan_assignment list_all_iff names_ok_def)
  moreover have "map the (map ?g cs) = map spread (map assign_toks (assigns_of cs))" if "texts_ok cs"
    using that unfolding texts_ok_toks by (auto simp: list_all_iff assign_toks_def assigns_of_def)
  moreover have "None \<in> set (map ?g cs) \<longleftrightarrow> \<not> texts_ok cs"
    unfolding texts_bad [symmetric] by (force simp: image_iff opt_app_def split: option.splits)
  ultimately show ?thesis by (simp add: join_toks_list spread_join sep(3) del: map_map)
qed

end

context sql_lexer
begin

text \<open>Words of the language, each with a blank after it, and a word before a parenthesis.\<close>

lemma scan_words:
  "list_all is_word ws \<Longrightarrow> scan (concat (map (\<lambda>w. w @ '' '') ws) @ r) = opt_app (Some (map Word ws)) (scan r)"
proof (induction ws)
  case (Cons w ws)
  then show ?case using scan_name [of w "'' '' @ concat (map (\<lambda>w. w @ '' '') ws) @ r"] by simp
qed simp

lemma scan_call: "is_word w \<Longrightarrow> scan (w @ ''('' @ r) = opt_app (Some [Word w, lparen]) (scan r)"
  using scan_name [of w "''('' @ r"] by simp

lemma scan_phrases:
  "scan (''INSERT INTO '' @ r) = opt_app (Some [Word ''INSERT'', Word ''INTO'']) (scan r)"
  "scan (''VALUES ('' @ r) = opt_app (Some [Word ''VALUES'', lparen]) (scan r)"
  "scan (''UPDATE '' @ r) = opt_app (Some [Word ''UPDATE'']) (scan r)"
  "scan (''SET '' @ r) = opt_app (Some [Word ''SET'']) (scan r)"
  "scan (''WHERE '' @ r) = opt_app (Some [Word ''WHERE'']) (scan r)"
  "scan (''DELETE FROM '' @ r) = opt_app (Some [Word ''DELETE'', Word ''FROM'']) (scan r)"
  "scan (''DROP TABLE '' @ r) = opt_app (Some [Word ''DROP'', Word ''TABLE'']) (scan r)"
  "scan (''SELECT '' @ r) = opt_app (Some [Word ''SELECT'']) (scan r)"
  "scan (''FROM '' @ r) = opt_app (Some [Word ''FROM'']) (scan r)"
  "scan (''ORDER BY '' @ r) = opt_app (Some [Word ''ORDER'', Word ''BY'']) (scan r)"
  "scan (''LIMIT '' @ r) = opt_app (Some [Word ''LIMIT'']) (scan r)"
  "scan (''AS total_bytes FROM '' @ r) =
     opt_app (Some [Word ''AS'', Word ''total_bytes'', Word ''FROM'']) (scan r)"
  "scan (''NOT '' @ r) = opt_app (Some [Word ''NOT'']) (scan r)"
  "scan (''name FROM sqlite_master '' @ r) =
     opt_app (Some [Word ''name'', Word ''FROM'', Word ''sqlite_master'']) (scan r)"
  "scan (''CREATE TABLE IF NOT EXISTS '' @ r) =
     opt_app (Some [Word ''CREATE'', Word ''TABLE'', Word ''IF'', Word ''NOT'', Word ''EXISTS'']) (scan r)"
  using scan_words [of "[''INSERT'', ''INTO'']" r] scan_words [of "[''VALUES'']" "''('' @ r"] scan_words [of "[''UPDATE'']" r]
    scan_words [of "[''SET'']" r] scan_words [of "[''WHERE'']" r] scan_words [of "[''DELETE'', ''FROM'']" r]
    scan_words [of "[''DROP'', ''TABLE'']" r] scan_words [of "[''SELECT'']" r] scan_words [of "[''FROM'']" r]
    scan_words [of "[''ORDER'', ''BY'']" r] scan_words [of "[''LIMIT'']" r] scan_words [of "[''AS'', ''total_bytes'', ''FROM'']" r]
    scan_words [of "[''NOT'']" r] scan_words [of "[''name'', ''FROM'', ''sqlite_master'']" r]
    scan_words [of "[''CREATE'', ''TABLE'', ''IF'', ''NOT'', ''EXISTS'']" r]
  by (simp_all add: is_word_def char_facts)

lemma scan_calls:
  "scan (''COUNT('' @ r) = opt_app (Some [Word ''COUNT'', lparen]) (scan r)"
  "scan (''SUM('' @ r) = opt_app (Some [Word ''SUM'', lparen]) (scan r)"
  "scan (''LENGTH('' @ r) = opt_app (Some [Word ''LENGTH'', lparen]) (scan r)"
  "scan (''PRIMARY KEY('' @ r) = opt_app (Some [Word ''PRIMARY'', Word ''KEY'', lparen]) (scan r)"
  using scan_call [of "''COUNT''" r] scan_call [of "''SUM''" r] scan_call [of "''LENGTH''" r]
    scan_call [of "''KEY''" r] scan_words [of "[''PRIMARY'']" "''KEY('' @ r"]
  by (simp_all add: is_word_def char_facts)

lemmas scan_keywords [simp] = scan_phrases [unfolded append_Cons append_Nil] scan_calls [unfolded append_Cons append_Nil]

lemma scan_logop:
  "scan (('' '' @ MAP_LOGOP_STRING op @ '' '') @ r) = opt_app (Some [Word (MAP_LOGOP_STRING op)]) (scan r)"
  "bnd (('' '' @ MAP_LOGOP_STRING op @ '' '') @ r)"
  using scan_words [of "[MAP_LOGOP_STRING op]" r] by (cases op; simp add: is_word_def char_facts)+

lemma where_op_toks: "where_toks (where_of cs op) = where_toks (op, assigns_of cs)"
proof (cases "length cs \<le> 1")
  case True
  then show ?thesis by (cases cs) (simp_all add: where_of_def where_op_def assigns_of_def)
qed (simp add: where_of_def where_op_def)

lemma scan_where:
  assumes "names_ok cs" "bnd rest"
  shows "scan (where_clause cs op @ rest) =
    (if texts_ok cs then opt_app (Some (spread (where_toks (where_of cs op)))) (scan rest) else None)"
proof (cases "cs = []")
  case True
  then show ?thesis by (simp add: where_clause_def where_op_toks assigns_of_def)
next
  case False
  then have ne: "assigns_of cs \<noteq> []" by (simp add: assigns_of_def)
  show ?thesis
    using scan_assignments [OF False assms scan_logop [of op]] False ne
    by (simp add: where_clause_def where_op_toks opt_app_assoc)
qed

lemma scan_where_end:
  "names_ok cs \<Longrightarrow> scan (where_clause cs op) = (if texts_ok cs then Some (spread (where_toks (where_of cs op))) else None)"
  using scan_where [of cs "[]" op] by simp

lemma where_toks_Nil [simp]: "where_toks (where_of [] op) = []"
  by (simp add: where_of_def assigns_of_def)

lemma scan_insert:
  assumes "ident t" "row \<noteq> []" "names_ok row"
  shows "scan (insert_text t row) =
    (if texts_ok row then Some (stmt_toks (SInsert t (map Name row) (map val_of row))) else None)"
  using assms scan_values [OF assms(2,3), of "'')''"] scan_names [of "map Name row"]
  by (simp add: insert_text_def scan_ident names_ok_def list_all_iff stmt_toks_def del: map_map)

lemma scan_update:
  assumes "ident t" "row \<noteq> []" "names_ok row" "names_ok cs"
  shows "scan (update_text t row cs op) =
    (if texts_ok row \<and> texts_ok cs then Some (stmt_toks (SUpdate t (assigns_of row) (where_of cs op))) else None)"
  using assms scan_assignments [OF assms(2,3) _ scan_comma]
  by (simp add: update_text_def scan_ident scan_where_end stmt_toks_def)

lemma scan_remove:
  assumes "ident t" "names_ok cs"
  shows "scan (remove_text t cs op) = (if texts_ok cs then Some (stmt_toks (SDelete t (where_of cs op))) else None)"
  using assms scan_ident [OF assms(1), of "[]"] by (simp add: remove_text_def scan_ident scan_where_end stmt_toks_def)

lemma scan_drop: "ident t \<Longrightarrow> scan (drop_text t) = Some (stmt_toks (SDrop t))"
  using scan_ident [of t "[]"] by (simp add: drop_text_def stmt_toks_def)

lemma scan_count:
  assumes "ident t" "names_ok cs"
  shows "scan (count_text t cs op) = (if texts_ok cs then Some (stmt_toks (SCount t (where_of cs op))) else None)"
  using assms by (simp add: count_text_def scan_ident scan_where_end stmt_toks_def)

lemma scan_lengths:
  assumes "ns \<noteq> []" "list_all ident ns" "bnd rest"
  shows "scan (join '' + '' (map length_text ns) @ rest) =
    opt_app (Some (join_list [plus_sign] (map length_toks ns))) (scan rest)"
proof -
  have "scan (join '' + '' (map length_text ns) @ rest) =
      opt_app (join_toks [plus_sign] (map (\<lambda>n. Some (length_toks n)) ns)) (scan rest)"
    using assms by (intro scan_join) (auto simp: scan_ident list_all_iff length_text_def length_toks_def)
  then show ?thesis by (simp add: join_toks_list image_iff o_def)
qed

lemma scan_size:
  assumes "ident t" "flds \<noteq> []" "list_all (\<lambda>c. ident (Name c)) flds" "names_ok cs"
  shows "scan (size_text t flds cs op) =
    (if texts_ok cs then Some (stmt_toks (SSize (map Name flds) t (where_of cs op))) else None)"
  using assms scan_lengths [of "map Name flds"]
  by (simp add: size_text_def scan_ident scan_where_end list_all_iff o_def stmt_toks_def spread_join)

lemma scan_order:
  assumes "list_all (\<lambda>c. ident (Name c)) os" "bnd rest"
  shows "scan ((if os = [] then [] else '' ORDER BY '' @ join '', '' (map Name os) @ '' '' @ MAP_ORDER_STRING d) @ rest) =
    opt_app (Some (order_toks (map Name os) d)) (scan rest)"
  using assms scan_name [of "MAP_ORDER_STRING d" rest]
  by (cases d) (simp_all add: order_toks_def scan_names list_all_iff is_word_def char_facts)

lemma scan_limit:
  "scan (if n > 0 then '' LIMIT '' @ dec_int n else []) = Some (spread (limit_toks n))"
  "bnd (if n > 0 then '' LIMIT '' @ dec_int n else [])"
  using scan_number [OF number_text_dec_int [of n], of "[]"] by (simp_all add: limit_toks_def)

lemma scan_select:
  assumes "ident t" "list_all (\<lambda>c. ident (Name c)) flds" "names_ok cs" "list_all (\<lambda>c. ident (Name c)) os"
  shows "scan (select_text t flds cs op os d n) =
    (if texts_ok cs
     then Some (stmt_toks (SSelect (map Name flds) t (where_of cs op) (map Name os) d n)) else None)"
proof -
  let ?l = "if n > 0 then '' LIMIT '' @ dec_int n else []"
  let ?o = "if os = [] then [] else '' ORDER BY '' @ join '', '' (map Name os) @ '' '' @ MAP_ORDER_STRING d"
  have "bnd (?o @ ?l)" by simp
  then have "scan (where_clause cs op @ ?o @ ?l) =
      (if texts_ok cs then Some (spread (where_toks (where_of cs op)) @ order_toks (map Name os) d @ spread (limit_toks n)) else None)"
    using scan_where [of cs "?o @ ?l" op] scan_order [OF assms(4) scan_limit(2) [of n], of d]
      scan_limit(1) [of n] assms(3) by (simp del: append_Cons append_assoc if_split)
  moreover have "scan (select_text t flds cs op os d n) =
      opt_app (Some (Word ''SELECT'' # (if flds = [] then [star] else names_toks (map Name flds)) @
        [Word ''FROM'', Word t])) (scan (where_clause cs op @ ?o @ ?l))"
    using assms(1,2) by (simp add: select_text_def scan_ident scan_names list_all_iff del: if_split)
  ultimately show ?thesis by (simp add: stmt_toks_def)
qed

lemma scan_field:
  assumes "ident (Name k)" "bnd rest"
  shows "scan (field_text k @ rest) = opt_app (Some (field_toks (Name k, Type k, has_attr k NOT_NULL))) (scan rest)"
  using assms scan_name [of "MAP_COL_TYPE_STRING (Type k)" rest] scan_name [of "''NULL''" rest]
    scan_name [of "MAP_COL_TYPE_STRING (Type k)" "'' NOT NULL'' @ rest"]
  by (cases "Type k") (simp_all add: field_text_def field_toks_def scan_ident is_word_def char_facts)

lemma scan_pk:
  assumes "ident (Name k)" "bnd rest"
  shows "scan (pk_text k @ rest) = opt_app (Some (pk_toks (Name k, has_attr k AUTO_INCREMENT))) (scan rest)"
  using assms scan_name [of "''AUTOINCREMENT''" rest]
  by (simp add: pk_text_def pk_toks_def scan_ident is_word_def char_facts)

lemma scan_keys:
  assumes "ks \<noteq> []" "list_all (\<lambda>k. ident (Name k)) ks" "bnd rest"
  shows "scan (join '', '' (map field_text ks) @ rest) =
      opt_app (Some (join_list [comma] (map field_toks (cols_of ks)))) (scan rest)"
    and "scan (join '', '' (map pk_text ks) @ rest) =
      opt_app (Some (join_list [comma] (map (\<lambda>k. pk_toks (Name k, has_attr k AUTO_INCREMENT)) ks))) (scan rest)"
proof -
  have "scan (join '', '' (map field_text ks) @ rest) =
      opt_app (join_toks [comma] (map (\<lambda>k. Some (field_toks (Name k, Type k, has_attr k NOT_NULL))) ks)) (scan rest)"
    using assms by (intro scan_join scan_comma) (auto simp: scan_field list_all_iff)
  then show "scan (join '', '' (map field_text ks) @ rest) =
      opt_app (Some (join_list [comma] (map field_toks (cols_of ks)))) (scan rest)"
    by (simp add: join_toks_list image_iff o_def cols_of_def)
  have "scan (join '', '' (map pk_text ks) @ rest) =
      opt_app (join_toks [comma] (map (\<lambda>k. Some (pk_toks (Name k, has_attr k AUTO_INCREMENT))) ks)) (scan rest)"
    using assms by (intro scan_join scan_comma) (auto simp: scan_pk list_all_iff)
  then show "scan (join '', '' (map pk_text ks) @ rest) =
      opt_app (Some (join_list [comma] (map (\<lambda>k. pk_toks (Name k, has_attr k AUTO_INCREMENT)) ks))) (scan rest)"
    by (simp add: join_toks_list image_iff o_def)
qed

lemma scan_create:
  assumes "ident t" "keys_ok ks"
  shows "scan (create_text t ks) = Some (stmt_toks (SCreate t (cols_of ks) (pks_of ks)))"
proof -
  let ?pk = "filter (\<lambda>c. has_attr c PRIMARY_KEY) ks"
  have ks: "ks \<noteq> []" "list_all (\<lambda>k. ident (Name k)) ks" "list_all (\<lambda>k. ident (Name k)) ?pk"
    using assms(2) by (auto simp: keys_ok_def key_ok_def list_all_iff)
  have p: "scan (''PRIMARY KEY('' @ join '', '' (map pk_text ?pk) @ ''))'') =
      Some ([Word ''PRIMARY'', Word ''KEY'', lparen] @ join_list [comma] (map pk_toks (pks_of ks)) @ [rparen, rparen])"
    if "?pk \<noteq> []" using scan_keys(2) [OF that ks(3), of "''))''"] by (simp add: pks_of_def o_def)
  have "pks_of ks = [] \<longleftrightarrow> ?pk = []" by (simp add: pks_of_def)
  then show ?thesis
    using assms(1) p scan_keys(1) [OF ks(1,2)]
    by (cases "?pk = []") (simp_all add: create_text_def stmt_toks_def Let_def scan_ident spread_join o_def)
qed

end

subsection \<open>The statements the texts spell\<close>

lemma val_of_ok: "value_text_ok c \<Longrightarrow> (Type c = TEXT \<longrightarrow> CHR 0x00 \<notin> set (Value c)) \<Longrightarrow> val_ok (val_of c)"
  by (auto simp: val_of_def value_text_ok_def)

lemma assigns_of_ok: "names_ok cs \<Longrightarrow> texts_ok cs \<Longrightarrow> assigns_ok (assigns_of cs)"
  by (auto simp: names_ok_def texts_ok_def assigns_ok_def assigns_of_def list_all_iff val_of_ok)

lemma where_of_ok: "names_ok cs \<Longrightarrow> texts_ok cs \<Longrightarrow> where_ok (where_of cs op)"
  by (simp add: where_of_def where_op_def assigns_of_ok) (simp add: assigns_of_def)

lemma spells_exactly:
  "scan q = (if ok then Some (stmt_toks s) else None) \<Longrightarrow> (ok \<Longrightarrow> stmt_ok s) \<Longrightarrow> spells scan q s' \<longleftrightarrow> ok \<and> s' = s"
  using spells_unique [of scan q s s'] by (cases ok) (auto simp: spells_def)

lemma select_toks:
  "stmt_toks (SSelect ns t w os d n) = stmt_toks (SSelect ns t w os (if os = [] then ASC else d) (if n > 0 then n else 0))"
  by (simp add: stmt_toks_def order_toks_def limit_toks_def)

lemma ident_escape:
  assumes "ident t"
  shows "EscapeSingleQuotes t = t" "CHR 0x00 \<notin> set t"
proof -
  have "list_all ident_char t" using assms by (simp add: ident_def)
  then show "EscapeSingleQuotes t = t" "CHR 0x00 \<notin> set t"
    by (induction t) (auto simp: char_facts)
qed

context sql_lexer
begin

lemma spells_insert:
  assumes "ident t" "row \<noteq> []" "names_ok row"
  shows "spells scan (insert_text t row) s \<longleftrightarrow> texts_ok row \<and> s = SInsert t (map Name row) (map val_of row)"
  using assms by (intro spells_exactly scan_insert) (auto simp: names_ok_def texts_ok_def list_all_iff val_of_ok)

lemma spells_update:
  assumes "ident t" "row \<noteq> []" "names_ok row" "names_ok cs"
  shows "spells scan (update_text t row cs op) s \<longleftrightarrow>
    (texts_ok row \<and> texts_ok cs) \<and> s = SUpdate t (assigns_of row) (where_of cs op)"
  using assms by (intro spells_exactly scan_update) (auto simp: assigns_of_ok where_of_ok, simp add: assigns_of_def)

lemma spells_remove:
  assumes "ident t" "names_ok cs"
  shows "spells scan (remove_text t cs op) s \<longleftrightarrow> texts_ok cs \<and> s = SDelete t (where_of cs op)"
  using assms by (intro spells_exactly scan_remove) (auto simp: where_of_ok)

lemma spells_drop: "ident t \<Longrightarrow> spells scan (drop_text t) s \<longleftrightarrow> s = SDrop t"
  using spells_exactly [of scan "drop_text t" True "SDrop t" s] by (simp add: scan_drop)

lemma spells_count:
  assumes "ident t" "names_ok cs"
  shows "spells scan (count_text t cs op) s \<longleftrightarrow> texts_ok cs \<and> s = SCount t (where_of cs op)"
  using assms by (intro spells_exactly scan_count) (auto simp: where_of_ok)

lemma spells_size:
  assumes "ident t" "flds \<noteq> []" "list_all (\<lambda>c. ident (Name c)) flds" "names_ok cs"
  shows "spells scan (size_text t flds cs op) s \<longleftrightarrow> texts_ok cs \<and> s = SSize (map Name flds) t (where_of cs op)"
  using assms by (intro spells_exactly scan_size) (auto simp: where_of_ok list_all_iff)

lemma spells_select:
  assumes "ident t" "list_all (\<lambda>c. ident (Name c)) flds" "names_ok cs" "list_all (\<lambda>c. ident (Name c)) os"
  shows "spells scan (select_text t flds cs op os d n) s \<longleftrightarrow>
    texts_ok cs \<and>
    s = SSelect (map Name flds) t (where_of cs op) (map Name os) (if os = [] then ASC else d) (if n > 0 then n else 0)"
proof (rule spells_exactly)
  show "scan (select_text t flds cs op os d n) =
      (if texts_ok cs then Some (stmt_toks (SSelect (map Name flds) t (where_of cs op) (map Name os)
        (if os = [] then ASC else d) (if n > 0 then n else 0))) else None)"
    using scan_select [OF assms, of op d n] select_toks [of "map Name flds" t "where_of cs op" "map Name os" d n] by simp
qed (use assms in \<open>auto simp: where_of_ok list_all_iff\<close>)

lemma spells_create:
  assumes "ident t" "keys_ok ks"
  shows "spells scan (create_text t ks) s \<longleftrightarrow> s = SCreate t (cols_of ks) (pks_of ks)"
proof -
  have "stmt_ok (SCreate t (cols_of ks) (pks_of ks))"
    using assms by (auto simp: keys_ok_def key_ok_def list_all_iff cols_of_def pks_of_def)
  then show ?thesis
    using spells_exactly [of scan "create_text t ks" True "SCreate t (cols_of ks) (pks_of ks)" s] scan_create [OF assms] by simp
qed

text \<open>The query for a table is the one text with a semicolon.\<close>

lemma spells_exists:
  assumes "ident t"
  shows "spells scan (exists_text t) s \<longleftrightarrow>
    s = SSelect [''name''] ''sqlite_master'' (AND, [(''type'', VText ''table''), (''name'', VText t)]) [] ASC 0"
proof -
  let ?s = "SSelect [''name''] ''sqlite_master'' (AND, [(''type'', VText ''table''), (''name'', VText t)]) [] ASC 0"
  let ?cs = "[\<lparr>Name = ''type'', Type = TEXT, Value = ''table''\<rparr>, \<lparr>Name = ''name'', Type = TEXT, Value = t\<rparr>]"
  have ids: "ident ''type''" "ident ''name''" by (simp_all add: ident_eval)
  have cs: "names_ok ?cs" "texts_ok ?cs"
    using ident_escape [OF assms] ids by (simp_all add: names_ok_def texts_ok_def value_text_ok_def)
  have w: "where_of ?cs AND = (AND, [(''type'', VText ''table''), (''name'', VText t)])"
    by (simp add: where_of_def where_op_def assigns_of_def val_of_def)
  have "exists_text t = ''SELECT '' @ ''name FROM sqlite_master '' @ where_clause ?cs AND @ '';''"
    using ident_escape(1) [OF assms]
    by (simp add: exists_text_def where_clause_def assignment_def literal_def quote_def)
  then have "scan (exists_text t) = Some (stmt_toks ?s @ [semicolon])"
    using scan_where [OF cs(1), of "'';''" AND] cs(2)
    by (simp add: lex_semicolon w stmt_toks_def names_toks_def order_toks_def limit_toks_def del: where_toks.simps)
  moreover have "stmt_ok ?s" using ids ident_escape(2) [OF assms] by (simp add: assigns_ok_def)
  ultimately have "spells scan (exists_text t) ?s" by (simp add: spells_def)
  then show ?thesis using spells_unique [of scan "exists_text t"] by blast
qed

end

end
