(* ===== verification/Sqlite_Manager.thy ===== *)
theory Sqlite_Manager
  imports Sql_Text
begin

section \<open>The database manager\<close>

text \<open>
  \<^verbatim>\<open>src/src/agent/persistence/src/sqlite_manager.cpp\<close>: the implementation of the \<^verbatim>\<open>Persistence\<close> interface
  over an SQLite database. The database library is a parameter, a record of the calls the manager
  makes. Its contract, the locale \<open>sqlite_statements\<close>, says what the library does with a text that spells a
  statement, that is, whose tokens are exactly the statement's; of other texts it says only that one with an
  unfinished literal is refused. \<open>sqlite_engine\<close> adds the assumption that the library does not roll a
  transaction back by itself. The sublocales show that the manager's operations, on any such library,
  satisfy the contract that the components above rely on, and \<open>ref_engine\<close> is a library that satisfies
  the contract: it reads each text and executes the statement on tables in memory.
\<close>

subsection \<open>The library's calls\<close>

text \<open>A column of a result row, by what the accessors return.\<close>

record qcol =
  getName :: string
  getType :: int
  getString :: string
  getInt :: int
  getUInt :: nat

text \<open>
  \<open>db_exec\<close>: \<^verbatim>\<open>Database::exec\<close>. \<open>db_query\<close>: the rows that the successive \<^verbatim>\<open>executeStep\<close> calls of a
  \<^verbatim>\<open>Statement\<close> reach. The other three create, commit and roll back a \<^verbatim>\<open>Transaction\<close>; the destruction of
  a transaction that has been committed or rolled back does nothing.
\<close>

record 'e sqlite =
  db_exec :: "string \<Rightarrow> 'e \<Rightarrow> unit result \<times> 'e"
  db_query :: "string \<Rightarrow> 'e \<Rightarrow> qcol list list result"
  db_begin :: "'e \<Rightarrow> unit result \<times> 'e"
  db_commit :: "'e \<Rightarrow> unit result \<times> 'e"
  db_rollback :: "'e \<Rightarrow> unit result \<times> 'e"

subsection \<open>The manager\<close>

text \<open>\<open>m_transactions\<close> holds the identifiers of the transactions, the keys of the map.\<close>

record 'e sqlite_manager =
  m_db :: 'e
  m_transactions :: "TransactionId list"
  m_nextTransactionId :: TransactionId

definition SQLITE_INTEGER :: int where "SQLITE_INTEGER = 1"
definition SQLITE_FLOAT :: int where "SQLITE_FLOAT = 2"
definition SQLITE_TEXT :: int where "SQLITE_TEXT = 3"
definition SQLITE_NULL :: int where "SQLITE_NULL = 5"

lemmas sqlite_type_defs = SQLITE_INTEGER_def SQLITE_FLOAT_def SQLITE_TEXT_def SQLITE_NULL_def

definition ColumnTypeFromSQLiteType :: "int \<Rightarrow> ColumnType" where
  "ColumnTypeFromSQLiteType ty =
     (if ty = SQLITE_INTEGER then INTEGER else if ty = SQLITE_FLOAT then REAL else TEXT)"

definition SQLiteManager :: "'e sqlite \<Rightarrow> 'e \<Rightarrow> 'e sqlite_manager result" where
  "SQLiteManager E e =
     (case db_exec E ''PRAGMA journal_mode=WAL;'' e of
        (Ok _, e') \<Rightarrow> Ok \<lparr>m_db = e', m_transactions = [], m_nextTransactionId = 0\<rparr>
      | (Throw x, _) \<Rightarrow> Throw x
      | (Terminate, _) \<Rightarrow> Terminate)"

definition sm_Execute :: "'e sqlite \<Rightarrow> string \<Rightarrow> 'e sqlite_manager \<Rightarrow> unit result \<times> 'e sqlite_manager" where
  "sm_Execute E q m = (let (r, e') = db_exec E q (m_db m) in (r, m\<lparr>m_db := e'\<rparr>))"

definition sm_TableExists :: "'e sqlite \<Rightarrow> string \<Rightarrow> 'e sqlite_manager \<Rightarrow> bool" where
  "sm_TableExists E t m = (case db_query E (exists_text t) (m_db m) of Ok rows \<Rightarrow> rows \<noteq> [] | _ \<Rightarrow> False)"

definition sm_CreateTable ::
  "'e sqlite \<Rightarrow> string \<Rightarrow> Keys \<Rightarrow> 'e sqlite_manager \<Rightarrow> unit result \<times> 'e sqlite_manager" where
  "sm_CreateTable E tableName keys = sm_Execute E (create_text tableName keys)"

definition sm_Insert ::
  "'e sqlite \<Rightarrow> string \<Rightarrow> Row \<Rightarrow> 'e sqlite_manager \<Rightarrow> unit result \<times> 'e sqlite_manager" where
  "sm_Insert E tableName row = sm_Execute E (insert_text tableName row)"

text \<open>\<^verbatim>\<open>throw;\<close> with no exception in flight ends the process.\<close>

definition sm_Update ::
  "'e sqlite \<Rightarrow> string \<Rightarrow> Row \<Rightarrow> Criteria \<Rightarrow> LogicalOperator \<Rightarrow> 'e sqlite_manager
   \<Rightarrow> unit result \<times> 'e sqlite_manager" where
  "sm_Update E tableName flds selCriteria logOp m =
     (if flds = [] then (Terminate, m) else sm_Execute E (update_text tableName flds selCriteria logOp) m)"

definition sm_Remove ::
  "'e sqlite \<Rightarrow> string \<Rightarrow> Criteria \<Rightarrow> LogicalOperator \<Rightarrow> 'e sqlite_manager
   \<Rightarrow> unit result \<times> 'e sqlite_manager" where
  "sm_Remove E tableName selCriteria logOp = sm_Execute E (remove_text tableName selCriteria logOp)"

definition sm_DropTable :: "'e sqlite \<Rightarrow> string \<Rightarrow> 'e sqlite_manager \<Rightarrow> unit result \<times> 'e sqlite_manager" where
  "sm_DropTable E tableName = sm_Execute E (drop_text tableName)"

definition row_value :: "qcol \<Rightarrow> ColumnValue" where
  "row_value c = \<lparr>Name = getName c, Type = ColumnTypeFromSQLiteType (getType c), Value = getString c\<rparr>"

definition sm_Select ::
  "'e sqlite \<Rightarrow> string \<Rightarrow> Names \<Rightarrow> Criteria \<Rightarrow> LogicalOperator \<Rightarrow> Names \<Rightarrow> OrderType \<Rightarrow> int
   \<Rightarrow> 'e sqlite_manager \<Rightarrow> Row list result" where
  "sm_Select E tableName flds selCriteria logOp orderBy orderType limit m =
     map_result (map (map row_value))
       (db_query E (select_text tableName flds selCriteria logOp orderBy orderType limit) (m_db m))"

definition sm_GetCount ::
  "'e sqlite \<Rightarrow> string \<Rightarrow> Criteria \<Rightarrow> LogicalOperator \<Rightarrow> 'e sqlite_manager \<Rightarrow> int result" where
  "sm_GetCount E tableName selCriteria logOp m =
     map_result (\<lambda>rows. case rows of (c # _) # _ \<Rightarrow> getInt c | _ \<Rightarrow> 0)
       (db_query E (count_text tableName selCriteria logOp) (m_db m))"

definition sm_GetSize ::
  "'e sqlite \<Rightarrow> string \<Rightarrow> Names \<Rightarrow> Criteria \<Rightarrow> LogicalOperator \<Rightarrow> 'e sqlite_manager \<Rightarrow> nat result" where
  "sm_GetSize E tableName flds selCriteria logOp m =
     (if flds = [] then Terminate
      else map_result (\<lambda>rows. case rows of (c # _) # _ \<Rightarrow> getUInt c | _ \<Rightarrow> 0)
             (db_query E (size_text tableName flds selCriteria logOp) (m_db m)))"

text \<open>
  The identifier is taken before the transaction is created, so a failure uses it up. It is an
  \<^verbatim>\<open>unsigned int\<close>. \<^verbatim>\<open>emplace\<close> leaves an entry that is there.
\<close>

definition sm_BeginTransaction ::
  "'e sqlite \<Rightarrow> 'e sqlite_manager \<Rightarrow> TransactionId result \<times> 'e sqlite_manager" where
  "sm_BeginTransaction E m =
     (let transactionId = m_nextTransactionId m;
          (r, e') = db_begin E (m_db m);
          m' = m\<lparr>m_db := e', m_nextTransactionId := (transactionId + 1) mod 2 ^ 32\<rparr>
      in case r of
           Ok _ \<Rightarrow> (Ok transactionId,
                    m'\<lparr>m_transactions := List.insert transactionId (m_transactions m)\<rparr>)
         | Throw x \<Rightarrow> (Throw x, m')
         | Terminate \<Rightarrow> (Terminate, m'))"

definition sm_end ::
  "('e \<Rightarrow> unit result \<times> 'e) \<Rightarrow> TransactionId \<Rightarrow> 'e sqlite_manager \<Rightarrow> unit result \<times> 'e sqlite_manager" where
  "sm_end f transactionId m =
     (if transactionId \<notin> set (m_transactions m) then (Throw ''map::at'', m)
      else let (r, e') = f (m_db m); m' = m\<lparr>m_db := e'\<rparr>
           in case r of
                Ok _ \<Rightarrow> (Ok (), m'\<lparr>m_transactions := removeAll transactionId (m_transactions m)\<rparr>)
              | _ \<Rightarrow> (r, m'))"

definition sm_CommitTransaction ::
  "'e sqlite \<Rightarrow> TransactionId \<Rightarrow> 'e sqlite_manager \<Rightarrow> unit result \<times> 'e sqlite_manager" where
  "sm_CommitTransaction E = sm_end (db_commit E)"

definition sm_RollbackTransaction ::
  "'e sqlite \<Rightarrow> TransactionId \<Rightarrow> 'e sqlite_manager \<Rightarrow> unit result \<times> 'e sqlite_manager" where
  "sm_RollbackTransaction E = sm_end (db_rollback E)"

definition sqlite_persistence :: "'e sqlite \<Rightarrow> 'e sqlite_manager persistence" where
  "sqlite_persistence E =
   \<lparr>TableExists = sm_TableExists E, CreateTable = sm_CreateTable E, Insert = sm_Insert E,
    Update = sm_Update E, Remove = sm_Remove E, DropTable = sm_DropTable E, Select = sm_Select E,
    GetCount = sm_GetCount E, GetSize = sm_GetSize E, BeginTransaction = sm_BeginTransaction E,
    CommitTransaction = sm_CommitTransaction E, RollbackTransaction = sm_RollbackTransaction E\<rparr>"

lemmas sm_defs = sm_TableExists_def sm_CreateTable_def sm_Insert_def sm_Update_def sm_Remove_def
  sm_DropTable_def sm_Select_def sm_GetCount_def sm_GetSize_def sm_BeginTransaction_def
  sm_CommitTransaction_def sm_RollbackTransaction_def sqlite_persistence_def

subsection \<open>Statements, against a table\<close>

fun text_of :: "sqlval \<Rightarrow> string" where
  "text_of (VText s) = s"
| "text_of (VNum s) = s"

definition col_type :: "Keys \<Rightarrow> string \<Rightarrow> ColumnType" where
  "col_type ks n =
     (if n = ''rowid'' then INTEGER else case find (\<lambda>k. Name k = n) ks of Some k \<Rightarrow> Type k | None \<Rightarrow> TEXT)"

definition bind_val :: "Keys \<Rightarrow> string \<times> sqlval \<Rightarrow> ColumnValue" where
  "bind_val ks = (\<lambda>(n, v). \<lparr>Name = n, Type = col_type ks n, Value = text_of v\<rparr>)"

abbreviation bind_vals :: "Keys \<Rightarrow> (string \<times> sqlval) list \<Rightarrow> ColumnValue list" where
  "bind_vals ks \<equiv> map (bind_val ks)"

text \<open>Each literal is of the kind of its column.\<close>

definition typed_vals :: "Keys \<Rightarrow> (string \<times> sqlval) list \<Rightarrow> bool" where
  "typed_vals ks as \<longleftrightarrow> list_all (\<lambda>a. val_of (bind_val ks a) = snd a) as"

definition keys_of :: "(string \<times> ColumnType \<times> bool) list \<Rightarrow> (string \<times> bool) list \<Rightarrow> Keys" where
  "keys_of cs pks =
     map (\<lambda>(n, ty, nn).
       \<lparr>Name = n, Type = ty,
        Attributes = (if nn then NOT_NULL else 0) +
          (case map_of pks n of None \<Rightarrow> 0 | Some ai \<Rightarrow> PRIMARY_KEY + (if ai then AUTO_INCREMENT else 0))\<rparr>) cs"

definition type_code :: "(ColumnType \<times> string) option \<Rightarrow> int" where
  "type_code c =
     (case c of
        None \<Rightarrow> SQLITE_NULL
      | Some (INTEGER, _) \<Rightarrow> SQLITE_INTEGER | Some (REAL, _) \<Rightarrow> SQLITE_FLOAT | Some (TEXT, _) \<Rightarrow> SQLITE_TEXT)"

text \<open>A row of a \<^verbatim>\<open>SELECT\<close> with the names \<open>ns\<close>: name, type and text of each column.\<close>

definition result_row :: "table \<Rightarrow> string list \<Rightarrow> trow \<Rightarrow> (string \<times> int \<times> string) list" where
  "result_row T ns r =
     map (\<lambda>n. (n, type_code (cell r n), cell_text r n)) (if ns = [] then map Name (cols T) else ns)"

definition shown :: "qcol list \<Rightarrow> (string \<times> int \<times> string) list" where
  "shown = map (\<lambda>c. (getName c, getType c, getString c))"

abbreviation named :: "string list \<Rightarrow> Names" where
  "named \<equiv> map (\<lambda>n. \<lparr>Name = n, Type = TEXT\<rparr>)"

definition outcome :: "unit result \<Rightarrow> bool \<Rightarrow> bool \<Rightarrow> bool" where
  "outcome r ok unchanged = (case r of Ok _ \<Rightarrow> ok | Throw _ \<Rightarrow> unchanged | Terminate \<Rightarrow> False)"

subsection \<open>The library's contract\<close>

text \<open>
  What a statement leaves behind when it fails: the database as it was, or, when the library itself rolled the open
  transaction back, the tables as they were when the transaction began.
\<close>

definition failed_safely ::
  "('e \<Rightarrow> string \<Rightarrow> table option) \<Rightarrow> ('e \<Rightarrow> (string \<Rightarrow> table option) option) \<Rightarrow> 'e \<Rightarrow> 'e \<Rightarrow> bool" where
  "failed_safely etables esaved e e' \<longleftrightarrow>
     etables e' = etables e \<and> esaved e' = esaved e \<or> esaved e = Some (etables e') \<and> esaved e' = None"

definition executed ::
  "('e \<Rightarrow> string \<Rightarrow> table option) \<Rightarrow> ('e \<Rightarrow> (string \<Rightarrow> table option) option) \<Rightarrow> unit result \<Rightarrow> 'e \<Rightarrow> 'e \<Rightarrow> bool \<Rightarrow> bool" where
  "executed etables esaved r e e' done_right \<longleftrightarrow>
     outcome r (esaved e' = esaved e \<and> done_right) (failed_safely etables esaved e e')"

text \<open>
  \<open>etables\<close> are the tables of the database, \<open>esaved\<close> those at the beginning of the open transaction, \<open>einv\<close> whatever the
  library keeps. Each law is about the texts that spell its statement.
\<close>

locale sqlite_statements = sql_lexer scan for scan :: "string \<Rightarrow> tok list option" +
  fixes E :: "'e sqlite"
    and etables :: "'e \<Rightarrow> string \<Rightarrow> table option"
    and esaved :: "'e \<Rightarrow> (string \<Rightarrow> table option) option"
    and canon :: canon
    and einv :: "'e \<Rightarrow> bool"
  assumes canon_text: "canon TEXT v = v"
    and canon_integer: "canon INTEGER (dec_int i) = dec_int i"
    and rowids_ascend: "einv e \<Longrightarrow> etables e t = Some T \<Longrightarrow> sorted_wrt (<) (map rowid (trows T))"
    and table_keys: "einv e \<Longrightarrow> etables e t = Some T \<Longrightarrow> keys_unique T"
    and table_names: "einv e \<Longrightarrow> names_apart (etables e)"
    and exec_malformed: "einv e \<Longrightarrow> scan q = None \<Longrightarrow> db_exec E q e = (r, e') \<Longrightarrow>
      einv e' \<and> etables e' = etables e \<and> esaved e' = esaved e \<and> (\<exists>x. r = Throw x)"
    and query_malformed: "einv e \<Longrightarrow> scan q = None \<Longrightarrow> \<exists>x. db_query E q e = Throw x"
    and query_returns: "einv e \<Longrightarrow> db_query E q e \<noteq> Terminate"
    and create_law: "einv e \<Longrightarrow> spells scan q (SCreate t cs pks) \<Longrightarrow> ident t \<Longrightarrow> keys_ok (keys_of cs pks) \<Longrightarrow>
      name_free (etables e) t \<Longrightarrow>
      db_exec E q e = (r, e') \<Longrightarrow>
      einv e' \<and> executed etables esaved r e e'
        (etables e' = (if etables e t = None then (etables e)(t \<mapsto> \<lparr>cols = keys_of cs pks, trows = []\<rparr>)
                       else etables e))"
    and insert_law: "einv e \<Longrightarrow> spells scan q (SInsert t ns vs) \<Longrightarrow> etables e t = Some T \<Longrightarrow>
      typed_vals (cols T) (zip ns vs) \<Longrightarrow> row_ok (cols T) (bind_vals (cols T) (zip ns vs)) \<Longrightarrow>
      db_exec E q e = (r, e') \<Longrightarrow>
      einv e' \<and> executed etables esaved r e e'
        (row_admissible canon T (bind_vals (cols T) (zip ns vs)) \<and>
         (\<exists>i. (\<forall>x\<in>set (trows T). rowid x < i) \<and>
            etables e' = (etables e)(t \<mapsto>
              map_trows (\<lambda>rs. rs @ [new_row canon i (bind_vals (cols T) (zip ns vs))]) T)))"
    and update_law: "einv e \<Longrightarrow> spells scan q (SUpdate t as (op, ws)) \<Longrightarrow> etables e t = Some T \<Longrightarrow>
      typed_vals (cols T) as \<Longrightarrow> row_ok (cols T) (bind_vals (cols T) as) \<Longrightarrow>
      typed_vals (cols T) ws \<Longrightarrow> crits_ok (cols T) (bind_vals (cols T) ws) \<Longrightarrow>
      db_exec E q e = (r, e') \<Longrightarrow>
      einv e' \<and> executed etables esaved r e e'
        (etables e' = (etables e)(t \<mapsto>
           map_trows (map (\<lambda>x. if row_matches canon op (bind_vals (cols T) ws) x
                               then upd_row canon (bind_vals (cols T) as) x else x)) T))"
    and delete_law: "einv e \<Longrightarrow> spells scan q (SDelete t (op, ws)) \<Longrightarrow> etables e t = Some T \<Longrightarrow>
      typed_vals (cols T) ws \<Longrightarrow> crits_ok (cols T) (bind_vals (cols T) ws) \<Longrightarrow>
      db_exec E q e = (r, e') \<Longrightarrow>
      einv e' \<and> executed etables esaved r e e'
        (etables e' = (etables e)(t \<mapsto>
           map_trows (filter (\<lambda>x. \<not> row_matches canon op (bind_vals (cols T) ws) x)) T))"
    and drop_law: "einv e \<Longrightarrow> spells scan q (SDrop t) \<Longrightarrow> etables e t \<noteq> None \<Longrightarrow> db_exec E q e = (r, e') \<Longrightarrow>
      einv e' \<and> executed etables esaved r e e' (etables e' = (etables e)(t := None))"
    and exists_law: "einv e \<Longrightarrow>
      spells scan q (SSelect [''name''] ''sqlite_master'' (AND, [(''type'', VText ''table''), (''name'', VText t)]) [] ASC 0) \<Longrightarrow>
      ident t \<Longrightarrow> db_query E q e = Ok rows \<Longrightarrow> rows \<noteq> [] \<longleftrightarrow> etables e t \<noteq> None"
    and select_rowid_law: "einv e \<Longrightarrow> spells scan q (SSelect ns t (op, ws) [''rowid''] ASC n) \<Longrightarrow>
      etables e t = Some T \<Longrightarrow> flds_ok (cols T) (named ns) \<Longrightarrow>
      typed_vals (cols T) ws \<Longrightarrow> crits_ok (cols T) (bind_vals (cols T) ws) \<Longrightarrow>
      db_query E q e = Ok rows \<Longrightarrow>
      map shown rows = map (result_row T ns) (limit_rows n (sel canon op (bind_vals (cols T) ws) T))"
    and select_law: "einv e \<Longrightarrow> spells scan q (SSelect ns t (op, ws) [] d 0) \<Longrightarrow>
      etables e t = Some T \<Longrightarrow> flds_ok (cols T) (named ns) \<Longrightarrow>
      typed_vals (cols T) ws \<Longrightarrow> crits_ok (cols T) (bind_vals (cols T) ws) \<Longrightarrow>
      db_query E q e = Ok rows \<Longrightarrow>
      mset (map shown rows) = mset (map (result_row T ns) (sel canon op (bind_vals (cols T) ws) T))"
    and count_law: "einv e \<Longrightarrow> spells scan q (SCount t (op, ws)) \<Longrightarrow> etables e t = Some T \<Longrightarrow>
      typed_vals (cols T) ws \<Longrightarrow> crits_ok (cols T) (bind_vals (cols T) ws) \<Longrightarrow>
      db_query E q e = Ok rows \<Longrightarrow>
      \<exists>c. rows = [[c]] \<and> getInt c = as_int32 (int (length (sel canon op (bind_vals (cols T) ws) T)))"
    and size_law: "einv e \<Longrightarrow> spells scan q (SSize ns t (op, ws)) \<Longrightarrow> etables e t = Some T \<Longrightarrow>
      ns \<noteq> [] \<Longrightarrow> flds_ok (cols T) (named ns) \<Longrightarrow>
      typed_vals (cols T) ws \<Longrightarrow> crits_ok (cols T) (bind_vals (cols T) ws) \<Longrightarrow>
      db_query E q e = Ok rows \<Longrightarrow>
      \<exists>c. rows = [[c]] \<and>
        getUInt c = as_uint32 (sum_list (map (row_size (named ns)) (sel canon op (bind_vals (cols T) ws) T)))"
    and begin_law: "einv e \<Longrightarrow> db_begin E e = (r, e') \<Longrightarrow>
      einv e' \<and> etables e' = etables e \<and>
      outcome r (esaved e = None \<and> esaved e' = Some (etables e)) (esaved e' = esaved e)"
    and commit_law: "einv e \<Longrightarrow> db_commit E e = (r, e') \<Longrightarrow>
      einv e' \<and> outcome r (etables e' = etables e \<and> esaved e' = None) (failed_safely etables esaved e e')"
    and rollback_law: "einv e \<Longrightarrow> esaved e = Some ts \<Longrightarrow> db_rollback E e = (r, e') \<Longrightarrow>
      einv e' \<and>
      outcome r (esaved e' = None \<and> etables e' = ts) (esaved e' = esaved e \<and> etables e' = etables e)"

text \<open>
  After a full disk, an error of the device, a lack of memory or an interrupt, SQLite may roll the open transaction back before it
  reports the error. The manager does not notice (it keeps the transaction in its map), so what it
  promises is for runs in which that does not happen.
\<close>

locale sqlite_engine = sqlite_statements +
  assumes no_automatic_rollback: "einv e \<Longrightarrow> db_exec E q e = (Throw x, e') \<Longrightarrow> esaved e' = esaved e"
    and no_rollback_by_commit: "einv e \<Longrightarrow> db_commit E e = (Throw x, e') \<Longrightarrow> esaved e' = esaved e"

text \<open>A library without failures of its own: it executes every statement that the tables allow.\<close>

definition executable :: "canon \<Rightarrow> (string \<Rightarrow> table option) \<Rightarrow> stmt \<Rightarrow> bool" where
  "executable canon ts s =
     (case s of
        SCreate t cs pks \<Rightarrow> ident t \<and> keys_ok (keys_of cs pks)
      | SInsert t ns vs \<Rightarrow>
          (case ts t of
             Some T \<Rightarrow> typed_vals (cols T) (zip ns vs) \<and> row_ok (cols T) (bind_vals (cols T) (zip ns vs)) \<and>
               row_admissible canon T (bind_vals (cols T) (zip ns vs)) | None \<Rightarrow> False)
      | SUpdate t as (_, ws) \<Rightarrow>
          (case ts t of
             Some T \<Rightarrow> typed_vals (cols T) as \<and> row_ok (cols T) (bind_vals (cols T) as) \<and>
               typed_vals (cols T) ws \<and> crits_ok (cols T) (bind_vals (cols T) ws) \<and>
               set (map fst as) \<inter> set (key_cols T) = {} | None \<Rightarrow> False)
      | SDelete t (_, ws) \<Rightarrow>
          (case ts t of
             Some T \<Rightarrow> typed_vals (cols T) ws \<and> crits_ok (cols T) (bind_vals (cols T) ws) | None \<Rightarrow> False)
      | SDrop t \<Rightarrow> ts t \<noteq> None
      | SSelect ns t (_, ws) os _ _ \<Rightarrow>
          t = ''sqlite_master'' \<and> map fst ws = [''type'', ''name''] \<or>
          (case ts t of
             Some T \<Rightarrow> flds_ok (cols T) (named ns) \<and> typed_vals (cols T) ws \<and>
               crits_ok (cols T) (bind_vals (cols T) ws) \<and> list_all (\<lambda>n. n = ''rowid'') os | None \<Rightarrow> False)
      | SCount t (_, ws) \<Rightarrow>
          (case ts t of
             Some T \<Rightarrow> typed_vals (cols T) ws \<and> crits_ok (cols T) (bind_vals (cols T) ws) | None \<Rightarrow> False)
      | SSize ns t (_, ws) \<Rightarrow>
          (case ts t of
             Some T \<Rightarrow> ns \<noteq> [] \<and> flds_ok (cols T) (named ns) \<and> typed_vals (cols T) ws \<and>
               crits_ok (cols T) (bind_vals (cols T) ws) | None \<Rightarrow> False))"

fun is_query :: "stmt \<Rightarrow> bool" where
  "is_query (SSelect _ _ _ _ _ _) = True"
| "is_query (SCount _ _) = True"
| "is_query (SSize _ _ _) = True"
| "is_query _ = False"

locale reliable_engine = sqlite_engine +
  assumes exec_ok: "einv e \<Longrightarrow> spells scan q s \<Longrightarrow> executable canon (etables e) s \<Longrightarrow> \<not> is_query s \<Longrightarrow>
      fst (db_exec E q e) = Ok ()"
    and query_ok: "einv e \<Longrightarrow> spells scan q s \<Longrightarrow> executable canon (etables e) s \<Longrightarrow> is_query s \<Longrightarrow>
      is_ok (db_query E q e)"
    and begin_ok: "einv e \<Longrightarrow> esaved e = None \<Longrightarrow> fst (db_begin E e) = Ok ()"
    and commit_ok: "einv e \<Longrightarrow> esaved e \<noteq> None \<Longrightarrow> fst (db_commit E e) = Ok ()"

subsection \<open>What a statement says of its table\<close>

lemma text_of_val_of [simp]: "text_of (val_of c) = Value c"
  by (simp add: val_of_def)

lemma keys_ok_facts:
  assumes "keys_ok ks"
  shows "list_all (\<lambda>k. ident (Name k) \<and> Name k \<noteq> ''rowid'') ks" "distinct (map Name ks)" "ks \<noteq> []"
proof -
  show "list_all (\<lambda>k. ident (Name k) \<and> Name k \<noteq> ''rowid'') ks" "ks \<noteq> []"
    using assms by (auto simp: keys_ok_def key_ok_def list_all_iff)
  have "distinct (map (map tolower) (map Name ks))" using assms by (simp add: keys_ok_def o_def)
  then show "distinct (map Name ks)" using distinct_map by blast
qed

lemma col_type_key:
  assumes "keys_ok ks" "k \<in> set ks"
  shows "col_type ks (Name k) = Type k"
proof -
  have ne: "Name k \<noteq> ''rowid''" using keys_ok_facts(1) [OF assms(1)] assms(2) by (auto simp: list_all_iff)
  have "find (\<lambda>c. Name c = Name k) ks = Some k"
    using keys_ok_facts(2) [OF assms(1)] assms(2) by (induction ks) (auto simp: rev_image_eqI)
  with ne show ?thesis by (simp add: col_type_def)
qed

lemma bind_val_of:
  assumes "keys_ok ks" "col_ok ks c \<or> crit_ok ks c"
  shows "bind_val ks (Name c, val_of c) = c"
proof -
  have "col_type ks (Name c) = Type c"
  proof (cases "Name c = ''rowid'' \<and> Type c = INTEGER")
    case True
    then show ?thesis by (simp add: col_type_def)
  next
    case False
    with assms(2) obtain k where "k \<in> set ks" "Name k = Name c" "Type k = Type c"
      by (fastforce simp: col_ok_def crit_ok_def)
    with col_type_key [OF assms(1)] show ?thesis by metis
  qed
  then show ?thesis by (simp add: bind_val_def)
qed

lemma bind_assigns:
  assumes "keys_ok ks" "list_all (\<lambda>c. col_ok ks c \<or> crit_ok ks c) cs"
  shows "bind_vals ks (assigns_of cs) = cs" "typed_vals ks (assigns_of cs)"
  using assms bind_val_of [OF assms(1)] by (auto simp: assigns_of_def typed_vals_def list_all_iff intro: map_idI)

lemma bind_row:
  assumes "keys_ok ks" "row_ok ks fs"
  shows "bind_vals ks (assigns_of fs) = fs" "typed_vals ks (assigns_of fs)"
  using bind_assigns [OF assms(1), of fs] assms(2) by (auto simp: row_ok_def list_all_iff)

lemma bind_crits:
  assumes "keys_ok ks" "crits_ok ks cs"
  shows "bind_vals ks (assigns_of cs) = cs" "typed_vals ks (assigns_of cs)"
  using bind_assigns [OF assms(1), of cs] assms(2) by (auto simp: crits_ok_def list_all_iff)

lemma zip_assigns: "zip (map Name fs) (map val_of fs) = assigns_of fs"
  by (simp add: assigns_of_def zip_map_map zip_same_conv_map)

lemma row_matches_single: "length cs \<le> 1 \<Longrightarrow> row_matches canon op cs = row_matches canon op' cs"
  by (cases cs; cases op; cases op') (simp_all add: row_matches_def fun_eq_iff)

lemma row_matches_where: "row_matches canon (where_op cs op) cs = row_matches canon op cs"
  using row_matches_single [of cs canon AND op] by (simp add: where_op_def)

lemma keys_of_written:
  assumes "keys_ok ks"
  shows "keys_of (cols_of ks) (pks_of ks) = ks"
proof -
  have one: "map_of (pks_of ks) (Name k) = (if has_attr k PRIMARY_KEY then Some (has_attr k AUTO_INCREMENT) else None)"
    if "k \<in> set ks" for k
  proof -
    have d: "distinct (map fst (pks_of ks))"
      using keys_ok_facts(2) [OF assms] by (simp add: pks_of_def o_def distinct_map_filter)
    show ?thesis
    proof (cases "has_attr k PRIMARY_KEY")
      case True
      then have "k \<in> set (filter (\<lambda>c. has_attr c PRIMARY_KEY) ks)" using that by simp
      then have "(Name k, has_attr k AUTO_INCREMENT) \<in> set (pks_of ks)"
        unfolding pks_of_def set_map by (rule rev_image_eqI) simp
      with map_of_is_SomeI [OF d] True show ?thesis by simp
    next
      case False
      then have "Name k \<notin> fst ` set (pks_of ks)"
        using inj_onD [OF conjunct2 [OF keys_ok_facts(2) [OF assms, unfolded distinct_map]] _ _ that]
        by (auto simp: pks_of_def)
      then have "map_of (pks_of ks) (Name k) = None" unfolding map_of_eq_None_iff .
      with False show ?thesis by simp
    qed
  qed
  have attrs: "(if has_attr k NOT_NULL then NOT_NULL else 0) +
      (case map_of (pks_of ks) (Name k) of None \<Rightarrow> 0
       | Some ai \<Rightarrow> PRIMARY_KEY + (if ai then AUTO_INCREMENT else 0)) = Attributes k" if "k \<in> set ks" for k
  proof -
    have k: "key_ok ks k" using assms that by (auto simp: keys_ok_def list_all_iff)
    have "has_attr k AUTO_INCREMENT \<longrightarrow> k \<in> set (filter (\<lambda>c. has_attr c PRIMARY_KEY) ks)"
      using k by (simp add: key_ok_def del: set_filter)
    then have "has_attr k AUTO_INCREMENT \<longrightarrow> has_attr k PRIMARY_KEY" by simp
    moreover have "Attributes k \<in> {0, 1, 2, 3, 4, 5, 6, 7}" using k by (auto simp: key_ok_def)
    ultimately show ?thesis by (auto simp: one [OF that] attr_defs)
  qed
  show ?thesis by (simp add: keys_of_def cols_of_def o_def map_idI attrs)
qed


lemma col_ok_named:
  assumes "keys_ok ks" "col_ok ks c \<or> crit_ok ks c"
  shows "ident (Name c) \<and> value_text_ok c"
proof -
  have "ident (Name c)"
  proof (cases "Name c = ''rowid''")
    case True
    then show ?thesis by (simp add: ident_rowid)
  next
    case False
    with assms(2) obtain k where "k \<in> set ks" "Name k = Name c" by (fastforce simp: col_ok_def crit_ok_def)
    with keys_ok_facts(1) [OF assms(1)] show ?thesis by (auto simp: list_all_iff)
  qed
  moreover have "Type c = TEXT \<or> number_text (Value c)"
    using assms(2) value_ok_number int_text_number by (auto simp: col_ok_def crit_ok_def)
  ultimately show ?thesis by (simp add: value_text_ok_def)
qed

lemma row_named: "keys_ok ks \<Longrightarrow> row_ok ks fs \<Longrightarrow> names_ok fs"
  using col_ok_named by (auto simp: row_ok_def names_ok_def list_all_iff)

lemma crits_named: "keys_ok ks \<Longrightarrow> crits_ok ks cs \<Longrightarrow> names_ok cs"
  using col_ok_named by (auto simp: crits_ok_def names_ok_def list_all_iff)

lemma flds_named:
  assumes "keys_ok ks" "flds_ok ks flds"
  shows "list_all (\<lambda>c. ident (Name c)) flds" "flds_ok ks (named (map Name flds))"
proof -
  show "list_all (\<lambda>c. ident (Name c)) flds"
    using assms(2) keys_ok_facts(1) [OF assms(1)] ident_rowid
    by (fastforce simp: flds_ok_def list_all_iff list_ex_iff split: if_splits)
  show "flds_ok ks (named (map Name flds))" using assms(2) by (cases "flds = []") (simp_all add: flds_ok_def list_all_iff)
qed

lemma texts_ok_nul_free: "nul_free cs \<Longrightarrow> texts_ok cs"
  by (simp add: nul_free_def texts_ok_def list_all_iff)

definition shown_value :: "string \<times> int \<times> string \<Rightarrow> ColumnValue" where
  "shown_value = (\<lambda>(n, ty, v). \<lparr>Name = n, Type = ColumnTypeFromSQLiteType ty, Value = v\<rparr>)"

lemma row_value_shown: "map row_value row = map shown_value (shown row)"
  by (simp add: shown_def shown_value_def row_value_def)

lemma project_shown: "project T flds r = map shown_value (result_row T (map Name flds) r)"
  by (simp add: result_row_def project_def shown_value_def type_code_def ColumnTypeFromSQLiteType_def sqlite_type_defs
      split: option.splits prod.splits ColumnType.splits)

lemma rows_shown:
  assumes "map shown rows = map (result_row T (map Name flds)) rs"
  shows "map (map row_value) rows = map (project T flds) rs"
proof -
  have "map (map row_value) rows = map (map shown_value) (map shown rows)" by (simp add: row_value_shown)
  also have "\<dots> = map (project T flds) rs" unfolding assms by (simp add: project_shown)
  finally show ?thesis .
qed

lemma rows_shown_mset:
  assumes "mset (map shown rows) = mset (map (result_row T (map Name flds)) rs)"
  shows "mset (map (map row_value) rows) = mset (map (project T flds) rs)"
proof -
  have "map row_value = map shown_value \<circ> shown" by (simp add: fun_eq_iff row_value_shown)
  then have "mset (map (map row_value) rows) = image_mset (map shown_value) (mset (map shown rows))"
    by (simp add: multiset.map_comp)
  also have "project T flds = map shown_value \<circ> result_row T (map Name flds)" by (simp add: fun_eq_iff project_shown)
  then have "image_mset (map shown_value) (mset (map shown rows)) = mset (map (project T flds) rs)"
    unfolding assms by (simp add: multiset.map_comp)
  finally show ?thesis .
qed


subsection \<open>The manager satisfies the interface's contract\<close>

definition schema_ok :: "(string \<Rightarrow> table option) \<Rightarrow> bool" where
  "schema_ok ts \<longleftrightarrow> (\<forall>t T. ts t = Some T \<longrightarrow> ident t \<and> keys_ok (cols T))"

definition sm_tables :: "('e \<Rightarrow> string \<Rightarrow> table option) \<Rightarrow> 'e sqlite_manager \<Rightarrow> string \<Rightarrow> table option" where
  "sm_tables etables m = etables (m_db m)"

definition sm_saved ::
  "('e \<Rightarrow> (string \<Rightarrow> table option) option) \<Rightarrow> 'e sqlite_manager
   \<Rightarrow> (TransactionId \<times> (string \<Rightarrow> table option)) option" where
  "sm_saved esaved m = (case m_transactions m of [] \<Rightarrow> None | k # _ \<Rightarrow> map_option (Pair k) (esaved (m_db m)))"

text \<open>At most one transaction, and it is the library's.\<close>

definition sm_inv ::
  "('e \<Rightarrow> string \<Rightarrow> table option) \<Rightarrow> ('e \<Rightarrow> (string \<Rightarrow> table option) option) \<Rightarrow> ('e \<Rightarrow> bool)
   \<Rightarrow> 'e sqlite_manager \<Rightarrow> bool" where
  "sm_inv etables esaved einv m \<longleftrightarrow>
     einv (m_db m) \<and> schema_ok (etables (m_db m)) \<and>
     (\<forall>ts. esaved (m_db m) = Some ts \<longrightarrow> schema_ok ts) \<and>
     (if esaved (m_db m) = None then m_transactions m = [] else length (m_transactions m) = 1)"

lemmas sm_state_defs = sm_tables_def sm_saved_def sm_inv_def

lemma schema_ok_upd: "schema_ok ts \<Longrightarrow> ident t \<Longrightarrow> keys_ok (cols T) \<Longrightarrow> schema_ok (ts(t \<mapsto> T))"
  by (simp add: schema_ok_def)

lemma schema_ok_del: "schema_ok ts \<Longrightarrow> schema_ok (ts(t := None))"
  by (simp add: schema_ok_def)

lemma sm_Execute_cases:
  assumes "sm_Execute E q m = (r, m')"
  obtains e' where "db_exec E q (m_db m) = (r, e')" "m' = m\<lparr>m_db := e'\<rparr>"
  using assms by (auto simp: sm_Execute_def split: prod.splits)

context sqlite_engine
begin

abbreviation "minv \<equiv> sm_inv etables esaved einv"
abbreviation "mtables \<equiv> sm_tables etables"
abbreviation "msaved \<equiv> sm_saved esaved"

lemma minv_table:
  assumes "minv m" "mtables m t = Some T"
  shows "einv (m_db m)" "etables (m_db m) t = Some T" "ident t" "keys_ok (cols T)" "schema_ok (etables (m_db m))"
  using assms by (auto simp: sm_state_defs schema_ok_def)

lemma exec_frame:
  assumes "minv m" "einv e'" "esaved e' = esaved (m_db m)" "schema_ok (etables e')"
  shows "minv (m\<lparr>m_db := e'\<rparr>)" "msaved (m\<lparr>m_db := e'\<rparr>) = msaved m"
  using assms by (auto simp: sm_state_defs split: list.splits)

text \<open>Without a rollback of the library's own, a statement is executed or nothing changes.\<close>

lemma executed_or_unchanged:
  assumes "einv e" "db_exec E q e = (r, e')" "executed etables esaved r e e' ok"
  shows "esaved e' = esaved e \<and> outcome r ok (etables e' = etables e)"
  using assms no_automatic_rollback [of e q _ e']
  by (cases r) (auto simp: executed_def outcome_def failed_safely_def)

text \<open>A text that may be malformed: it fails, or the law of its statement applies.\<close>

lemma exec_text:
  assumes m: "minv m" and x: "sm_Execute E q m = (r, m')"
    and malformed: "scan q = None \<or> spells scan q s"
    and law: "\<And>e'. spells scan q s \<Longrightarrow> db_exec E q (m_db m) = (r, e') \<Longrightarrow>
      einv e' \<and> executed etables esaved r (m_db m) e' (Q (etables e'))"
    and schema: "\<And>ts. Q ts \<Longrightarrow> schema_ok ts"
  shows "minv m' \<and> msaved m' = msaved m \<and> outcome r (Q (mtables m')) (mtables m' = mtables m)"
proof -
  from x obtain e' where e': "db_exec E q (m_db m) = (r, e')" "m' = m\<lparr>m_db := e'\<rparr>" by (rule sm_Execute_cases)
  have einv: "einv (m_db m)" "schema_ok (etables (m_db m))" using m by (simp_all add: sm_state_defs)
  have L: "einv e' \<and> esaved e' = esaved (m_db m) \<and> outcome r (Q (etables e')) (etables e' = etables (m_db m))"
  proof (cases "scan q = None")
    case True
    then show ?thesis using exec_malformed [OF einv(1) _ e'(1)] by (auto simp: outcome_def)
  next
    case False
    with malformed law [OF _ e'(1)] executed_or_unchanged [OF einv(1) e'(1)] show ?thesis by blast
  qed
  then have "schema_ok (etables e')" using schema [of "etables e'"] einv(2) by (cases r) (auto simp: outcome_def)
  with L exec_frame [OF m, of e'] e'(2) show ?thesis by (simp add: sm_tables_def)
qed

end


context sqlite_engine
begin

lemma sm_CreateTable_law:
  assumes "minv m" "ident t" "keys_ok ks" "name_free (mtables m) t" "sm_CreateTable E t ks m = (r, m')"
  shows "minv m' \<and> msaved m' = msaved m \<and>
    outcome r (mtables m' = (if mtables m t = None then (mtables m)(t \<mapsto> \<lparr>cols = ks, trows = []\<rparr>) else mtables m))
      (mtables m' = mtables m)"
proof -
  let ?Q = "\<lambda>ts. ts = (if mtables m t = None then (mtables m)(t \<mapsto> \<lparr>cols = ks, trows = []\<rparr>) else mtables m)"
  have e: "einv (m_db m)" "schema_ok (mtables m)" using assms(1) by (simp_all add: sm_state_defs)
  show ?thesis
  proof (rule exec_text [OF assms(1) assms(5) [unfolded sm_CreateTable_def], where Q = ?Q])
    show "scan (create_text t ks) = None \<or> spells scan (create_text t ks) (SCreate t (cols_of ks) (pks_of ks))"
      using spells_create [OF assms(2,3)] by simp
    show "einv e' \<and> executed etables esaved r (m_db m) e' (?Q (etables e'))"
      if "spells scan (create_text t ks) (SCreate t (cols_of ks) (pks_of ks))"
        "db_exec E (create_text t ks) (m_db m) = (r, e')" for e'
      using create_law [OF e(1) that(1) assms(2) _ assms(4) [unfolded sm_tables_def] that(2),
          unfolded keys_of_written [OF assms(3)], OF assms(3)]
      by (simp only: sm_tables_def)
    show "schema_ok ts" if "?Q ts" for ts
      using that e(2) assms(2,3) by (simp add: schema_ok_upd split: if_splits)
  qed
qed

lemma sm_Insert_law:
  assumes "minv m" "mtables m t = Some T" "row_ok (cols T) fs" "sm_Insert E t fs m = (r, m')"
  shows "minv m' \<and> msaved m' = msaved m \<and>
    outcome r (row_admissible canon T fs \<and>
        (\<exists>i. (\<forall>x\<in>set (trows T). rowid x < i) \<and>
           mtables m' = (mtables m)(t \<mapsto> map_trows (\<lambda>rs. rs @ [new_row canon i fs]) T)))
      (mtables m' = mtables m)"
proof -
  note T = minv_table [OF assms(1,2)]
  note b = bind_row [OF T(4) assms(3)]
  have R: "scan (insert_text t fs) = None \<or> spells scan (insert_text t fs) (SInsert t (map Name fs) (map val_of fs))"
    using assms(3) row_named [OF T(4) assms(3)] T(3) by (simp add: spells_insert scan_insert row_ok_def)
  show ?thesis
  proof (rule exec_text [OF assms(1) assms(4) [unfolded sm_Insert_def], where s = "SInsert t (map Name fs) (map val_of fs)"])
    show "scan (insert_text t fs) = None \<or> spells scan (insert_text t fs) (SInsert t (map Name fs) (map val_of fs))"
      by (rule R)
    show "einv e' \<and>
        executed etables esaved r (m_db m) e' (row_admissible canon T fs \<and> (\<exists>i. (\<forall>x\<in>set (trows T). rowid x < i) \<and>
          etables e' = (mtables m)(t \<mapsto> map_trows (\<lambda>rs. rs @ [new_row canon i fs]) T)))"
      if "spells scan (insert_text t fs) (SInsert t (map Name fs) (map val_of fs))"
        "db_exec E (insert_text t fs) (m_db m) = (r, e')" for e'
      using insert_law [OF T(1) that(1) T(2) _ _ that(2)] b assms(3) by (simp add: zip_assigns sm_tables_def)
    show "schema_ok ts" if "row_admissible canon T fs \<and> (\<exists>i. (\<forall>x\<in>set (trows T). rowid x < i) \<and>
        ts = (mtables m)(t \<mapsto> map_trows (\<lambda>rs. rs @ [new_row canon i fs]) T))" for ts
      using that T(3,4,5) by (auto simp: sm_tables_def intro!: schema_ok_upd)
  qed
qed

lemma sm_Update_law:
  assumes "minv m" "mtables m t = Some T" "row_ok (cols T) fs" "crits_ok (cols T) cs"
    "sm_Update E t fs cs op m = (r, m')"
  shows "minv m' \<and> msaved m' = msaved m \<and>
    outcome r (mtables m' = (mtables m)(t \<mapsto>
        map_trows (map (\<lambda>x. if row_matches canon op cs x then upd_row canon fs x else x)) T))
      (mtables m' = mtables m)"
proof -
  note T = minv_table [OF assms(1,2)]
  let ?s = "SUpdate t (assigns_of fs) (where_of cs op)"
  let ?Q = "\<lambda>ts. ts = (mtables m)(t \<mapsto>
    map_trows (map (\<lambda>x. if row_matches canon op cs x then upd_row canon fs x else x)) T)"
  have R: "scan (update_text t fs cs op) = None \<or> spells scan (update_text t fs cs op) ?s" and ne: "fs \<noteq> []"
    using assms(3) row_named [OF T(4) assms(3)] crits_named [OF T(4) assms(4)] T(3)
    by (auto simp: spells_update scan_update row_ok_def)
  from assms(5) ne have x: "sm_Execute E (update_text t fs cs op) m = (r, m')" by (simp add: sm_Update_def)
  show ?thesis
  proof (rule exec_text [OF assms(1) x, where s = ?s and Q = ?Q])
    show "scan (update_text t fs cs op) = None \<or> spells scan (update_text t fs cs op) ?s" by (rule R)
    show "einv e' \<and> executed etables esaved r (m_db m) e' (?Q (etables e'))"
      if "spells scan (update_text t fs cs op) ?s" "db_exec E (update_text t fs cs op) (m_db m) = (r, e')" for e'
      using update_law [OF T(1) that(1) [unfolded where_of_def] T(2) _ _ _ _ that(2)] assms(3,4)
        bind_row [OF T(4) assms(3)] bind_crits [OF T(4) assms(4)]
      by (simp add: row_matches_where sm_tables_def cong: if_cong)
    show "schema_ok ts" if "?Q ts" for ts
      using that T(3,4,5) by (auto simp: sm_tables_def intro!: schema_ok_upd)
  qed
qed

lemma sm_Remove_law:
  assumes "minv m" "mtables m t = Some T" "crits_ok (cols T) cs" "sm_Remove E t cs op m = (r, m')"
  shows "minv m' \<and> msaved m' = msaved m \<and>
    outcome r (mtables m' = (mtables m)(t \<mapsto> map_trows (filter (\<lambda>x. \<not> row_matches canon op cs x)) T))
      (mtables m' = mtables m)"
proof -
  note T = minv_table [OF assms(1,2)]
  let ?s = "SDelete t (where_of cs op)"
  let ?Q = "\<lambda>ts. ts = (mtables m)(t \<mapsto> map_trows (filter (\<lambda>x. \<not> row_matches canon op cs x)) T)"
  have R: "scan (remove_text t cs op) = None \<or> spells scan (remove_text t cs op) ?s"
    using crits_named [OF T(4) assms(3)] T(3) by (simp add: spells_remove scan_remove)
  show ?thesis
  proof (rule exec_text [OF assms(1) assms(4) [unfolded sm_Remove_def], where s = ?s and Q = ?Q])
    show "scan (remove_text t cs op) = None \<or> spells scan (remove_text t cs op) ?s" by (rule R)
    show "einv e' \<and> executed etables esaved r (m_db m) e' (?Q (etables e'))"
      if "spells scan (remove_text t cs op) ?s" "db_exec E (remove_text t cs op) (m_db m) = (r, e')" for e'
      using delete_law [OF T(1) that(1) [unfolded where_of_def] T(2) _ _ that(2)] assms(3)
        bind_crits [OF T(4) assms(3)]
      by (simp add: row_matches_where sm_tables_def)
    show "schema_ok ts" if "?Q ts" for ts
      using that T(3,4,5) by (auto simp: sm_tables_def intro!: schema_ok_upd)
  qed
qed

lemma sm_DropTable_law:
  assumes "minv m" "mtables m t \<noteq> None" "sm_DropTable E t m = (r, m')"
  shows "minv m' \<and> msaved m' = msaved m \<and>
    outcome r (mtables m' = (mtables m)(t := None)) (mtables m' = mtables m)"
proof -
  from assms(2) obtain T where T: "mtables m t = Some T" by blast
  note T = minv_table [OF assms(1) this]
  show ?thesis
  proof (rule exec_text [OF assms(1) assms(3) [unfolded sm_DropTable_def], where Q = "\<lambda>ts. ts = (mtables m)(t := None)"])
    show "scan (drop_text t) = None \<or> spells scan (drop_text t) (SDrop t)" using spells_drop [OF T(3)] by simp
    show "einv e' \<and> executed etables esaved r (m_db m) e' (etables e' = (mtables m)(t := None))"
      if "spells scan (drop_text t) (SDrop t)" "db_exec E (drop_text t) (m_db m) = (r, e')" for e'
      using drop_law [OF T(1) that(1) _ that(2)] T(2) by (simp add: sm_tables_def)
    show "schema_ok ts" if "ts = (mtables m)(t := None)" for ts
      using that T(5) by (simp add: sm_tables_def schema_ok_del)
  qed
qed

end


context sqlite_engine
begin

text \<open>A query either fails or has a readable text.\<close>

lemma query_scanned: "einv e \<Longrightarrow> db_query E q e = Ok rows \<Longrightarrow> scan q \<noteq> None"
  using query_malformed [of e q] by auto

lemma sm_Select_spells:
  assumes "minv m" "mtables m t = Some T" "flds_ok (cols T) flds" "crits_ok (cols T) cs"
    "list_all (\<lambda>c. ident (Name c)) os"
    "db_query E (select_text t flds cs op os d n) (m_db m) = Ok rows"
  shows "spells scan (select_text t flds cs op os d n)
    (SSelect (map Name flds) t (where_op cs op, assigns_of cs) (map Name os)
      (if os = [] then ASC else d) (if n > 0 then n else 0))"
proof -
  note T = minv_table [OF assms(1,2)]
  note a = T(3) flds_named(1) [OF T(4) assms(3)] crits_named [OF T(4) assms(4)] assms(5)
  from query_scanned [OF T(1) assms(6)] show ?thesis
    using scan_select [OF a, of op d n] spells_select [OF a] by (simp add: where_of_def split: if_splits)
qed

lemma sm_Select_rowid_law:
  assumes "minv m" "mtables m t = Some T" "flds_ok (cols T) flds" "crits_ok (cols T) cs" "Name c = ''rowid''"
    "sm_Select E t flds cs op [c] ASC n m = Ok rs"
  shows "rs = map (project T flds) (limit_rows n (sel canon op cs T))"
proof -
  note T = minv_table [OF assms(1,2)]
  from assms(6) obtain rows where q: "db_query E (select_text t flds cs op [c] ASC n) (m_db m) = Ok rows"
    and rs: "rs = map (map row_value) rows" by (cases "db_query E (select_text t flds cs op [c] ASC n) (m_db m)") (auto simp: sm_Select_def)
  from ident_rowid assms(5) have "spells scan (select_text t flds cs op [c] ASC n)
      (SSelect (map Name flds) t (where_op cs op, assigns_of cs) [''rowid''] ASC (if n > 0 then n else 0))"
    using sm_Select_spells [OF assms(1-4) _ q] by simp
  from select_rowid_law [OF T(1) this T(2) flds_named(2) [OF T(4) assms(3)] bind_crits(2) [OF T(4) assms(4)] _ q]
  have "map shown rows = map (result_row T (map Name flds)) (limit_rows n (sel canon op cs T))"
    using assms(4) bind_crits(1) [OF T(4) assms(4)] by (simp add: row_matches_where limit_rows_def split: if_splits)
  from rows_shown [OF this] rs show ?thesis by simp
qed

lemma sm_Select_law:
  assumes "minv m" "mtables m t = Some T" "flds_ok (cols T) flds" "crits_ok (cols T) cs"
    "sm_Select E t flds cs op [] d n m = Ok rs" "n \<le> 0"
  shows "mset rs = mset (map (project T flds) (sel canon op cs T))"
proof -
  note T = minv_table [OF assms(1,2)]
  from assms(5) obtain rows where q: "db_query E (select_text t flds cs op [] d n) (m_db m) = Ok rows"
    and rs: "rs = map (map row_value) rows" by (cases "db_query E (select_text t flds cs op [] d n) (m_db m)") (auto simp: sm_Select_def)
  have "spells scan (select_text t flds cs op [] d n)
      (SSelect (map Name flds) t (where_op cs op, assigns_of cs) [] ASC 0)"
    using sm_Select_spells [OF assms(1-4) _ q] assms(6) by simp
  from select_law [OF T(1) this T(2) flds_named(2) [OF T(4) assms(3)] bind_crits(2) [OF T(4) assms(4)] _ q]
  have "mset (map shown rows) = mset (map (result_row T (map Name flds)) (sel canon op cs T))"
    unfolding bind_crits(1) [OF T(4) assms(4)] row_matches_where using assms(4) by blast
  from rows_shown_mset [OF this] rs show ?thesis by simp
qed

lemma sm_GetCount_law:
  assumes "minv m" "mtables m t = Some T" "crits_ok (cols T) cs" "sm_GetCount E t cs op m = Ok n"
  shows "n = as_int32 (int (length (sel canon op cs T)))"
proof -
  note T = minv_table [OF assms(1,2)]
  from assms(4) obtain rows where q: "db_query E (count_text t cs op) (m_db m) = Ok rows"
    and n: "n = (case rows of (c # _) # _ \<Rightarrow> getInt c | _ \<Rightarrow> 0)"
    by (cases "db_query E (count_text t cs op) (m_db m)") (auto simp: sm_GetCount_def)
  note a = T(3) crits_named [OF T(4) assms(3)]
  have "spells scan (count_text t cs op) (SCount t (where_op cs op, assigns_of cs))"
    using query_scanned [OF T(1) q] scan_count [OF a, of op] spells_count [OF a] by (simp add: where_of_def split: if_splits)
  from count_law [OF T(1) this T(2) bind_crits(2) [OF T(4) assms(3)] _ q, unfolded bind_crits(1) [OF T(4) assms(3)] row_matches_where, OF assms(3)]
  show ?thesis using n by auto
qed

lemma sm_GetSize_law:
  assumes "minv m" "mtables m t = Some T" "flds \<noteq> []" "flds_ok (cols T) flds" "crits_ok (cols T) cs"
    "sm_GetSize E t flds cs op m = Ok n"
  shows "n = as_uint32 (sum_list (map (row_size flds) (sel canon op cs T)))"
proof -
  note T = minv_table [OF assms(1,2)]
  from assms(3,6) obtain rows where q: "db_query E (size_text t flds cs op) (m_db m) = Ok rows"
    and n: "n = (case rows of (c # _) # _ \<Rightarrow> getUInt c | _ \<Rightarrow> 0)"
    by (cases "db_query E (size_text t flds cs op) (m_db m)") (auto simp: sm_GetSize_def)
  note a = T(3) assms(3) flds_named(1) [OF T(4) assms(4)] crits_named [OF T(4) assms(5)]
  have r: "spells scan (size_text t flds cs op) (SSize (map Name flds) t (where_op cs op, assigns_of cs))"
    using query_scanned [OF T(1) q] scan_size [OF a, of op] spells_size [OF a] by (simp add: where_of_def split: if_splits)
  have "row_size (named (map Name flds)) = row_size flds" by (simp add: row_size_def fun_eq_iff list.pred_map o_def)
  with size_law [OF T(1) r T(2) _ flds_named(2) [OF T(4) assms(4)] bind_crits(2) [OF T(4) assms(5)] _ q,
      unfolded bind_crits(1) [OF T(4) assms(5)] row_matches_where] assms(3,5)
  show ?thesis using n by auto
qed

lemma sm_TableExists_law:
  assumes "minv m" "ident t" "sm_TableExists E t m"
  shows "mtables m t \<noteq> None"
  using assms exists_law [of "m_db m" "exists_text t" t] spells_exists [OF assms(2)]
  by (auto simp: sm_TableExists_def sm_state_defs split: result.splits)

lemma sm_Begin_law:
  assumes "minv m" "sm_BeginTransaction E m = (b, m')"
  shows "minv m' \<and> mtables m' = mtables m \<and>
    (case b of Ok k \<Rightarrow> msaved m = None \<and> msaved m' = Some (k, mtables m)
     | Throw _ \<Rightarrow> msaved m' = msaved m | Terminate \<Rightarrow> False)"
proof -
  obtain r e' where b: "db_begin E (m_db m) = (r, e')" by fastforce
  have "einv (m_db m)" using assms(1) by (simp add: sm_inv_def)
  note L = begin_law [OF this b]
  show ?thesis using L assms b
    by (cases r) (auto simp: sm_BeginTransaction_def sm_state_defs outcome_def Let_def split: list.splits if_splits)
qed

lemma sm_Commit_law:
  assumes "minv m" "sm_CommitTransaction E k m = (r, m')"
  shows "minv m' \<and> mtables m' = mtables m \<and>
    (case r of Ok _ \<Rightarrow> msaved m' = None | Throw _ \<Rightarrow> msaved m' = msaved m | Terminate \<Rightarrow> False)"
proof -
  obtain r' e' where b: "db_commit E (m_db m) = (r', e')" by fastforce
  have "einv (m_db m)" using assms(1) by (simp add: sm_inv_def)
  note L = commit_law [OF this b] and stays = no_rollback_by_commit [OF this, of _ e']
  have "etables e' = etables (m_db m) \<and> outcome r' (esaved e' = None) (esaved e' = esaved (m_db m))"
    using L stays b by (cases r') (auto simp: outcome_def failed_safely_def)
  with L show ?thesis using assms b
    by (cases r')
       (auto simp: sm_CommitTransaction_def sm_end_def sm_state_defs outcome_def Let_def length_Suc_conv
          split: list.splits if_splits)
qed

lemma sm_Rollback_law:
  assumes "minv m" "sm_RollbackTransaction E k m = (r, m')"
  shows "minv m' \<and>
    (case r of Ok _ \<Rightarrow> msaved m' = None \<and> (\<exists>ts. msaved m = Some (k, ts) \<and> mtables m' = ts)
     | Throw _ \<Rightarrow> msaved m' = msaved m \<and> mtables m' = mtables m | Terminate \<Rightarrow> False)"
proof (cases "k \<in> set (m_transactions m)")
  case False
  then show ?thesis using assms by (auto simp: sm_RollbackTransaction_def sm_end_def)
next
  case True
  obtain r' e' where b: "db_rollback E (m_db m) = (r', e')" by fastforce
  from True assms(1) obtain ts where ts: "esaved (m_db m) = Some ts" "m_transactions m = [k]"
    by (auto simp: sm_inv_def length_Suc_conv split: if_splits)
  have "einv (m_db m)" using assms(1) by (simp add: sm_inv_def)
  note L = rollback_law [OF this ts(1) b]
  show ?thesis using L assms b ts
    by (cases r') (auto simp: sm_RollbackTransaction_def sm_end_def sm_state_defs outcome_def Let_def)
qed

end


lemma sqlite_persistence_sel [simp]:
  "TableExists (sqlite_persistence E) = sm_TableExists E" "CreateTable (sqlite_persistence E) = sm_CreateTable E"
  "Insert (sqlite_persistence E) = sm_Insert E" "Update (sqlite_persistence E) = sm_Update E"
  "Remove (sqlite_persistence E) = sm_Remove E" "DropTable (sqlite_persistence E) = sm_DropTable E"
  "Select (sqlite_persistence E) = sm_Select E" "GetCount (sqlite_persistence E) = sm_GetCount E"
  "GetSize (sqlite_persistence E) = sm_GetSize E" "BeginTransaction (sqlite_persistence E) = sm_BeginTransaction E"
  "CommitTransaction (sqlite_persistence E) = sm_CommitTransaction E"
  "RollbackTransaction (sqlite_persistence E) = sm_RollbackTransaction E"
  by (simp_all add: sqlite_persistence_def)

context sqlite_engine
begin

lemmas operation_laws = sm_CreateTable_law sm_Insert_law sm_Update_law sm_Remove_law sm_DropTable_law
  sm_Select_rowid_law sm_Select_law sm_GetCount_law sm_GetSize_law sm_Begin_law sm_Commit_law sm_Rollback_law

lemma manager_laws: "persistence_laws (sqlite_persistence E) mtables msaved canon minv"
proof
  show "canon TEXT v = v" "canon INTEGER (dec_int i) = dec_int i" for v i
    by (rule canon_text canon_integer)+
  show "sorted_wrt (<) (map rowid (trows T))" "keys_unique T" if "minv m" "mtables m t = Some T" for m t T
    using rowids_ascend table_keys minv_table [OF that] by blast+
  show "names_apart (mtables m)" if "minv m" for m
    using that table_names by (simp add: sm_state_defs)
  show "mtables m t \<noteq> None" if "minv m" "ident t" "TableExists (sqlite_persistence E) t m" for m t
    using sm_TableExists_law that by simp
  show "Select (sqlite_persistence E) t flds cs op os ord n m \<noteq> Terminate"
    "GetCount (sqlite_persistence E) t cs op m \<noteq> Terminate" if "minv m" for m t flds cs op os ord n
    using that query_returns by (simp_all add: sm_Select_def sm_GetCount_def sm_inv_def)
  show "GetSize (sqlite_persistence E) t flds cs op m \<noteq> Terminate" if "minv m" "flds \<noteq> []" for m t flds cs op
    using that query_returns by (simp add: sm_GetSize_def sm_inv_def)
qed (unfold sqlite_persistence_sel,
    (rule operation_laws [unfolded outcome_def]; assumption)+)

end


sublocale sqlite_engine \<subseteq> manager: persistence_laws "sqlite_persistence E" "sm_tables etables" "sm_saved esaved"
  canon "sm_inv etables esaved einv"
  by (rule manager_laws)

lemma fst_sm_Execute [simp]: "fst (sm_Execute E q m) = fst (db_exec E q (m_db m))"
  by (simp add: sm_Execute_def split: prod.splits)

lemma executable_simps:
  "executable canon ts (SCreate t ks pks) \<longleftrightarrow> ident t \<and> keys_ok (keys_of ks pks)"
  "ts t = Some T \<Longrightarrow> executable canon ts (SInsert t ns vs) \<longleftrightarrow>
     typed_vals (cols T) (zip ns vs) \<and> row_ok (cols T) (bind_vals (cols T) (zip ns vs)) \<and>
     row_admissible canon T (bind_vals (cols T) (zip ns vs))"
  "ts t = Some T \<Longrightarrow> executable canon ts (SUpdate t as (op, ws)) \<longleftrightarrow>
     typed_vals (cols T) as \<and> row_ok (cols T) (bind_vals (cols T) as) \<and>
     typed_vals (cols T) ws \<and> crits_ok (cols T) (bind_vals (cols T) ws) \<and>
     set (map fst as) \<inter> set (key_cols T) = {}"
  "ts t = Some T \<Longrightarrow> executable canon ts (SDelete t (op, ws)) \<longleftrightarrow>
     typed_vals (cols T) ws \<and> crits_ok (cols T) (bind_vals (cols T) ws)"
  "ts t = Some T \<Longrightarrow> flds_ok (cols T) (named ns) \<Longrightarrow> typed_vals (cols T) ws \<Longrightarrow>
     crits_ok (cols T) (bind_vals (cols T) ws) \<Longrightarrow> list_all (\<lambda>n. n = ''rowid'') os \<Longrightarrow>
     executable canon ts (SSelect ns t (op, ws) os d n)"
  "executable canon ts (SSelect ns ''sqlite_master'' (op, [(''type'', v), (''name'', w)]) os d n)"
  "ts t = Some T \<Longrightarrow> executable canon ts (SCount t (op, ws)) \<longleftrightarrow>
     typed_vals (cols T) ws \<and> crits_ok (cols T) (bind_vals (cols T) ws)"
  "ts t = Some T \<Longrightarrow> executable canon ts (SSize ns t (op, ws)) \<longleftrightarrow>
     ns \<noteq> [] \<and> flds_ok (cols T) (named ns) \<and> typed_vals (cols T) ws \<and> crits_ok (cols T) (bind_vals (cols T) ws)"
  by (simp_all add: executable_def)

context reliable_engine
begin

lemma minv_einv: "minv m \<Longrightarrow> einv (m_db m)"
  by (simp add: sm_inv_def)

lemma sm_Insert_ok:
  assumes "minv m" "mtables m t = Some T" "row_ok (cols T) fs" "row_admissible canon T fs" "nul_free fs"
  shows "fst (sm_Insert E t fs m) = Ok ()"
proof -
  note T = minv_table [OF assms(1,2)]
  have "spells scan (insert_text t fs) (SInsert t (map Name fs) (map val_of fs))"
    using assms(3) row_named [OF T(4) assms(3)] T(3) texts_ok_nul_free [OF assms(5)] by (simp add: spells_insert row_ok_def)
  from exec_ok [OF T(1) this] show ?thesis
    using executable_simps(2) [where ts = "etables (m_db m)", OF T(2)] bind_row [OF T(4) assms(3)] assms(3,4) by (simp add: sm_Insert_def zip_assigns)
qed

lemma sm_Update_ok:
  assumes "minv m" "mtables m t = Some T" "row_ok (cols T) fs" "crits_ok (cols T) cs" "nul_free fs" "nul_free cs"
    "set (map Name fs) \<inter> set (key_cols T) = {}"
  shows "fst (sm_Update E t fs cs op m) = Ok ()"
proof -
  note T = minv_table [OF assms(1,2)]
  have "spells scan (update_text t fs cs op) (SUpdate t (assigns_of fs) (where_op cs op, assigns_of cs))"
    using assms(3) row_named [OF T(4) assms(3)] crits_named [OF T(4) assms(4)] T(3)
      texts_ok_nul_free [OF assms(5)] texts_ok_nul_free [OF assms(6)] by (simp add: spells_update row_ok_def where_of_def)
  moreover have "set (map fst (assigns_of fs)) \<inter> set (key_cols T) = {}" using assms(7) by (simp add: assigns_of_def o_def image_image)
  ultimately have "fst (db_exec E (update_text t fs cs op) (m_db m)) = Ok ()"
    using exec_ok [OF T(1), of "update_text t fs cs op"] executable_simps(3) [where ts = "etables (m_db m)", OF T(2)]
      bind_row [OF T(4) assms(3)] bind_crits [OF T(4) assms(4)] assms(3,4) by simp
  moreover have "fs \<noteq> []" using assms(3) by (simp add: row_ok_def)
  ultimately show ?thesis by (simp add: sm_Update_def)
qed

lemma sm_Remove_ok:
  assumes "minv m" "mtables m t = Some T" "crits_ok (cols T) cs" "nul_free cs"
  shows "fst (sm_Remove E t cs op m) = Ok ()"
proof -
  note T = minv_table [OF assms(1,2)]
  have "spells scan (remove_text t cs op) (SDelete t (where_op cs op, assigns_of cs))"
    using crits_named [OF T(4) assms(3)] T(3) texts_ok_nul_free [OF assms(4)] by (simp add: spells_remove where_of_def)
  from exec_ok [OF T(1) this] show ?thesis
    using executable_simps(4) [where ts = "etables (m_db m)", OF T(2)] bind_crits [OF T(4) assms(3)] assms(3) by (simp add: sm_Remove_def)
qed

lemma sm_Select_ok:
  assumes "minv m" "mtables m t = Some T" "flds_ok (cols T) flds" "crits_ok (cols T) cs"
    "list_all (\<lambda>c. Name c = ''rowid'') os" "nul_free cs"
  shows "is_ok (sm_Select E t flds cs op os d n m)"
proof -
  note T = minv_table [OF assms(1,2)]
  have os: "list_all (\<lambda>c. ident (Name c)) os" using assms(5) ident_rowid by (auto simp: list_all_iff)
  note b = bind_crits [OF T(4) assms(4)]
  have r: "spells scan (select_text t flds cs op os d n)
      (SSelect (map Name flds) t (where_op cs op, assigns_of cs) (map Name os)
        (if os = [] then ASC else d) (if n > 0 then n else 0))"
    using spells_select [OF T(3) flds_named(1) [OF T(4) assms(3)] crits_named [OF T(4) assms(4)] os]
      texts_ok_nul_free [OF assms(6)] by (simp add: where_of_def)
  have "list_all (\<lambda>n. n = ''rowid'') (map Name os)" using assms(5) by (simp add: list_all_iff)
  from query_ok [OF T(1) r executable_simps(5) [where ts = "etables (m_db m)", OF T(2) flds_named(2) [OF T(4) assms(3)] b(2) _ this]]
  show ?thesis using b(1) assms(4) by (auto simp: sm_Select_def)
qed

lemma sm_GetCount_ok:
  assumes "minv m" "mtables m t = Some T" "crits_ok (cols T) cs" "nul_free cs"
  shows "is_ok (sm_GetCount E t cs op m)"
proof -
  note T = minv_table [OF assms(1,2)]
  have r: "spells scan (count_text t cs op) (SCount t (where_op cs op, assigns_of cs))"
    using crits_named [OF T(4) assms(3)] T(3) texts_ok_nul_free [OF assms(4)] by (simp add: spells_count where_of_def)
  from query_ok [OF T(1) r] show ?thesis
    using executable_simps(7) [where ts = "etables (m_db m)", OF T(2)] bind_crits [OF T(4) assms(3)] assms(3) by (auto simp: sm_GetCount_def)
qed

lemma sm_GetSize_ok:
  assumes "minv m" "mtables m t = Some T" "flds \<noteq> []" "flds_ok (cols T) flds" "crits_ok (cols T) cs" "nul_free cs"
  shows "is_ok (sm_GetSize E t flds cs op m)"
proof -
  note T = minv_table [OF assms(1,2)]
  have r: "spells scan (size_text t flds cs op) (SSize (map Name flds) t (where_op cs op, assigns_of cs))"
    using spells_size [OF T(3) assms(3) flds_named(1) [OF T(4) assms(4)] crits_named [OF T(4) assms(5)]]
      texts_ok_nul_free [OF assms(6)] by (simp add: where_of_def)
  have "executable canon (etables (m_db m)) (SSize (map Name flds) t (where_op cs op, assigns_of cs))"
    unfolding executable_simps(8) [where ts = "etables (m_db m)", OF T(2)]
    using bind_crits [OF T(4) assms(5)] flds_named(2) [OF T(4) assms(4)] assms(3,5) by simp
  from query_ok [OF T(1) r this] show ?thesis using assms(3) by (auto simp: sm_GetSize_def)
qed

end


context reliable_engine
begin

lemmas reliable_operations = sm_Insert_ok sm_Update_ok sm_Remove_ok sm_Select_ok sm_GetCount_ok sm_GetSize_ok

lemma manager_reliable: "reliable_persistence (sqlite_persistence E) mtables msaved canon minv"
proof (intro reliable_persistence.intro manager_laws reliable_persistence_axioms.intro)
  show "is_ok (fst (BeginTransaction (sqlite_persistence E) m))" if "minv m" "msaved m = None" for m
  proof -
    have "esaved (m_db m) = None" using that by (auto simp: sm_inv_def sm_saved_def split: if_splits list.splits)
    from begin_ok [OF minv_einv [OF that(1)] this] show ?thesis
      by (auto simp: sm_BeginTransaction_def Let_def split: prod.splits)
  qed
  show "fst (CommitTransaction (sqlite_persistence E) k m) = Ok ()" if "minv m" "msaved m = Some (k, ts)" for m k ts
  proof -
    have "esaved (m_db m) \<noteq> None" "k \<in> set (m_transactions m)"
      using that by (auto simp: sm_inv_def sm_saved_def split: if_splits list.splits)
    with commit_ok [OF minv_einv [OF that(1)]] show ?thesis
      by (auto simp: sm_CommitTransaction_def sm_end_def Let_def split: prod.splits)
  qed
  show "fst (CreateTable (sqlite_persistence E) t ks m) = Ok ()" if "minv m" "ident t" "keys_ok ks" for m t ks
    using exec_ok [OF minv_einv [OF that(1)], of "create_text t ks"] spells_create [OF that(2,3)] that
    by (simp add: executable_simps(1) keys_of_written sm_CreateTable_def)
  show "TableExists (sqlite_persistence E) t m" if "minv m" "ident t" "mtables m t \<noteq> None" for m t
  proof -
    have sp: "spells scan (exists_text t)
        (SSelect [''name''] ''sqlite_master'' (AND, [(''type'', VText ''table''), (''name'', VText t)]) [] ASC 0)"
      using spells_exists [OF that(2)] by simp
    from query_ok [OF minv_einv [OF that(1)] sp executable_simps(6)] obtain rows where q: "db_query E (exists_text t) (m_db m) = Ok rows" by auto
    from exists_law [OF minv_einv [OF that(1)] sp that(2) q] that(3) q
    show ?thesis by (simp add: sm_TableExists_def sm_tables_def)
  qed
qed (unfold sqlite_persistence_sel, (rule reliable_operations; assumption)+)

end


sublocale reliable_engine \<subseteq> manager: reliable_persistence "sqlite_persistence E" "sm_tables etables"
  "sm_saved esaved" canon "sm_inv etables esaved einv"
  by (rule manager_reliable)


subsection \<open>A library that satisfies the contract\<close>

text \<open>The statement that a text spells, if it spells one.\<close>

definition read_stmt :: "tok list \<Rightarrow> stmt option" where
  "read_stmt ts =
     (case sql_parse ts of
        Some s \<Rightarrow> if stmt_ok s \<and> stmt_toks s = ts then Some s else None
      | None \<Rightarrow> None)"

definition sql_read :: "string \<Rightarrow> stmt option" where
  "sql_read q =
     (case sql_lex q of
        None \<Rightarrow> None
      | Some ts \<Rightarrow> read_stmt (if ts \<noteq> [] \<and> last ts = semicolon then butlast ts else ts))"

definition ref_exec :: "string \<Rightarrow> mem_db \<Rightarrow> unit result \<times> mem_db" where
  "ref_exec q d =
     (case sql_read q of
        None \<Rightarrow> (Throw ''syntax error'', d)
      | Some (SCreate t cs pks) \<Rightarrow>
          if ident t then CreateTable mem_persistence t (keys_of cs pks) d else (Throw ''syntax error'', d)
      | Some (SInsert t ns vs) \<Rightarrow>
          mem_on_table t (\<lambda>T. mem_insert (bind_vals (cols T) (zip ns vs)) T) d
      | Some (SUpdate t as (op, ws)) \<Rightarrow>
          mem_on_table t (\<lambda>T. mem_update (bind_vals (cols T) as) (bind_vals (cols T) ws) op T) d
      | Some (SDelete t (op, ws)) \<Rightarrow> mem_on_table t (\<lambda>T. mem_remove (bind_vals (cols T) ws) op T) d
      | Some (SDrop t) \<Rightarrow> DropTable mem_persistence t d
      | Some _ \<Rightarrow> (Ok (), d))"

definition qcol_of :: "string \<times> int \<times> string \<Rightarrow> qcol" where
  "qcol_of = (\<lambda>(n, ty, v). \<lparr>getName = n, getType = ty, getString = v, getInt = 0, getUInt = 0\<rparr>)"

definition number_col :: "int \<Rightarrow> nat \<Rightarrow> qcol" where
  "number_col i n = \<lparr>getName = [], getType = SQLITE_INTEGER, getString = dec_int i, getInt = i, getUInt = n\<rparr>"

definition ref_query :: "string \<Rightarrow> mem_db \<Rightarrow> qcol list list result" where
  "ref_query q d =
     (case sql_read q of
        Some (SSelect ns t (op, ws) os _ n) \<Rightarrow>
          if t = ''sqlite_master'' then
            Ok (case map_of ws ''name'' of
                  Some v \<Rightarrow> if m_tables d (text_of v) = None then [] else [[qcol_of (''name'', SQLITE_TEXT, text_of v)]]
                | None \<Rightarrow> [])
          else mem_query t (\<lambda>T. map (map qcol_of \<circ> result_row T ns)
                 (limit_rows n (sel mem_canon op (bind_vals (cols T) ws) T))) d
      | Some (SCount t (op, ws)) \<Rightarrow>
          mem_query t (\<lambda>T. [[number_col (as_int32 (int (length (sel mem_canon op (bind_vals (cols T) ws) T)))) 0]]) d
      | Some (SSize ns t (op, ws)) \<Rightarrow>
          mem_query t (\<lambda>T. [[number_col 0
            (as_uint32 (sum_list (map (row_size (named ns)) (sel mem_canon op (bind_vals (cols T) ws) T))))]]) d
      | _ \<Rightarrow> Throw ''syntax error'')"

definition ref_begin :: "mem_db \<Rightarrow> unit result \<times> mem_db" where
  "ref_begin d =
     (if m_saved d = None then (Ok (), d\<lparr>m_saved := Some (0, m_tables d)\<rparr>)
      else (Throw ''cannot start a transaction within a transaction'', d))"

definition ref_commit :: "mem_db \<Rightarrow> unit result \<times> mem_db" where
  "ref_commit d =
     (if m_saved d = None then (Throw ''no transaction is active'', d) else (Ok (), d\<lparr>m_saved := None\<rparr>))"

definition ref_rollback :: "mem_db \<Rightarrow> unit result \<times> mem_db" where
  "ref_rollback d =
     (case m_saved d of
        None \<Rightarrow> (Throw ''no transaction is active'', d)
      | Some (_, ts) \<Rightarrow> (Ok (), d\<lparr>m_saved := None, m_tables := ts\<rparr>))"

definition ref_engine :: "mem_db sqlite" where
  "ref_engine =
     \<lparr>db_exec = ref_exec, db_query = ref_query, db_begin = ref_begin, db_commit = ref_commit,
      db_rollback = ref_rollback\<rparr>"

definition ref_saved :: "mem_db \<Rightarrow> (string \<Rightarrow> table option) option" where
  "ref_saved d = map_option snd (m_saved d)"

definition ref_inv :: "mem_db \<Rightarrow> bool" where
  "ref_inv d \<longleftrightarrow> mem_inv d \<and> m_tables d ''sqlite_master'' = None \<and>
     (\<forall>k ts. m_saved d = Some (k, ts) \<longrightarrow> ts ''sqlite_master'' = None)"

lemma ref_engine_sel [simp]:
  "db_exec ref_engine = ref_exec" "db_query ref_engine = ref_query" "db_begin ref_engine = ref_begin"
  "db_commit ref_engine = ref_commit" "db_rollback ref_engine = ref_rollback"
  by (simp_all add: ref_engine_def)

lemma shown_qcol_of [simp]: "shown (map qcol_of xs) = xs"
  by (simp add: shown_def qcol_of_def o_def case_prod_beta)

lemma mem_on_table_eq: "m_tables d t = Some T \<Longrightarrow> mem_on_table t f d = mem_on_table t g d" if "f T = g T"
  using that by (simp add: mem_on_table_def)

lemma ref_inv_frame:
  assumes "ref_inv d" "mem_inv d'" "m_saved d' = m_saved d" "m_tables d' ''sqlite_master'' = None"
  shows "ref_inv d'"
  using assms by (simp add: ref_inv_def)

text \<open>The statement's operation is one of the contract's, so the laws carry over.\<close>

lemma ref_outcome:
  assumes "ref_inv d"
    and "mem_inv d' \<and> m_saved d' = m_saved d \<and>
      (case r of Ok _ \<Rightarrow> Q | Throw _ \<Rightarrow> m_tables d' = m_tables d | Terminate \<Rightarrow> False)"
    and "Q \<Longrightarrow> m_tables d' ''sqlite_master'' = None"
  shows "ref_inv d' \<and> ref_saved d' = ref_saved d \<and> outcome r Q (m_tables d' = m_tables d)"
proof -
  have "m_tables d' ''sqlite_master'' = None"
    using assms by (cases r) (auto simp: ref_inv_def)
  then show ?thesis using assms(2) ref_inv_frame [OF assms(1), of d'] by (simp add: outcome_def ref_saved_def)
qed

lemma ref_on_table:
  assumes "ref_inv d" "m_tables d t = Some T"
    and "mem_inv d' \<and> m_saved d' = m_saved d \<and>
      (case r of Ok _ \<Rightarrow> Q | Throw _ \<Rightarrow> m_tables d' = m_tables d | Terminate \<Rightarrow> False)"
    and "Q \<Longrightarrow> \<exists>T'. m_tables d' = (m_tables d)(t \<mapsto> T')"
  shows "ref_inv d' \<and> ref_saved d' = ref_saved d \<and> outcome r Q (m_tables d' = m_tables d)"
  using assms(1,2) by (intro ref_outcome [OF assms(1,3)]) (auto dest!: assms(4) simp: ref_inv_def)

lemma ref_mem: "ref_inv d \<Longrightarrow> mem_inv d"
  by (simp add: ref_inv_def)

lemma sql_read_spells: "spells sql_lex q s \<Longrightarrow> sql_read q = Some s"
proof -
  have "last (stmt_toks s) \<noteq> semicolon" if "stmt_toks s \<noteq> []"
    using no_semicolon [of s] last_in_set [OF that] by auto
  moreover assume "spells sql_lex q s"
  ultimately show ?thesis using parse_toks [of s] by (auto simp: spells_def sql_read_def read_stmt_def)
qed

lemma sql_read_None: "sql_lex q = None \<Longrightarrow> sql_read q = None"
  by (simp add: sql_read_def)

lemma executed_ref:
  "ref_inv d' \<and> ref_saved d' = ref_saved d \<and> outcome r Q (m_tables d' = m_tables d) \<Longrightarrow>
   ref_inv d' \<and> executed m_tables ref_saved r d d' Q"
  by (cases r) (auto simp: executed_def outcome_def failed_safely_def)

lemma ref_exec_throw: "db_exec ref_engine q e = (Throw x, e') \<Longrightarrow> ref_saved e' = ref_saved e"
  by (auto simp: ref_exec_def mem_on_table_def mem_simps split: option.splits stmt.splits prod.splits if_splits)

lemma ref_exec_table:
  assumes "m_tables e t = Some T"
  shows "spells sql_lex q (SInsert t ns vs) \<Longrightarrow> ref_exec q e = Insert mem_persistence t (bind_vals (cols T) (zip ns vs)) e"
    and "spells sql_lex q (SUpdate t as (op, ws)) \<Longrightarrow> as \<noteq> [] \<Longrightarrow>
      ref_exec q e = Update mem_persistence t (bind_vals (cols T) as) (bind_vals (cols T) ws) op e"
    and "spells sql_lex q (SDelete t (op, ws)) \<Longrightarrow> ref_exec q e = Remove mem_persistence t (bind_vals (cols T) ws) op e"
  using assms by (auto dest!: sql_read_spells simp: ref_exec_def mem_simps mem_on_table_def)

lemma ref_query_table:
  assumes "ref_inv e" "m_tables e t = Some T"
  shows "spells sql_lex q (SSelect ns t (op, ws) os d n) \<Longrightarrow> ref_query q e =
      Ok (map (map qcol_of \<circ> result_row T ns) (limit_rows n (sel mem_canon op (bind_vals (cols T) ws) T)))"
  using assms by (auto dest!: sql_read_spells simp: ref_query_def mem_query_def ref_inv_def)

interpretation ref: sqlite_engine sql_lex ref_engine m_tables ref_saved mem_canon ref_inv
proof
  show "mem_canon TEXT v = v" "mem_canon INTEGER (dec_int i) = dec_int i" for v i by (simp_all add: mem_canon_def)
  show "sorted_wrt (<) (map rowid (trows T))" "keys_unique T" if "ref_inv e" "m_tables e t = Some T" for e t T
    using that mem.rowids_ascend mem.table_keys by (auto simp: ref_inv_def)
  show "names_apart (m_tables e)" if "ref_inv e" for e using that mem.table_names by (simp add: ref_inv_def)
  show "ref_inv e' \<and> m_tables e' = m_tables e \<and> ref_saved e' = ref_saved e \<and> (\<exists>x. r = Throw x)"
    if "ref_inv e" "sql_lex q = None" "db_exec ref_engine q e = (r, e')" for e q r e'
    using that sql_read_None [OF that(2)] by (auto simp: ref_exec_def)
  show "\<exists>x. db_query ref_engine q e = Throw x" if "ref_inv e" "sql_lex q = None" for e q
    using sql_read_None [OF that(2)] by (simp add: ref_query_def)
  show "db_query ref_engine q e \<noteq> Terminate" if "ref_inv e" for e q
    by (auto simp: ref_query_def mem_query_def split: option.splits stmt.splits)
  show "ref_inv e' \<and> executed m_tables ref_saved r e e' (m_tables e' = (if m_tables e t = None then (m_tables e)(t \<mapsto> \<lparr>cols = keys_of cs pks, trows = []\<rparr>)
        else m_tables e))"
    if "ref_inv e" "spells sql_lex q (SCreate t cs pks)" "ident t" "keys_ok (keys_of cs pks)"
      "name_free (m_tables e) t" "db_exec ref_engine q e = (r, e')" for e q t cs pks r e'
  proof (rule executed_ref, rule ref_outcome [OF that(1)])
    have x: "CreateTable mem_persistence t (keys_of cs pks) e = (r, e')"
      using that(3,6) sql_read_spells [OF that(2)] by (simp add: ref_exec_def)
    show "mem_inv e' \<and> m_saved e' = m_saved e \<and>
      (case r of Ok _ \<Rightarrow> m_tables e' = (if m_tables e t = None then (m_tables e)(t \<mapsto> \<lparr>cols = keys_of cs pks, trows = []\<rparr>)
        else m_tables e) | Throw _ \<Rightarrow> m_tables e' = m_tables e | Terminate \<Rightarrow> False)"
      by (rule mem.CreateTable_law [OF _ that(3,4,5) x]) (use that(1) in \<open>simp add: ref_inv_def\<close>)
    have "t \<noteq> ''sqlite_master''" using that(3) by (auto simp: ident_eval)
    then show "m_tables e' ''sqlite_master'' = None"
      if "m_tables e' = (if m_tables e t = None then (m_tables e)(t \<mapsto> \<lparr>cols = keys_of cs pks, trows = []\<rparr>) else m_tables e)"
      using that \<open>ref_inv e\<close> by (simp add: ref_inv_def)
  qed
  show "ref_inv e' \<and> executed m_tables ref_saved r e e' (m_tables e' = (m_tables e)(t := None))"
    if "ref_inv e" "spells sql_lex q (SDrop t)" "m_tables e t \<noteq> None" "db_exec ref_engine q e = (r, e')" for e q t r e'
    by (rule executed_ref, rule ref_outcome [OF that(1) mem.DropTable_law [OF _ that(3)]])
       (use that sql_read_spells [OF that(2)] in \<open>auto simp: ref_exec_def ref_inv_def\<close>)
  show "rows \<noteq> [] \<longleftrightarrow> m_tables e t \<noteq> None"
    if "ref_inv e" "spells sql_lex q (SSelect [''name''] ''sqlite_master'' (AND, [(''type'', VText ''table''), (''name'', VText t)]) [] ASC 0)"
      "db_query ref_engine q e = Ok rows" for e q t rows
    using that sql_read_spells [OF that(2)] by (auto simp: ref_query_def split: if_splits)
  show "ref_inv e' \<and> m_tables e' = m_tables e \<and>
      outcome r (ref_saved e = None \<and> ref_saved e' = Some (m_tables e)) (ref_saved e' = ref_saved e)"
    if "ref_inv e" "db_begin ref_engine e = (r, e')" for e r e'
    using that by (auto simp: ref_begin_def ref_inv_def mem_inv_def ref_saved_def outcome_def split: if_splits)
  show "ref_inv e' \<and> outcome r (m_tables e' = m_tables e \<and> ref_saved e' = None) (failed_safely m_tables ref_saved e e')"
    if "ref_inv e" "db_commit ref_engine e = (r, e')" for e r e'
    using that
    by (auto simp: ref_commit_def ref_inv_def mem_inv_def ref_saved_def outcome_def failed_safely_def split: if_splits)
  show "ref_saved e' = ref_saved e" if "db_commit ref_engine e = (Throw x, e')" for e x e'
    using that by (auto simp: ref_commit_def split: if_splits)
  show "ref_saved e' = ref_saved e" if "db_exec ref_engine q e = (Throw x, e')" for e q x e'
    using that by (rule ref_exec_throw)
  show "ref_inv e' \<and> outcome r (ref_saved e' = None \<and> m_tables e' = ts) (ref_saved e' = ref_saved e \<and> m_tables e' = m_tables e)"
    if "ref_inv e" "ref_saved e = Some ts" "db_rollback ref_engine e = (r, e')" for e r e' ts
    using that by (auto simp: ref_rollback_def ref_inv_def mem_inv_def ref_saved_def outcome_def split: if_splits)
  show "ref_inv e' \<and> executed m_tables ref_saved r e e'
        (row_admissible mem_canon T (bind_vals (cols T) (zip ns vs)) \<and>
         (\<exists>i. (\<forall>x\<in>set (trows T). rowid x < i) \<and>
            m_tables e' = (m_tables e)(t \<mapsto>
              map_trows (\<lambda>rs. rs @ [new_row mem_canon i (bind_vals (cols T) (zip ns vs))]) T)))"
    if "ref_inv e" "spells sql_lex q (SInsert t ns vs)" "m_tables e t = Some T" "typed_vals (cols T) (zip ns vs)"
      "row_ok (cols T) (bind_vals (cols T) (zip ns vs))" "db_exec ref_engine q e = (r, e')" for e q t ns vs T r e'
    using that(6)
    by (intro executed_ref ref_on_table [OF that(1,3) mem.Insert_law [OF ref_mem [OF that(1)] that(3,5)]])
       (auto simp: ref_exec_table(1) [OF that(3,2)])
  show "ref_inv e' \<and> executed m_tables ref_saved r e e'
        (m_tables e' = (m_tables e)(t \<mapsto>
           map_trows (map (\<lambda>x. if row_matches mem_canon op (bind_vals (cols T) ws) x
                               then upd_row mem_canon (bind_vals (cols T) as) x else x)) T))"
    if "ref_inv e" "spells sql_lex q (SUpdate t as (op, ws))" "m_tables e t = Some T" "typed_vals (cols T) as"
      "row_ok (cols T) (bind_vals (cols T) as)" "typed_vals (cols T) ws" "crits_ok (cols T) (bind_vals (cols T) ws)"
      "db_exec ref_engine q e = (r, e')" for e q t as op ws T r e'
  proof -
    have "as \<noteq> []" using that(5) by (auto simp: row_ok_def)
    from ref_exec_table(2) [OF that(3,2) this] that(8)
    have x: "Update mem_persistence t (bind_vals (cols T) as) (bind_vals (cols T) ws) op e = (r, e')" by simp
    show ?thesis
      by (intro executed_ref ref_on_table [OF that(1,3) mem.Update_law [OF ref_mem [OF that(1)] that(3,5,7) x]]) blast
  qed
  show "ref_inv e' \<and> executed m_tables ref_saved r e e'
        (m_tables e' = (m_tables e)(t \<mapsto>
           map_trows (filter (\<lambda>x. \<not> row_matches mem_canon op (bind_vals (cols T) ws) x)) T))"
    if "ref_inv e" "spells sql_lex q (SDelete t (op, ws))" "m_tables e t = Some T" "typed_vals (cols T) ws"
      "crits_ok (cols T) (bind_vals (cols T) ws)" "db_exec ref_engine q e = (r, e')" for e q t op ws T r e'
    using that(6)
    by (intro executed_ref ref_on_table [OF that(1,3) mem.Remove_law [OF ref_mem [OF that(1)] that(3,5)]])
       (auto simp: ref_exec_table(3) [OF that(3,2)])
  show "map shown rows = map (result_row T ns) (limit_rows n (sel mem_canon op (bind_vals (cols T) ws) T))"
    if "ref_inv e" "spells sql_lex q (SSelect ns t (op, ws) [''rowid''] ASC n)" "m_tables e t = Some T"
      "db_query ref_engine q e = Ok rows" for e q ns t op ws n T rows
    using that(4) ref_query_table [OF that(1,3,2)] by auto
  show "mset (map shown rows) = mset (map (result_row T ns) (sel mem_canon op (bind_vals (cols T) ws) T))"
    if "ref_inv e" "spells sql_lex q (SSelect ns t (op, ws) [] d 0)" "m_tables e t = Some T"
      "db_query ref_engine q e = Ok rows" for e q ns t op ws d T rows
  proof -
    have "map shown rows = map (result_row T ns) (sel mem_canon op (bind_vals (cols T) ws) T)"
      using that(4) ref_query_table [OF that(1,3,2)] by (auto simp: limit_rows_def)
    then show ?thesis by simp
  qed
  show "\<exists>c. rows = [[c]] \<and> getInt c = as_int32 (int (length (sel mem_canon op (bind_vals (cols T) ws) T)))"
    if "spells sql_lex q (SCount t (op, ws))" "m_tables e t = Some T" "db_query ref_engine q e = Ok rows"
    for e q t op ws T rows
    using that sql_read_spells [OF that(1)] by (auto simp: ref_query_def mem_query_def number_col_def)
  show "\<exists>c. rows = [[c]] \<and> getUInt c =
      as_uint32 (sum_list (map (row_size (named ns)) (sel mem_canon op (bind_vals (cols T) ws) T)))"
    if "spells sql_lex q (SSize ns t (op, ws))" "m_tables e t = Some T" "db_query ref_engine q e = Ok rows"
    for e q ns t op ws T rows
    using that sql_read_spells [OF that(1)] by (auto simp: ref_query_def mem_query_def number_col_def)
qed

interpretation refr: reliable_engine sql_lex ref_engine m_tables ref_saved mem_canon ref_inv
proof
  show "fst (db_exec ref_engine q e) = Ok ()"
    if "ref_inv e" "spells sql_lex q s" "executable mem_canon (m_tables e) s" "\<not> is_query s" for e q s
  proof (cases s)
    case (SInsert t ns vs)
    with that(3) obtain T where T: "m_tables e t = Some T" by (auto simp: executable_def split: option.splits)
    with that SInsert sql_read_spells [OF that(2)] show ?thesis
      by (simp add: executable_simps ref_exec_def mem_on_table_def mem_insert_def)
  next
    case (SUpdate t as w)
    then obtain op ws where w: "w = (op, ws)" by fastforce
    with that(3) SUpdate obtain T where T: "m_tables e t = Some T" by (auto simp: executable_def split: option.splits)
    have row: "row_ok (cols T) (bind_vals (cols T) as)" "crits_ok (cols T) (bind_vals (cols T) ws)"
      "set (map fst as) \<inter> set (key_cols T) = {}" using that(3) SUpdate w executable_simps(3) [where ts = "m_tables e", OF T] by auto
    then have "as \<noteq> []" "set (map Name (bind_vals (cols T) as)) \<inter> set (key_cols T) = {}"
      by (auto simp: row_ok_def bind_val_def)
    with ref_exec_table(2) [OF T] that(2) SUpdate w ref_mem [OF that(1)] row T show ?thesis
      using keys_unique_upd [OF mem.table_keys [OF ref_mem [OF that(1)] T], of "bind_vals (cols T) as"]
      by (auto simp: mem_simps mem_on_table_def mem_update_def Let_def row_ok_def col_ok_def list_all_iff)
  qed (use that sql_read_spells [OF that(2)] in \<open>auto simp: executable_def ref_exec_def mem_simps mem_on_table_def mem_remove_def split: option.splits\<close>)
  show "is_ok (db_query ref_engine q e)"
    if "ref_inv e" "spells sql_lex q s" "executable mem_canon (m_tables e) s" "is_query s" for e q s
    using that sql_read_spells [OF that(2)] by (cases s) (auto simp: executable_def ref_query_def mem_query_def split: option.splits)
  show "fst (db_begin ref_engine e) = Ok ()" if "ref_saved e = None" for e
    using that by (simp add: ref_begin_def ref_saved_def)
  show "fst (db_commit ref_engine e) = Ok ()" if "ref_saved e \<noteq> None" for e
    using that by (simp add: ref_commit_def ref_saved_def)
qed


subsection \<open>Properties\<close>

text \<open>
  C21: the manager implements the \<^verbatim>\<open>Persistence\<close> interface. Over any database library that executes the texts
  that spell a statement, every operation of the manager, with the text it builds, has the effect the
  interface promises: the tables change as asked or, when the operation throws, not at all, and at
  most one transaction is open, the library's own. \<^verbatim>\<open>GetSize\<close> returns the characters of the rows, not the bytes
  that its comment promises. What is said of the library is said for each statement of the interface
  by itself, for texts whose tokens are exactly the statement's; and it is assumed that the library does not roll a transaction back by
  itself, as SQLite may after a full disk, a device error, a lack of memory or an interrupt.
\<close>

theorem SQLiteManager_implements:
  fixes E :: "'e sqlite"
  assumes "sqlite_engine scan E etables esaved canon einv"
  shows "persistence_laws (sqlite_persistence E) (sm_tables etables) (sm_saved esaved) canon (sm_inv etables esaved einv)"
  by (rule sqlite_engine.manager_laws [OF assms])

theorem SQLiteManager_implements_witness:
  "persistence_laws (sqlite_persistence ref_engine) (sm_tables m_tables) (sm_saved ref_saved) mem_canon
     (sm_inv m_tables ref_saved ref_inv)"
  by (rule SQLiteManager_implements) (rule ref.sqlite_engine_axioms)

text \<open>
  C22: no value can change the meaning of a statement. For every scanner with SQL's lexical rules, the text
  built for an operation spells exactly one statement, the one that was meant, with exactly the given
  values, quotes and keywords in them included; its tokens are all those of that statement and no
  others. When a text value holds a NUL byte, the text spells no statement, and the scanner
  rejects it. This is for names that are identifiers and numbers that are decimal numerals.
\<close>

theorem statements_read_back:
  assumes "sql_lexer scan"
    and "ident t" "row \<noteq> []" "names_ok row" "names_ok cs" "keys_ok ks"
    and "list_all (\<lambda>c. ident (Name c)) flds" "list_all (\<lambda>c. ident (Name c)) os"
  shows "(spells scan (insert_text t row) s \<longleftrightarrow> texts_ok row \<and> s = SInsert t (map Name row) (map val_of row)) \<and>
    (spells scan (update_text t row cs op) s \<longleftrightarrow>
      texts_ok row \<and> texts_ok cs \<and> s = SUpdate t (assigns_of row) (where_of cs op)) \<and>
    (spells scan (remove_text t cs op) s \<longleftrightarrow> texts_ok cs \<and> s = SDelete t (where_of cs op)) \<and>
    (spells scan (count_text t cs op) s \<longleftrightarrow> texts_ok cs \<and> s = SCount t (where_of cs op)) \<and>
    (spells scan (select_text t flds cs op os d n) s \<longleftrightarrow>
      texts_ok cs \<and>
      s = SSelect (map Name flds) t (where_of cs op) (map Name os) (if os = [] then ASC else d) (if n > 0 then n else 0)) \<and>
    (flds \<noteq> [] \<longrightarrow>
      (spells scan (size_text t flds cs op) s \<longleftrightarrow> texts_ok cs \<and> s = SSize (map Name flds) t (where_of cs op))) \<and>
    (spells scan (create_text t ks) s \<longleftrightarrow> s = SCreate t (cols_of ks) (pks_of ks)) \<and>
    (spells scan (drop_text t) s \<longleftrightarrow> s = SDrop t) \<and>
    (spells scan (exists_text t) s \<longleftrightarrow>
      s = SSelect [''name''] ''sqlite_master'' (AND, [(''type'', VText ''table''), (''name'', VText t)]) [] ASC 0) \<and>
    (\<not> texts_ok row \<longrightarrow> scan (insert_text t row) = None \<and> scan (update_text t row cs op) = None) \<and>
    (\<not> texts_ok cs \<longrightarrow> scan (update_text t row cs op) = None \<and> scan (remove_text t cs op) = None \<and>
      scan (count_text t cs op) = None \<and> scan (select_text t flds cs op os d n) = None \<and>
      (flds \<noteq> [] \<longrightarrow> scan (size_text t flds cs op) = None))"
  using sql_lexer.spells_insert [OF assms(1-4), of s] sql_lexer.spells_update [OF assms(1-5), of op s]
    sql_lexer.spells_remove [OF assms(1,2,5), of op s] sql_lexer.spells_count [OF assms(1,2,5), of op s]
    sql_lexer.spells_select [OF assms(1,2,7,5,8), of op d n s] sql_lexer.spells_size [OF assms(1,2) _ assms(7,5), of op s]
    sql_lexer.spells_create [OF assms(1,2,6), of s] sql_lexer.spells_drop [OF assms(1,2), of s]
    sql_lexer.spells_exists [OF assms(1,2), of s] sql_lexer.scan_insert [OF assms(1-4)] sql_lexer.scan_update [OF assms(1-5), of op]
    sql_lexer.scan_remove [OF assms(1,2,5), of op] sql_lexer.scan_count [OF assms(1,2,5), of op]
    sql_lexer.scan_select [OF assms(1,2,7,5,8), of op d n] sql_lexer.scan_size [OF assms(1,2) _ assms(7,5), of op]
  by simp

definition hostile :: ColumnValue where
  "hostile = col_value ''message'' TEXT (quote # ''); DROP TABLE queue; --'')"

lemma hostile_ok:
  "names_ok [hostile]" "texts_ok [hostile]" "ident ''queue''" "names_ok []"
  "keys_ok [\<lparr>Name = ''message'', Type = TEXT, Attributes = 0\<rparr>]"
  by (simp_all add: names_ok_def hostile_def col_value_def texts_ok_def value_text_ok_def quote_def ident_eval
      keys_ok_def key_ok_def attr_defs same_name_def)

theorem statements_read_back_witness:
  "spells sql_lex (insert_text ''queue'' [hostile]) (SInsert ''queue'' [''message''] [VText (quote # ''); DROP TABLE queue; --'')]) \<and>
   \<not> spells sql_lex (insert_text ''queue'' [hostile]) (SInsert ''queue'' [''message''] [VText []])"
proof -
  have "spells sql_lex (insert_text ''queue'' [hostile]) s \<longleftrightarrow> s = SInsert ''queue'' [''message''] [VText (quote # ''); DROP TABLE queue; --'')]" for s
    using statements_read_back [OF lx.sql_lexer_axioms hostile_ok(3) _ hostile_ok(1,4,5), of "[]" "[]" s] hostile_ok(2)
    by (simp add: hostile_def col_value_def val_of_def)
  then show ?thesis by simp
qed

text \<open>\<^verbatim>\<open>throw;\<close> outside a handler: an update or a size query without fields ends the process.\<close>

lemma missing_fields_terminate:
  "fst (sm_Update E t [] cs op m) = Terminate" "sm_GetSize E t [] cs op m = Terminate"
  by (simp_all add: sm_Update_def sm_GetSize_def)

end
