(* ===== verification/Sca_Utils.thy ===== *)
theory Sca_Utils
  imports String_Helper
begin

section \<open>Patterns of the configuration assessment\<close>

text \<open>
  \<^verbatim>\<open>src/src/modules/sca/src/sca_utils.cpp\<close> and \<^verbatim>\<open>sca_utils.hpp\<close>: every function. A pattern is a conjunction
  of terms, each possibly negated: \<open>r:\<close> a regular expression, \<open>n:\<close> a comparison with a number that a regular
  expression extracts, or a literal line. The regular expression library is a parameter: from a
  pattern and a subject to what compiling and matching give, the offsets of the groups included. The
  lemmas give a pattern the meaning its text has: the terms read back from the text, and the answer is
  that some line of the content satisfies every term.
\<close>

subsection \<open>Results\<close>

datatype RegexEngineType = PCRE2 | InvalidEngine

datatype WM_SCA_TYPE =
  WM_SCA_TYPE_FILE | WM_SCA_TYPE_REGISTRY | WM_SCA_TYPE_PROCESS | WM_SCA_TYPE_DIR | WM_SCA_TYPE_COMMAND

datatype CheckResult = Passed | Failed | NotApplicable | NotRun

fun CheckResultToString :: "CheckResult \<Rightarrow> string" where
  "CheckResultToString Passed = ''Passed''"
| "CheckResultToString Failed = ''Failed''"
| "CheckResultToString NotApplicable = ''Not applicable''"
| "CheckResultToString NotRun = ''Not run''"

subsection \<open>The regular expression library\<close>

text \<open>
  The result of \<^verbatim>\<open>pcre2_compile\<close> and \<^verbatim>\<open>pcre2_match\<close>. \<open>Captures\<close> holds the offsets of the groups up to the
  highest one that took part (\<^verbatim>\<open>rc\<close> of them), the whole match first; an unset group is \<open>None\<close>
  (\<^verbatim>\<open>PCRE2_UNSET\<close>).
\<close>

datatype pcre_result =
    CompileFailed nat string
  | NoMatchData
  | NoMatch
  | MatchFailed int
  | Captures "(nat \<times> nat) option list"

type_synonym pcre2 = "string \<Rightarrow> string \<Rightarrow> pcre_result"

definition bind_result :: "'a result \<Rightarrow> ('a \<Rightarrow> 'b result) \<Rightarrow> 'b result" where
  "bind_result r f = (case r of Ok x \<Rightarrow> f x | Throw e \<Rightarrow> Throw e | Terminate \<Rightarrow> Terminate)"

lemma bind_result_simps [simp]:
  "bind_result (Ok x) f = f x"
  "bind_result (Throw e) f = Throw e"
  "bind_result Terminate f = Terminate"
  by (simp_all add: bind_result_def)

text \<open>
  \<^verbatim>\<open>content.substr(ovector[2], ovector[3] - ovector[2])\<close> in \<^verbatim>\<open>size_t\<close> arithmetic: the offset of an unset
  group lies beyond every string, and a group that ends before it starts gives the rest of the
  content.
\<close>

definition group_text :: "string \<Rightarrow> (nat \<times> nat) option \<Rightarrow> string result" where
  "group_text content g =
     (case g of
        None \<Rightarrow> Throw ''basic_string::substr''
      | Some (a, b) \<Rightarrow> substr content a (if b < a then length content else b - a))"

definition taken_group :: "(nat \<times> nat) option list \<Rightarrow> (nat \<times> nat) option" where
  "taken_group gs = (if length gs \<ge> 2 then gs ! 1 else hd gs)"

definition Pcre2Match :: "pcre2 \<Rightarrow> string \<Rightarrow> string \<Rightarrow> (bool \<times> string) result" where
  "Pcre2Match rx content pattern =
     (case rx (takeWhile (\<lambda>c. c \<noteq> CHR 0x00) pattern) content of
        CompileFailed offset message \<Rightarrow>
          Throw (''PCRE2 compilation failed at offset '' @ dec_nat offset @ '': '' @ message)
      | NoMatchData \<Rightarrow> Throw ''PCRE2 match data creation failed''
      | NoMatch \<Rightarrow> Ok (False, [])
      | MatchFailed rc \<Rightarrow> Throw (''PCRE2 match error: '' @ dec_int rc)
      | Captures gs \<Rightarrow>
          map_result (Pair True) (group_text content (taken_group gs)))"

subsection \<open>Terms\<close>

text \<open>\<^verbatim>\<open>stream >> word\<close>: the white space before the word is skipped; the word and what follows it.\<close>

definition read_word :: "string \<Rightarrow> string \<times> string" where
  "read_word s =
     (let t = dropWhile isspace s in (takeWhile (\<lambda>c. \<not> isspace c) t, dropWhile (\<lambda>c. \<not> isspace c) t))"

definition compareWord :: string where
  "compareWord = ''compare''"

definition compare_values :: "string \<Rightarrow> int \<Rightarrow> int \<Rightarrow> bool result" where
  "compare_values opStr actualValue expectedValue =
     (if opStr = ''<'' then Ok (actualValue < expectedValue)
      else if opStr = ''<='' then Ok (actualValue \<le> expectedValue)
      else if opStr = ''=='' then Ok (actualValue = expectedValue)
      else if opStr = ''!='' then Ok (actualValue \<noteq> expectedValue)
      else if opStr = ''>='' then Ok (actualValue \<ge> expectedValue)
      else if opStr = ''>'' then Ok (actualValue > expectedValue)
      else Throw ''Invalid operator in numeric comparison'')"

definition EvaluateNumericRegexComparison :: "pcre2 \<Rightarrow> string \<Rightarrow> string \<Rightarrow> RegexEngineType \<Rightarrow> bool result" where
  "EvaluateNumericRegexComparison rx content expr engine =
     (case find_str compareWord expr of
        None \<Rightarrow> Throw (''Invalid expression format, '' @ [CHR 0x27] @ ''compare'' @ [CHR 0x27] @ '' keyword missing'')
      | Some comparePos \<Rightarrow>
          let pattern = (if comparePos = 0 then expr else take (comparePos - 1) expr) in
          bind_result (substr_from expr (comparePos + length compareWord + 1)) (\<lambda>remainder.
            let (opStr, rest) = read_word remainder; (expectedValueStr, _) = read_word rest in
            if opStr = [] \<or> expectedValueStr = [] then Throw ''Invalid operator or expected value in numeric comparison''
            else
              bind_result (stoi expectedValueStr) (\<lambda>expectedValue.
                bind_result (if engine = PCRE2 then Pcre2Match rx content pattern else Ok (False, [])) (\<lambda>(found, match).
                  if \<not> found then Ok False
                  else
                    bind_result (stoi match) (\<lambda>actualValue. compare_values opStr actualValue expectedValue)))))"

definition EvaluateMinterm :: "pcre2 \<Rightarrow> string \<Rightarrow> string \<Rightarrow> RegexEngineType \<Rightarrow> bool result" where
  "EvaluateMinterm rx minterm content engine =
     (if starts_with minterm ''r:'' then
        (if engine = PCRE2 then map_result fst (Pcre2Match rx content (drop 2 minterm)) else Ok False)
      else if starts_with minterm ''n:'' then EvaluateNumericRegexComparison rx content (drop 2 minterm) engine
      else Ok (content = minterm))"

subsection \<open>Rules and patterns\<close>

text \<open>The key before the colon, without an exclamation mark in front, names the kind of the rule.\<close>

definition typeMap :: "(string \<times> WM_SCA_TYPE) list" where
  "typeMap = [(''f'', WM_SCA_TYPE_FILE), (''r'', WM_SCA_TYPE_REGISTRY), (''p'', WM_SCA_TYPE_PROCESS),
     (''d'', WM_SCA_TYPE_DIR), (''c'', WM_SCA_TYPE_COMMAND)]"

definition ParseRuleType :: "string \<Rightarrow> (WM_SCA_TYPE \<times> string) option" where
  "ParseRuleType input =
     (case find_str '':'' input of
        None \<Rightarrow> None
      | Some delimeterPos \<Rightarrow>
          let key = take delimeterPos input;
              value = drop (delimeterPos + 1) input;
              key = (if key \<noteq> [] \<and> hd key = CHR ''!'' then tl key else key)
          in map_option (\<lambda>t. (t, value)) (map_of typeMap key))"

definition GetPattern :: "string \<Rightarrow> string option" where
  "GetPattern rule = map_option (\<lambda>pos. drop (pos + 4) rule) (find_str '' -> '' rule)"

text \<open>The loop that cuts the pattern at \<open>" && "\<close>, from the position \<open>start\<close> on.\<close>

definition negated_term :: "string \<Rightarrow> bool \<times> string" where
  "negated_term minterm = (if minterm \<noteq> [] \<and> hd minterm = CHR ''!'' then (True, tl minterm) else (False, minterm))"

function split_minterms :: "string \<Rightarrow> nat \<Rightarrow> (bool \<times> string) list" where
  "split_minterms pattern start =
     (if start < length pattern then
        (case find_from '' && '' pattern start of
           None \<Rightarrow> [negated_term (drop start pattern)]
         | Some e \<Rightarrow> negated_term (take (e - start) (drop start pattern)) # split_minterms pattern (e + 4))
      else [])"
  by pat_completeness auto
termination
proof (relation "measure (\<lambda>(p, s). length p - s)", goal_cases)
  case (2 p s e)
  then show ?case using find_from_bound [OF 2(2)] by simp
qed simp

declare split_minterms.simps [simp del]

text \<open>The loop over the terms for one line, and the loops over the lines.\<close>

fun all_minterms :: "pcre2 \<Rightarrow> RegexEngineType \<Rightarrow> string \<Rightarrow> (bool \<times> string) list \<Rightarrow> bool result" where
  "all_minterms rx engine line [] = Ok True"
| "all_minterms rx engine line ((negated, minterm) # ms) =
     bind_result (EvaluateMinterm rx minterm line engine) (\<lambda>match.
       if negated \<and> match \<or> \<not> negated \<and> \<not> match then Ok False else all_minterms rx engine line ms)"

fun some_line :: "pcre2 \<Rightarrow> RegexEngineType \<Rightarrow> (bool \<times> string) list \<Rightarrow> string list \<Rightarrow> bool result" where
  "some_line rx engine ms [] = Ok False"
| "some_line rx engine ms (line # ls) =
     bind_result (all_minterms rx engine line ms) (\<lambda>passed. if passed then Ok True else some_line rx engine ms ls)"

fun no_line :: "pcre2 \<Rightarrow> RegexEngineType \<Rightarrow> string \<Rightarrow> string list \<Rightarrow> bool result" where
  "no_line rx engine minterm [] = Ok True"
| "no_line rx engine minterm (line # ls) =
     bind_result (EvaluateMinterm rx minterm line engine) (\<lambda>match. if match then Ok False else no_line rx engine minterm ls)"

text \<open>\<open>TryFunc\<close>: an exception becomes no value. Nothing that is called in it here ends the process.\<close>

definition TryFunc :: "'a result \<Rightarrow> 'a option" where
  "TryFunc r = (case r of Ok x \<Rightarrow> Some x | _ \<Rightarrow> None)"

definition pattern_matches :: "pcre2 \<Rightarrow> string \<Rightarrow> string \<Rightarrow> RegexEngineType \<Rightarrow> bool result" where
  "pattern_matches rx content pattern engine =
     (if content = [] then Ok False
      else
        let minterms = split_minterms pattern 0; ls = split content (CHR 0x0A) in
        if length minterms = 1 \<and> fst (minterms ! 0) then no_line rx engine (snd (minterms ! 0)) ls
        else some_line rx engine minterms ls)"

definition PatternMatches :: "pcre2 \<Rightarrow> string \<Rightarrow> string \<Rightarrow> RegexEngineType \<Rightarrow> bool option" where
  "PatternMatches rx content pattern engine = TryFunc (pattern_matches rx content pattern engine)"

definition IsRegexPattern :: "string \<Rightarrow> bool" where
  "IsRegexPattern pattern \<longleftrightarrow> starts_with pattern ''r:'' \<or> starts_with pattern ''!r:''"

definition IsRegexOrNumericPattern :: "string \<Rightarrow> bool" where
  "IsRegexOrNumericPattern pattern \<longleftrightarrow>
     IsRegexPattern pattern \<or> starts_with pattern ''n:'' \<or> starts_with pattern ''!n:''"


subsection \<open>Reading a pattern back\<close>

lemma split_minterms_drop: "s \<le> length p \<Longrightarrow> split_minterms p s = split_minterms (drop s p) 0"
proof (induction "length p - s" arbitrary: p s rule: less_induct)
  case less
  show ?case
  proof (cases "s < length p")
    case False
    then show ?thesis by (simp add: split_minterms.simps)
  next
    case True
    show ?thesis
    proof (cases "find_str '' && '' (drop s p)")
      case None
      then show ?thesis using True
        by (subst (1 2) split_minterms.simps) (simp add: find_from_def)
    next
      case (Some e)
      have e: "e + 4 \<le> length p - s" using find_str_bound [OF Some] by simp
      have "split_minterms p (s + e + 4) = split_minterms (drop (s + e + 4) p) 0"
        using e True by (intro less.hyps) auto
      also have "drop (s + e + 4) p = drop (e + 4) (drop s p)" by (simp add: ac_simps)
      also have "split_minterms \<dots> 0 = split_minterms (drop s p) (e + 4)"
        using e True by (intro less.hyps [symmetric]) auto
      finally have rest: "split_minterms p (s + e + 4) = split_minterms (drop s p) (e + 4)" .
      then show ?thesis using True Some
        by (subst (1 2) split_minterms.simps) (simp add: find_from_def)
    qed
  qed
qed

lemma split_minterms_0:
  "split_minterms p 0 =
     (if p = [] then []
      else case find_str '' && '' p of None \<Rightarrow> [negated_term p]
        | Some e \<Rightarrow> negated_term (take e p) # split_minterms (drop (e + 4) p) 0)"
proof (cases "find_str '' && '' p")
  case (Some e)
  then show ?thesis using split_minterms_drop [of "e + 4" p] find_str_bound [OF Some]
    by (subst split_minterms.simps) (simp add: find_from_def)
qed (subst split_minterms.simps, simp add: find_from_def)

text \<open>The text of a list of terms, and the terms that such a text can hold.\<close>

definition term_text :: "bool \<times> string \<Rightarrow> string" where
  "term_text m = (if fst m then ''!'' @ snd m else snd m)"

fun pattern_text :: "(bool \<times> string) list \<Rightarrow> string" where
  "pattern_text [] = []"
| "pattern_text [m] = term_text m"
| "pattern_text (m # ms) = term_text m @ '' && '' @ pattern_text ms"

definition plain_term :: "bool \<times> string \<Rightarrow> bool" where
  "plain_term m \<longleftrightarrow>
     find_str '' && '' (term_text m @ '' && '') = Some (length (term_text m)) \<and>
     term_text m \<noteq> [] \<and> (fst m \<or> hd (snd m) \<noteq> CHR ''!'')"

lemma negated_term_text: "plain_term m \<Longrightarrow> negated_term (term_text m) = m"
  by (cases m) (auto simp: plain_term_def term_text_def negated_term_def)

lemma find_str_append_Some: "find_str p s = Some i \<Longrightarrow> find_str p (s @ t) = Some i"
proof (induction s arbitrary: i)
  case Nil
  then show ?case by (auto simp: find_str_prefix split: if_splits)
next
  case (Cons a s)
  show ?case
  proof (cases "prefix p (a # s)")
    case True
    then have "prefix p ((a # s) @ t)" by (rule prefix_prefix)
    then show ?thesis using True Cons.prems by simp
  next
    case False
    then obtain j where j: "find_str p s = Some j" "i = Suc j" using Cons.prems by auto
    have "\<not> prefix p ((a # s) @ t)" using find_str_bound [OF j(1)] False
        prefix_length_prefix [of p "(a # s) @ t" "a # s"] by auto
    then show ?thesis using Cons.IH [OF j(1)] j(2) by simp
  qed
qed

lemma find_str_no_append: "find_str p (s @ t) = Some (length s) \<Longrightarrow> t \<noteq> [] \<Longrightarrow> p \<noteq> [] \<Longrightarrow> find_str p s = None"
proof (rule ccontr)
  assume a: "find_str p (s @ t) = Some (length s)" "p \<noteq> []" "find_str p s \<noteq> None"
  then obtain i where i: "find_str p s = Some i" by blast
  from find_str_append_Some [OF i, of t] a(1) find_str_bound [OF i] a(2) show False by simp
qed

lemma split_minterms_text: "list_all plain_term ms \<Longrightarrow> split_minterms (pattern_text ms) 0 = ms"
proof (induction ms rule: pattern_text.induct)
  case 1
  then show ?case by (simp add: split_minterms_0)
next
  case (2 m)
  then have "find_str '' && '' (term_text m @ '' && '') = Some (length (term_text m))" "term_text m \<noteq> []"
    by (auto simp: plain_term_def)
  then show ?case using 2 by (simp add: split_minterms_0 [of "term_text m"] negated_term_text find_str_no_append)
next
  case (3 m n ms)
  then have m: "find_str '' && '' (term_text m @ '' && '') = Some (length (term_text m))" "term_text m \<noteq> []" "plain_term m"
    by (auto simp: plain_term_def)
  from find_str_append_Some [OF m(1), of "pattern_text (n # ms)"] m 3 show ?case
    by (simp add: split_minterms_0 [of "term_text m @ _"] negated_term_text)
qed

subsection \<open>What a pattern means\<close>

text \<open>When the terms evaluate on the lines, the loops are quantifiers.\<close>

lemma all_minterms_spec:
  assumes "\<forall>(n, t) \<in> set ms. EvaluateMinterm rx t l engine = Ok (holds t l)"
  shows "all_minterms rx engine l ms = Ok (\<forall>(n, t) \<in> set ms. holds t l \<noteq> n)"
  using assms by (induction ms) auto

lemma some_line_spec:
  assumes "\<forall>l \<in> set ls. \<forall>(n, t) \<in> set ms. EvaluateMinterm rx t l engine = Ok (holds t l)"
  shows "some_line rx engine ms ls = Ok (\<exists>l \<in> set ls. \<forall>(n, t) \<in> set ms. holds t l \<noteq> n)"
  using assms
proof (induction ls)
  case (Cons l ls)
  then show ?case using all_minterms_spec [of ms rx l engine holds]
    by (cases "\<forall>(n, t) \<in> set ms. holds t l \<noteq> n") auto
qed simp

lemma no_line_spec:
  assumes "\<forall>l \<in> set ls. EvaluateMinterm rx t l engine = Ok (holds t l)"
  shows "no_line rx engine t ls = Ok (\<forall>l \<in> set ls. \<not> holds t l)"
  using assms by (induction ls) auto

definition term_spec :: "(string \<Rightarrow> string \<Rightarrow> bool) \<Rightarrow> (bool \<times> string) list \<Rightarrow> string \<Rightarrow> bool" where
  "term_spec holds ms content \<longleftrightarrow>
     content \<noteq> [] \<and>
     (case ms of
        [(True, t)] \<Rightarrow> \<forall>l \<in> set (split content (CHR 0x0A)). \<not> holds t l
      | _ \<Rightarrow> \<exists>l \<in> set (split content (CHR 0x0A)). \<forall>(n, t) \<in> set ms. holds t l \<noteq> n)"

lemma pattern_matches_spec:
  assumes "split_minterms pattern 0 = ms"
    and "\<forall>l \<in> set (split content (CHR 0x0A)). \<forall>(n, t) \<in> set ms. EvaluateMinterm rx t l engine = Ok (holds t l)"
  shows "pattern_matches rx content pattern engine = Ok (term_spec holds ms content)"
proof (cases "\<exists>t. ms = [(True, t)]")
  case True
  then obtain t where t: "ms = [(True, t)]" by blast
  with assms(2) no_line_spec [of "split content (CHR 0x0A)" rx t engine holds] show ?thesis
    using assms(1) by (simp add: pattern_matches_def term_spec_def)
next
  case False
  then have n: "\<not> (length ms = 1 \<and> fst (ms ! 0))" by (cases ms; cases "tl ms") auto
  have "term_spec holds ms content \<longleftrightarrow> content \<noteq> [] \<and> (\<exists>l \<in> set (split content (CHR 0x0A)). \<forall>(n, t) \<in> set ms. holds t l \<noteq> n)"
    using False by (auto simp: term_spec_def split: list.splits bool.splits)
  with some_line_spec [OF assms(2)] show ?thesis unfolding pattern_matches_def assms(1) Let_def if_not_P [OF n] by simp
qed


text \<open>A regular expression term holds on a line when the library finds a match; a numeric term compares
  the number in the first group, or in the whole match, with the one written in the term.\<close>

definition usable :: "string \<Rightarrow> pcre_result \<Rightarrow> bool" where
  "usable l r \<longleftrightarrow>
     (case r of
        NoMatch \<Rightarrow> True
      | Captures gs \<Rightarrow> (case taken_group gs of Some (a, b) \<Rightarrow> a \<le> length l | None \<Rightarrow> False)
      | _ \<Rightarrow> False)"

lemma regex_term:
  assumes "CHR 0x00 \<notin> set e" "usable l (rx e l)"
  shows "EvaluateMinterm rx (''r:'' @ e) l PCRE2 = Ok (rx e l \<noteq> NoMatch)"
proof -
  have t: "takeWhile (\<lambda>c. c \<noteq> CHR 0x00) e = e" using assms(1) by (auto simp: takeWhile_eq_all_conv)
  have "EvaluateMinterm rx (''r:'' @ e) l PCRE2 = map_result fst (Pcre2Match rx l e)"
    by (simp add: EvaluateMinterm_def starts_with_def)
  also have "\<dots> = Ok (rx e l \<noteq> NoMatch)"
    using assms(2) unfolding Pcre2Match_def t usable_def
    by (cases "rx e l") (auto simp: group_text_def substr_def split: option.splits)
  finally show ?thesis .
qed

definition compares :: "string \<Rightarrow> int \<Rightarrow> int \<Rightarrow> bool" where
  "compares opStr a b \<longleftrightarrow>
     opStr = ''<'' \<and> a < b \<or> opStr = ''<='' \<and> a \<le> b \<or> opStr = ''=='' \<and> a = b \<or>
     opStr = ''!='' \<and> a \<noteq> b \<or> opStr = ''>='' \<and> a \<ge> b \<or> opStr = ''>'' \<and> a > b"

lemma read_word_append:
  assumes "w \<noteq> []" "\<forall>c \<in> set w. \<not> isspace c" "rest = [] \<or> isspace (hd rest)"
  shows "read_word (w @ rest) = (w, rest)" "read_word (CHR '' '' # w @ rest) = (w, rest)"
proof -
  obtain c u where w: "w = c # u" "\<not> isspace c" using assms(1,2) by (cases w) auto
  have t: "takeWhile (\<lambda>c. \<not> isspace c) (w @ rest) = w" "dropWhile (\<lambda>c. \<not> isspace c) (w @ rest) = rest"
    using assms(2,3) by (cases rest; simp add: takeWhile_append2 takeWhile_eq_all_conv)+
  have d: "dropWhile isspace (w @ rest) = w @ rest" using w by simp
  show "read_word (w @ rest) = (w, rest)" unfolding read_word_def d Let_def t ..
  have d': "dropWhile isspace (CHR '' '' # w @ rest) = w @ rest" using d by (simp add: isspace_def [of "CHR '' ''"])
  show "read_word (CHR '' '' # w @ rest) = (w, rest)" unfolding read_word_def d' Let_def t ..
qed

lemma dec_int_not_space: "\<forall>c \<in> set (dec_int i). \<not> isspace c"
proof -
  have "\<not> isspace c" if "isdigit c" for c using that by (auto simp: isspace_def isdigit_def)
  then show ?thesis using dec_nat_digits by (auto simp: dec_int_def list_all_iff isspace_def)
qed

lemma numeric_term:
  assumes e: "find_str compareWord (e @ '' compare '') = Some (length e + 1)" "CHR 0x00 \<notin> set e"
    and opStr: "opStr \<in> {''<'', ''<='', ''=='', ''!='', ''>='', ''>''}"
    and v: "- (2 ^ 31) \<le> v" "v < 2 ^ 31"
  shows "EvaluateMinterm rx (''n:'' @ e @ '' compare '' @ opStr @ '' '' @ dec_int v) l PCRE2 =
    bind_result (Pcre2Match rx l e) (\<lambda>(found, m). if \<not> found then Ok False else bind_result (stoi m) (\<lambda>a. Ok (compares opStr a v)))"
proof -
  let ?expr = "e @ '' compare '' @ opStr @ '' '' @ dec_int v"
  have find: "find_str compareWord ?expr = Some (length e + 1)"
    using find_str_append_Some [OF e(1), of "opStr @ '' '' @ dec_int v"] by simp
  have sub: "substr_from ?expr (length e + 1 + length compareWord + 1) = Ok (opStr @ '' '' @ dec_int v)"
    by (simp add: substr_from_def compareWord_def)
  have ops: "opStr \<noteq> []" "\<forall>c \<in> set opStr. \<not> isspace c" using opStr by (auto simp: isspace_def)
  have w: "read_word (opStr @ '' '' @ dec_int v) = (opStr, '' '' @ dec_int v)"
    by (rule read_word_append(1) [OF ops]) (simp add: isspace_def)
  have ne: "dec_int v \<noteq> []" using dec_nat_nonempty by (simp add: dec_int_def)
  have w': "read_word ('' '' @ dec_int v) = (dec_int v, [])"
    using read_word_append(2) [OF ne dec_int_not_space, of "[]"] by simp
  have st: "stoi (dec_int v) = Ok v" using v by (simp add: stoi_dec_int)
  have n: "EvaluateMinterm rx (''n:'' @ ?expr) l PCRE2 = EvaluateNumericRegexComparison rx l ?expr PCRE2"
    by (simp add: EvaluateMinterm_def starts_with_def)
  have pat: "take (length e + 1 - 1) ?expr = e" by simp
  have cmp: "compare_values opStr a v = Ok (compares opStr a v)" for a
    using opStr by (auto simp: compare_values_def compares_def)
  have not0: "(length e + 1 = 0) = False" by simp
  show ?thesis
    unfolding n EvaluateNumericRegexComparison_def find option.case Let_def pat sub bind_result_simps w w' prod.case st cmp
      not0 if_False
    using ops(1) ne by simp
qed

subsection \<open>Properties\<close>

text \<open>
  C27: a pattern means what its text says. For terms that the text can hold, the text reads back as
  those terms, and when every term evaluates on every line, the answer is: a lone negated term holds
  when no line of a non-empty content matches it, any other pattern when one line satisfies every
  term with its sign. An error while evaluating is the only way to no answer.
\<close>

theorem PatternMatches_meaning:
  assumes "list_all plain_term ms"
    and "\<forall>l \<in> set (split content (CHR 0x0A)). \<forall>(n, t) \<in> set ms. EvaluateMinterm rx t l engine = Ok (holds t l)"
  shows "split_minterms (pattern_text ms) 0 = ms \<and>
    PatternMatches rx content (pattern_text ms) engine =
      Some (content \<noteq> [] \<and>
        (case ms of
           [(True, t)] \<Rightarrow> \<forall>l \<in> set (split content (CHR 0x0A)). \<not> holds t l
         | _ \<Rightarrow> \<exists>l \<in> set (split content (CHR 0x0A)). \<forall>(n, t) \<in> set ms. holds t l \<noteq> n))"
  using pattern_matches_spec [OF split_minterms_text [OF assms(1)] assms(2)] split_minterms_text [OF assms(1)]
  by (simp add: PatternMatches_def TryFunc_def term_spec_def)

text \<open>A library that finds literal texts.\<close>

definition literal_rx :: pcre2 where
  "literal_rx p s = (case find_str p s of None \<Rightarrow> NoMatch | Some i \<Rightarrow> Captures [Some (i, i + length p)])"

lemma literal_term:
  assumes "CHR 0x00 \<notin> set e"
  shows "EvaluateMinterm literal_rx (''r:'' @ e) l PCRE2 = Ok (find_str e l \<noteq> None)"
proof -
  have "literal_rx e l = NoMatch \<longleftrightarrow> find_str e l = None" by (simp add: literal_rx_def split: option.splits)
  moreover have "i \<le> length l" if "find_str e l = Some i" for i using find_str_bound [OF that] by simp
  ultimately show ?thesis using regex_term [OF assms, of l literal_rx]
    by (cases "find_str e l") (auto simp: literal_rx_def usable_def taken_group_def)
qed

theorem PatternMatches_meaning_witness:
  "PatternMatches literal_rx (''ax'' @ [CHR 0x0A] @ ''ab'') ''r:a && !r:x'' PCRE2 = Some True"
proof -
  let ?ms = "[(False, ''r:a''), (True, ''r:x'')]" and ?c = "''ax'' @ [CHR 0x0A] @ ''ab''"
  define holds where "holds t l = (find_str (drop 2 t) l \<noteq> None)" for t l :: string
  have p: "list_all plain_term ?ms" by (simp add: plain_term_def term_text_def)
  have e: "\<forall>l \<in> set (split ?c (CHR 0x0A)). \<forall>(n, t) \<in> set ?ms. EvaluateMinterm literal_rx t l PCRE2 = Ok (holds t l)"
    using literal_term [of "''a''"] literal_term [of "''x''"] by (simp add: holds_def)
  have s: "split ?c (CHR 0x0A) = [''ax'', ''ab'']" by (simp add: split.simps)
  from PatternMatches_meaning [OF p e] show ?thesis unfolding s by (simp add: holds_def term_text_def)
qed

end
