(* ===== verification/Sca_Policy_Check.thy ===== *)
theory Sca_Policy_Check
  imports Sca_Utils Json_Value "HOL-Library.Multiset"
begin

section \<open>Rules of the configuration assessment\<close>

text \<open>
  \<^verbatim>\<open>src/src/modules/sca/src/sca_policy_check.cpp\<close>, \<^verbatim>\<open>sca_policy_check_win.cpp\<close> and \<^verbatim>\<open>sca_policy_check.hpp\<close>:
  the evaluators of file, command, directory, process and registry rules, and the factory that reads
  a rule. The machine under assessment is the record \<open>machine\<close>: the file system, what a command prints,
  the processes, the registry and the regular expression library; \<open>None\<close> is a call that throws. The
  walk through a directory follows the file system and may not end, so it is a partial function.
  The lemmas show that it ends on a file system without directory cycles, and that the word \<open>not\<close>
  in front of a rule gives the complement of the rule, for every kind.
\<close>

subsection \<open>The machine\<close>

datatype RuleResult = Invalid | Found | NotFound

record PolicyEvaluationContext =
  rule :: string
  pattern :: "string option"
  isNegated :: bool

datatype key_query = KeyIs bool | SystemError int | OtherError

record machine =
  regex :: pcre2
  fs_exists :: "string \<Rightarrow> bool option"
  fs_is_regular_file :: "string \<Rightarrow> bool option"
  fs_is_directory :: "string \<Rightarrow> bool option"
  fs_is_symlink :: "string \<Rightarrow> bool option"
  fs_canonical :: "string \<Rightarrow> string option"
  fs_list_directory :: "string \<Rightarrow> string list option"
  fs_open :: "string \<Rightarrow> string option"
  exec :: "string \<Rightarrow> (string \<times> string) option"
  processes :: "json list option"
  reg_key_exists :: "string \<Rightarrow> string \<Rightarrow> key_query"
  reg_keys :: "string \<Rightarrow> string \<Rightarrow> string list option"
  reg_values :: "string \<Rightarrow> string \<Rightarrow> string list option"
  reg_value :: "string \<Rightarrow> string \<Rightarrow> string \<Rightarrow> string option"

text \<open>The file helpers of \<^verbatim>\<open>file_io_utils.cpp\<close>: a file is open or not, and then its bytes are read.\<close>

fun lines_while :: "('s \<Rightarrow> string \<Rightarrow> bool \<times> 's) \<Rightarrow> string list \<Rightarrow> 's \<Rightarrow> 's" where
  "lines_while callback [] s = s"
| "lines_while callback (line # ls) s =
     (let (continue, s') = callback s line in if continue then lines_while callback ls s' else s')"

definition readLineByLine :: "'m machine_scheme \<Rightarrow> string \<Rightarrow> ('s \<Rightarrow> string \<Rightarrow> bool \<times> 's) \<Rightarrow> 's \<Rightarrow> 's result" where
  "readLineByLine M filePath callback s =
     (case fs_open M filePath of
        None \<Rightarrow> Throw ''Could not open file''
      | Some content \<Rightarrow> Ok (lines_while callback (split content (CHR 0x0A)) s))"

definition getFileContent :: "'m machine_scheme \<Rightarrow> string \<Rightarrow> string" where
  "getFileContent M filePath = (case fs_open M filePath of Some content \<Rightarrow> content | None \<Rightarrow> [])"

text \<open>\<^verbatim>\<open>path.filename()\<close>.\<close>

definition filename :: "string \<Rightarrow> string" where
  "filename p = rev (takeWhile (\<lambda>c. c \<noteq> CHR ''/'') (rev p))"

subsection \<open>Files and commands\<close>

definition found_if :: "bool \<Rightarrow> RuleResult" where
  "found_if b = (if b then Found else NotFound)"

text \<open>\<^verbatim>\<open>m_ctx.isNegated ? (result == Found ? NotFound : Found) : result\<close>.\<close>

definition negated :: "bool \<Rightarrow> RuleResult \<Rightarrow> RuleResult" where
  "negated isneg result = (if isneg then (if result = Found then NotFound else Found) else result)"

definition FindContentInFile :: "'m machine_scheme \<Rightarrow> string \<Rightarrow> string \<Rightarrow> bool \<Rightarrow> RuleResult result" where
  "FindContentInFile M filePath pat isneg =
     (if IsRegexOrNumericPattern pat then
        (case PatternMatches (regex M) (getFileContent M filePath) pat PCRE2 of
           Some matchFound \<Rightarrow> Ok (if matchFound \<noteq> isneg then Found else NotFound)
         | None \<Rightarrow> Ok Invalid)
      else
        map_result (\<lambda>matchFound. if matchFound \<noteq> isneg then Found else NotFound)
          (readLineByLine M filePath (\<lambda>matchFound line. if line = pat then (False, True) else (True, matchFound)) False))"

text \<open>\<^verbatim>\<open>!a || !b\<close> and \<^verbatim>\<open>a && b\<close> where each call may throw; the second is not made when the first decides.\<close>

definition and_then :: "bool option \<Rightarrow> bool option \<Rightarrow> bool option" where
  "and_then a b = (case a of None \<Rightarrow> None | Some False \<Rightarrow> Some False | Some True \<Rightarrow> b)"

definition try_content :: "'m machine_scheme \<Rightarrow> string \<Rightarrow> string \<Rightarrow> bool \<Rightarrow> RuleResult" where
  "try_content M filePath pat isneg =
     (case TryFunc (FindContentInFile M filePath pat isneg) of Some r \<Rightarrow> r | None \<Rightarrow> Invalid)"

definition CheckFileForContents :: "'m machine_scheme \<Rightarrow> PolicyEvaluationContext \<Rightarrow> string \<Rightarrow> RuleResult" where
  "CheckFileForContents M ctx pat =
     (if map_option Not (and_then (fs_exists M (rule ctx)) (fs_is_regular_file M (rule ctx))) = Some True then Invalid
      else try_content M (rule ctx) pat (isNegated ctx))"

definition CheckFileExistence :: "'m machine_scheme \<Rightarrow> PolicyEvaluationContext \<Rightarrow> RuleResult" where
  "CheckFileExistence M ctx =
     (case and_then (fs_exists M (rule ctx)) (fs_is_regular_file M (rule ctx)) of
        None \<Rightarrow> Invalid
      | Some fileOk \<Rightarrow> negated (isNegated ctx) (found_if fileOk))"

definition FileRule_Evaluate :: "'m machine_scheme \<Rightarrow> PolicyEvaluationContext \<Rightarrow> RuleResult" where
  "FileRule_Evaluate M ctx =
     (case pattern ctx of Some pat \<Rightarrow> CheckFileForContents M ctx pat | None \<Rightarrow> CheckFileExistence M ctx)"

definition CommandRule_Evaluate :: "'m machine_scheme \<Rightarrow> PolicyEvaluationContext \<Rightarrow> RuleResult" where
  "CommandRule_Evaluate M ctx =
     (if rule ctx \<noteq> [] then
        (case exec M (rule ctx) of
           None \<Rightarrow> Invalid
         | Some (StdOut, StdErr) \<Rightarrow>
             (case pattern ctx of
                None \<Rightarrow> negated (isNegated ctx) Found
              | Some pat \<Rightarrow>
                  let out = Trim StdOut [CHR 0x0A]; err = Trim StdErr [CHR 0x0A] in
                  if IsRegexOrNumericPattern pat then
                    (let outMatch = PatternMatches (regex M) out pat PCRE2; errMatch = PatternMatches (regex M) err pat PCRE2 in
                     if outMatch \<noteq> None \<or> errMatch \<noteq> None then
                       negated (isNegated ctx) (found_if (outMatch = Some True \<or> errMatch = Some True))
                     else Invalid)
                  else negated (isNegated ctx) (found_if (out = pat \<or> err = pat))))
      else negated (isNegated ctx) NotFound)"

subsection \<open>Directories\<close>

text \<open>
  The loop over the entries of one directory: \<open>Inl\<close> is a return, \<open>Inr\<close> the stack of directories and
  whether a pattern was evaluated. A content rule reads the file by its bare name, as the source does.
\<close>

fun files_loop ::
  "'m machine_scheme \<Rightarrow> bool \<Rightarrow> string \<Rightarrow> string list \<Rightarrow> bool \<Rightarrow> string list \<Rightarrow> RuleResult + string list \<times> bool" where
  "files_loop M isneg pat dirs hadValue [] = Inr (dirs, hadValue)"
| "files_loop M isneg pat dirs hadValue (file # files) =
     (case fs_is_symlink M file of
        None \<Rightarrow> Inl Invalid
      | Some True \<Rightarrow> files_loop M isneg pat dirs hadValue files
      | Some False \<Rightarrow>
          (case fs_is_directory M file of
             None \<Rightarrow> Inl Invalid
           | Some True \<Rightarrow> files_loop M isneg pat (file # dirs) hadValue files
           | Some False \<Rightarrow>
               if IsRegexPattern pat then
                 (case PatternMatches (regex M) (filename file) pat PCRE2 of
                    None \<Rightarrow> files_loop M isneg pat dirs hadValue files
                  | Some matched \<Rightarrow>
                      if matched then Inl (negated isneg Found)
                      else files_loop M isneg pat dirs True files)
               else
                 (case GetPattern pat of
                    Some content \<Rightarrow>
                      let fileName = take (the (find_str '' -> '' pat)) pat in
                      if filename file = fileName then
                        Inl (try_content M fileName content isneg)
                      else files_loop M isneg pat dirs hadValue files
                  | None \<Rightarrow>
                      if filename file = pat then Inl (negated isneg Found)
                      else files_loop M isneg pat dirs hadValue files)))"

text \<open>One round of the loop over the stack of directories, the top first.\<close>

definition dir_step :: "'m machine_scheme \<Rightarrow> bool \<Rightarrow> string \<Rightarrow> string list \<Rightarrow> RuleResult + string list" where
  "dir_step M isneg pat dirs =
     (case fs_list_directory M (hd dirs) of
        None \<Rightarrow> Inl Invalid
      | Some files \<Rightarrow>
          if files = [] then Inr (tl dirs)
          else
            (case files_loop M isneg pat (tl dirs) False files of
               Inl r \<Rightarrow> Inl r
             | Inr (dirs', hadValue) \<Rightarrow> if IsRegexPattern pat \<and> \<not> hadValue then Inl Invalid else Inr dirs'))"

partial_function (option) dir_loop :: "'m machine_scheme \<Rightarrow> bool \<Rightarrow> string \<Rightarrow> string list \<Rightarrow> RuleResult option" where
  "dir_loop M isneg pat dirs =
     (if dirs = [] then Some (negated isneg NotFound)
      else if isl (dir_step M isneg pat dirs) then Some (projl (dir_step M isneg pat dirs))
      else dir_loop M isneg pat (projr (dir_step M isneg pat dirs)))"

definition CheckDirectoryForContents :: "'m machine_scheme \<Rightarrow> PolicyEvaluationContext \<Rightarrow> string \<Rightarrow> RuleResult option" where
  "CheckDirectoryForContents M ctx pat =
     (if fs_exists M (rule ctx) \<noteq> Some True then Some Invalid
      else
        (case fs_canonical M (rule ctx) of
           None \<Rightarrow> Some Invalid
         | Some rootPath \<Rightarrow>
             if fs_is_directory M rootPath \<noteq> Some True then Some Invalid
             else dir_loop M (isNegated ctx) pat [rootPath]))"

definition CheckDirectoryExistence :: "'m machine_scheme \<Rightarrow> PolicyEvaluationContext \<Rightarrow> RuleResult" where
  "CheckDirectoryExistence M ctx =
     (case and_then (fs_exists M (rule ctx)) (fs_is_directory M (rule ctx)) of
        None \<Rightarrow> Invalid
      | Some dirOk \<Rightarrow> negated (isNegated ctx) (found_if dirOk))"

definition DirRule_Evaluate :: "'m machine_scheme \<Rightarrow> PolicyEvaluationContext \<Rightarrow> RuleResult option" where
  "DirRule_Evaluate M ctx =
     (case pattern ctx of
        Some pat \<Rightarrow> CheckDirectoryForContents M ctx pat
      | None \<Rightarrow> Some (CheckDirectoryExistence M ctx))"


subsection \<open>Processes\<close>

definition getProcesses :: "'m machine_scheme \<Rightarrow> string list option" where
  "getProcesses M =
     map_option
       (concat \<circ> map (\<lambda>procJson. case json_get procJson ''name'' of Some (JStr name) \<Rightarrow> [name] | _ \<Rightarrow> []))
       (processes M)"

definition ProcessRule_Evaluate :: "'m machine_scheme \<Rightarrow> PolicyEvaluationContext \<Rightarrow> RuleResult" where
  "ProcessRule_Evaluate M ctx =
     (case getProcesses M of
        None \<Rightarrow> Invalid
      | Some names \<Rightarrow> negated (isNegated ctx) (found_if (list_ex (\<lambda>process. process = rule ctx) names)))"

subsection \<open>The registry\<close>

definition SplitRegistryKey :: "string \<Rightarrow> string \<times> string" where
  "SplitRegistryKey fullKey =
     (if fullKey = [] then ([], [])
      else if CHR 0x5C \<notin> set fullKey then (fullKey, [])
      else (takeWhile (\<lambda>c. c \<noteq> CHR 0x5C) fullKey, drop 1 (dropWhile (\<lambda>c. c \<noteq> CHR 0x5C) fullKey)))"

definition ERROR_ACCESS_DENIED :: int where
  "ERROR_ACCESS_DENIED = 5"

definition DEFAULT_IS_VALID_KEY :: "'m machine_scheme \<Rightarrow> string \<Rightarrow> bool option" where
  "DEFAULT_IS_VALID_KEY M rootKey =
     (let (key, subkey) = SplitRegistryKey rootKey in
      case reg_key_exists M key subkey of
        KeyIs b \<Rightarrow> Some b
      | SystemError code \<Rightarrow> if code = ERROR_ACCESS_DENIED then None else Some False
      | OtherError \<Rightarrow> Some False)"

definition DEFAULT_ENUM_KEYS :: "'m machine_scheme \<Rightarrow> string \<Rightarrow> string list" where
  "DEFAULT_ENUM_KEYS M root =
     (let (key, path) = SplitRegistryKey root in case reg_keys M key path of Some ks \<Rightarrow> ks | None \<Rightarrow> [])"

definition DEFAULT_ENUM_VALUES :: "'m machine_scheme \<Rightarrow> string \<Rightarrow> string list" where
  "DEFAULT_ENUM_VALUES M root =
     (let (key, path) = SplitRegistryKey root in case reg_values M key path of Some vs \<Rightarrow> vs | None \<Rightarrow> [])"

definition DEFAULT_GET_VALUE :: "'m machine_scheme \<Rightarrow> string \<Rightarrow> string \<Rightarrow> string option" where
  "DEFAULT_GET_VALUE M root value = (let (key, path) = SplitRegistryKey root in reg_value M key path value)"

definition CaseInsensitiveEqual :: "string \<Rightarrow> string \<Rightarrow> bool" where
  "CaseInsensitiveEqual a b \<longleftrightarrow> length a = length b \<and> list_all2 (\<lambda>c d. tolower c = tolower d) a b"

definition CheckMatch :: "'m machine_scheme \<Rightarrow> string \<Rightarrow> string \<Rightarrow> bool \<Rightarrow> RuleResult" where
  "CheckMatch M candidate pat isRegex =
     (if isRegex then (if PatternMatches (regex M) candidate pat PCRE2 = Some True then Found else NotFound)
      else if CaseInsensitiveEqual candidate pat then Found
      else NotFound)"

definition CheckKeyForContents :: "'m machine_scheme \<Rightarrow> PolicyEvaluationContext \<Rightarrow> string \<Rightarrow> RuleResult" where
  "CheckKeyForContents M ctx pat =
     (case DEFAULT_IS_VALID_KEY M (rule ctx) of
        None \<Rightarrow> Invalid
      | Some False \<Rightarrow> Invalid
      | Some True \<Rightarrow>
          (case GetPattern pat of
             Some content \<Rightarrow>
               let valueName = take (the (find_str '' -> '' pat)) pat in
               (case DEFAULT_GET_VALUE M (rule ctx) valueName of
                  None \<Rightarrow> Invalid
                | Some obtainedValue \<Rightarrow>
                    negated (isNegated ctx) (CheckMatch M obtainedValue content (IsRegexOrNumericPattern content)))
           | None \<Rightarrow>
               let isRegex = IsRegexPattern pat;
                   result = (if list_ex (\<lambda>key. CheckMatch M key pat isRegex = Found) (DEFAULT_ENUM_KEYS M (rule ctx))
                             then Found else NotFound);
                   result = (if result = NotFound \<and>
                               list_ex (\<lambda>value. CheckMatch M value pat isRegex = Found) (DEFAULT_ENUM_VALUES M (rule ctx))
                             then Found else result)
               in negated (isNegated ctx) result))"

definition CheckKeyExistence :: "'m machine_scheme \<Rightarrow> PolicyEvaluationContext \<Rightarrow> RuleResult" where
  "CheckKeyExistence M ctx =
     (case DEFAULT_IS_VALID_KEY M (rule ctx) of
        None \<Rightarrow> Invalid
      | Some valid \<Rightarrow> negated (isNegated ctx) (found_if valid))"

definition RegistryRule_Evaluate :: "'m machine_scheme \<Rightarrow> PolicyEvaluationContext \<Rightarrow> RuleResult" where
  "RegistryRule_Evaluate M ctx =
     (case pattern ctx of Some pat \<Rightarrow> CheckKeyForContents M ctx pat | None \<Rightarrow> CheckKeyExistence M ctx)"

subsection \<open>The factory\<close>

text \<open>An evaluator is its kind and its context; the constructor refuses an empty rule.\<close>

datatype IRuleEvaluator =
    FileRuleEvaluator PolicyEvaluationContext
  | RegistryRuleEvaluator PolicyEvaluationContext
  | ProcessRuleEvaluator PolicyEvaluationContext
  | DirRuleEvaluator PolicyEvaluationContext
  | CommandRuleEvaluator PolicyEvaluationContext

fun Evaluate :: "'m machine_scheme \<Rightarrow> IRuleEvaluator \<Rightarrow> RuleResult option" where
  "Evaluate M (FileRuleEvaluator ctx) = Some (FileRule_Evaluate M ctx)"
| "Evaluate M (RegistryRuleEvaluator ctx) = Some (RegistryRule_Evaluate M ctx)"
| "Evaluate M (ProcessRuleEvaluator ctx) = Some (ProcessRule_Evaluate M ctx)"
| "Evaluate M (DirRuleEvaluator ctx) = DirRule_Evaluate M ctx"
| "Evaluate M (CommandRuleEvaluator ctx) = Some (CommandRule_Evaluate M ctx)"

definition RuleEvaluator :: "(PolicyEvaluationContext \<Rightarrow> IRuleEvaluator) \<Rightarrow> PolicyEvaluationContext \<Rightarrow> IRuleEvaluator result" where
  "RuleEvaluator construct ctx = (if rule ctx = [] then Throw ''Rule cannot be empty'' else Ok (construct ctx))"

definition tab_blank :: string where
  "tab_blank = [CHR '' '', CHR 0x09]"

fun evaluator_of :: "bool \<Rightarrow> WM_SCA_TYPE \<Rightarrow> (PolicyEvaluationContext \<Rightarrow> IRuleEvaluator) option" where
  "evaluator_of windows WM_SCA_TYPE_FILE = Some FileRuleEvaluator"
| "evaluator_of windows WM_SCA_TYPE_REGISTRY = (if windows then Some RegistryRuleEvaluator else None)"
| "evaluator_of windows WM_SCA_TYPE_PROCESS = Some ProcessRuleEvaluator"
| "evaluator_of windows WM_SCA_TYPE_DIR = Some DirRuleEvaluator"
| "evaluator_of windows WM_SCA_TYPE_COMMAND = Some CommandRuleEvaluator"

text \<open>\<open>windows\<close> says for which platform the agent is built.\<close>

definition create_from :: "bool \<Rightarrow> bool \<Rightarrow> string \<Rightarrow> IRuleEvaluator option result" where
  "create_from windows isneg ruleInput =
     (let pat = GetPattern ruleInput;
          ruleInput = (if pat \<noteq> None then Trim (take (the (find_str ''->'' ruleInput)) ruleInput) tab_blank else ruleInput)
      in case ParseRuleType ruleInput of
           None \<Rightarrow> Ok None
         | Some (ruleType, cleanedRule) \<Rightarrow>
             (case evaluator_of windows ruleType of
                None \<Rightarrow> Ok None
              | Some construct \<Rightarrow>
                  map_result Some (RuleEvaluator construct \<lparr>rule = cleanedRule, pattern = pat, isNegated = isneg\<rparr>)))"

definition CreateEvaluator :: "bool \<Rightarrow> string \<Rightarrow> IRuleEvaluator option result" where
  "CreateEvaluator windows input =
     (let ruleInput = Trim input tab_blank in
      if starts_with ruleInput ''not '' then create_from windows True (Trim (drop 4 ruleInput) tab_blank)
      else create_from windows False ruleInput)"


subsection \<open>The walk through a directory\<close>

text \<open>The walk only goes on with entries that are directories and no symbolic links.\<close>

lemma files_loop_dirs:
  assumes "files_loop M isneg pat dirs had files = Inr (dirs', had')"
  shows "\<exists>new. dirs' = new @ dirs \<and>
    (\<forall>d \<in> set new. d \<in> set files \<and> fs_is_symlink M d = Some False \<and> fs_is_directory M d = Some True)"
  using assms
proof (induction files arbitrary: dirs had)
  case (Cons f files)
  show ?case
  proof (cases "fs_is_symlink M f = Some False \<and> fs_is_directory M f = Some True")
    case True
    then have "files_loop M isneg pat (f # dirs) had files = Inr (dirs', had')" using Cons.prems by simp
    from Cons.IH [OF this] obtain new where
      "dirs' = new @ f # dirs" "\<forall>d \<in> set new. d \<in> set files \<and> fs_is_symlink M d = Some False \<and> fs_is_directory M d = Some True"
      by blast
    then show ?thesis using True by (intro exI [of _ "new @ [f]"]) auto
  next
    case False
    then obtain had'' where "files_loop M isneg pat dirs had'' files = Inr (dirs', had')"
      using Cons.prems by (auto simp: Let_def split: option.splits bool.splits if_splits)
    from Cons.IH [OF this] show ?thesis by auto
  qed
qed simp

definition acyclic_fs :: "'m machine_scheme \<Rightarrow> (string \<Rightarrow> nat) \<Rightarrow> bool" where
  "acyclic_fs M rank \<longleftrightarrow>
     (\<forall>d files f. fs_list_directory M d = Some files \<longrightarrow> f \<in> set files \<longrightarrow>
        fs_is_symlink M f = Some False \<longrightarrow> fs_is_directory M f = Some True \<longrightarrow> rank f < rank d)"

definition ranks :: "(string \<Rightarrow> nat) \<Rightarrow> string list \<Rightarrow> nat multiset" where
  "ranks rank dirs = mset (map rank dirs)"

lemma dir_step_ranks:
  assumes "acyclic_fs M rank" "dirs \<noteq> []" "dir_step M isneg pat dirs = Inr dirs'"
  shows "(ranks rank dirs', ranks rank dirs) \<in> mult less_than"
proof -
  obtain d ds where d: "dirs = d # ds" using assms(2) by (cases dirs) auto
  from assms(3) d obtain files where files: "fs_list_directory M d = Some files"
    by (auto simp: dir_step_def split: option.splits)
  obtain new where new: "dirs' = new @ ds"
    "\<forall>f \<in> set new. f \<in> set files \<and> fs_is_symlink M f = Some False \<and> fs_is_directory M f = Some True"
  proof (cases "files = []")
    case True
    then show ?thesis using assms(3) d files that [of "[]"] by (simp add: dir_step_def)
  next
    case False
    then obtain had where "files_loop M isneg pat ds False files = Inr (dirs', had)"
      using assms(3) d files by (auto simp: dir_step_def split: sum.splits if_splits)
    from files_loop_dirs [OF this] show ?thesis using that by blast
  qed
  then have "\<forall>k \<in># mset (map rank new). \<exists>j \<in># {#rank d#}. (k, j) \<in> less_than"
    using assms(1) files by (auto simp: acyclic_fs_def)
  from one_step_implies_mult [OF _ this, of "mset (map rank ds)"] show ?thesis
    by (simp add: ranks_def d new(1) add.commute)
qed

lemma dir_loop_returns:
  assumes "acyclic_fs M rank"
  shows "\<exists>r. dir_loop M isneg pat dirs = Some r"
proof (induction dirs rule: wf_induct [OF wf_inv_image [OF wf_mult [OF wf_less_than], of "ranks rank"]])
  case (1 dirs)
  show ?case
  proof (cases "dirs = [] \<or> isl (dir_step M isneg pat dirs)")
    case True
    then show ?thesis by (subst dir_loop.simps) auto
  next
    case False
    then obtain dirs' where s: "dir_step M isneg pat dirs = Inr dirs'" "dirs \<noteq> []"
      by (metis isl_def sum.collapse(2))
    from dir_step_ranks [OF assms s(2,1)] 1 have "\<exists>r. dir_loop M isneg pat dirs' = Some r" by simp
    then show ?thesis using s by (subst dir_loop.simps) simp
  qed
qed

lemma rules_end:
  assumes "acyclic_fs M rank"
  shows "\<exists>r. Evaluate M ev = Some r"
proof (cases ev)
  case (DirRuleEvaluator ctx)
  then show ?thesis using dir_loop_returns [OF assms]
    by (auto simp: DirRule_Evaluate_def CheckDirectoryForContents_def split: option.split)
qed auto

subsection \<open>Negation\<close>

fun complement :: "RuleResult \<Rightarrow> RuleResult" where
  "complement Invalid = Invalid"
| "complement Found = NotFound"
| "complement NotFound = Found"

lemma complement_twice [simp]: "complement (complement r) = r"
  by (cases r) auto

lemma negated_complement: "r \<noteq> Invalid \<Longrightarrow> negated (\<not> isneg) r = complement (negated isneg r)"
  by (cases r) (auto simp: negated_def)

lemma found_if_valid [simp]: "found_if b \<noteq> Invalid"
  by (simp add: found_if_def)

lemma CheckMatch_valid [simp]: "CheckMatch M c p x \<noteq> Invalid"
  by (simp add: CheckMatch_def)

lemma FindContentInFile_complement:
  "FindContentInFile M f pat (\<not> isneg) = map_result complement (FindContentInFile M f pat isneg)"
  by (auto simp: FindContentInFile_def readLineByLine_def split: option.splits)

lemma TryFunc_map_result [simp]: "TryFunc (map_result f r) = map_option f (TryFunc r)"
  by (cases r) (auto simp: TryFunc_def)

lemma try_content_complement: "try_content M f pat (\<not> isneg) = complement (try_content M f pat isneg)"
  unfolding try_content_def FindContentInFile_complement by (simp split: option.splits)

lemma files_loop_complement:
  "files_loop M (\<not> isneg) pat dirs had files = map_sum complement id (files_loop M isneg pat dirs had files)"
proof (induction files arbitrary: dirs had)
  case (Cons f files)
  then show ?case by (simp add: try_content_complement negated_complement Let_def split: option.split bool.split)
qed simp

lemma dir_step_complement: "dir_step M (\<not> isneg) pat dirs = map_sum complement id (dir_step M isneg pat dirs)"
  by (auto simp: dir_step_def files_loop_complement split: option.splits sum.splits)


lemma dir_loop_complement_Some:
  assumes "dir_loop M isneg pat dirs = Some r"
  shows "dir_loop M (\<not> isneg) pat dirs = Some (complement r)"
proof (rule dir_loop.raw_induct [of "\<lambda>M isneg pat dirs r. dir_loop M (\<not> isneg) pat dirs = Some (complement r)", OF _ assms])
  show "dir_loop M (\<not> isneg) pat dirs = Some (complement r)"
    if IH: "\<And>M isneg pat dirs r. loop M isneg pat dirs = Some r \<Longrightarrow> dir_loop M (\<not> isneg) pat dirs = Some (complement r)"
      and eq: "(if dirs = [] then Some (negated isneg NotFound)
        else if isl (dir_step M isneg pat dirs) then Some (projl (dir_step M isneg pat dirs))
        else loop M isneg pat (projr (dir_step M isneg pat dirs))) = Some r"
    for loop and M :: "'a machine_scheme" and isneg pat dirs r
  proof (cases "dirs = [] \<or> isl (dir_step M isneg pat dirs)")
    case True
    then show ?thesis using eq
      by (subst dir_loop.simps) (auto simp: dir_step_complement negated_complement isl_map_sum map_sum_sel)
  next
    case False
    then obtain dirs' where s: "dir_step M isneg pat dirs = Inr dirs'" "dirs \<noteq> []"
      by (metis isl_def sum.collapse(2))
    then have "loop M isneg pat dirs' = Some r" using eq by simp
    from IH [OF this] s show ?thesis by (subst dir_loop.simps) (simp add: dir_step_complement)
  qed
qed

lemma dir_loop_complement: "dir_loop M (\<not> isneg) pat dirs = map_option complement (dir_loop M isneg pat dirs)"
proof (cases "dir_loop M isneg pat dirs")
  case None
  then show ?thesis using dir_loop_complement_Some [of M "\<not> isneg" pat dirs] by (cases "dir_loop M (\<not> isneg) pat dirs") auto
qed (simp add: dir_loop_complement_Some)

fun context_of :: "IRuleEvaluator \<Rightarrow> PolicyEvaluationContext" where
  "context_of (FileRuleEvaluator ctx) = ctx"
| "context_of (RegistryRuleEvaluator ctx) = ctx"
| "context_of (ProcessRuleEvaluator ctx) = ctx"
| "context_of (DirRuleEvaluator ctx) = ctx"
| "context_of (CommandRuleEvaluator ctx) = ctx"

fun toggle :: "IRuleEvaluator \<Rightarrow> IRuleEvaluator" where
  "toggle (FileRuleEvaluator ctx) = FileRuleEvaluator (ctx\<lparr>isNegated := \<not> isNegated ctx\<rparr>)"
| "toggle (RegistryRuleEvaluator ctx) = RegistryRuleEvaluator (ctx\<lparr>isNegated := \<not> isNegated ctx\<rparr>)"
| "toggle (ProcessRuleEvaluator ctx) = ProcessRuleEvaluator (ctx\<lparr>isNegated := \<not> isNegated ctx\<rparr>)"
| "toggle (DirRuleEvaluator ctx) = DirRuleEvaluator (ctx\<lparr>isNegated := \<not> isNegated ctx\<rparr>)"
| "toggle (CommandRuleEvaluator ctx) = CommandRuleEvaluator (ctx\<lparr>isNegated := \<not> isNegated ctx\<rparr>)"

lemma Evaluate_toggle: "Evaluate M (toggle ev) = map_option complement (Evaluate M ev)"
proof (cases ev)
  case (FileRuleEvaluator ctx)
  then show ?thesis
    by (simp add: FileRule_Evaluate_def CheckFileForContents_def CheckFileExistence_def try_content_complement
        negated_complement split: option.split)
next
  case (RegistryRuleEvaluator ctx)
  then show ?thesis
    by (simp add: RegistryRule_Evaluate_def CheckKeyForContents_def CheckKeyExistence_def negated_complement Let_def
        split: option.split bool.split)
next
  case (ProcessRuleEvaluator ctx)
  then show ?thesis by (simp add: ProcessRule_Evaluate_def negated_complement split: option.split)
next
  case (DirRuleEvaluator ctx)
  then show ?thesis
    by (simp add: DirRule_Evaluate_def CheckDirectoryForContents_def CheckDirectoryExistence_def dir_loop_complement
        negated_complement split: option.split)
next
  case (CommandRuleEvaluator ctx)
  then show ?thesis by (simp add: CommandRule_Evaluate_def negated_complement Let_def split: option.split prod.split)
qed

lemma create_from_toggle: "create_from w (\<not> n) r = map_result (map_option toggle) (create_from w n r)"
proof -
  have "construct (ctx\<lparr>isNegated := \<not> isNegated ctx\<rparr>) = toggle (construct ctx)" if "evaluator_of w t = Some construct" for t construct ctx
    using that by (cases t) (auto split: if_splits)
  from this [of _ _ "\<lparr>rule = r', pattern = p, isNegated = n\<rparr>" for r' p] show ?thesis
    by (simp add: create_from_def RuleEvaluator_def Let_def split: option.split prod.split)
qed


lemma Trim_prefix:
  assumes "Trim R cs \<noteq> []" "w \<noteq> []" "hd w \<notin> set cs"
  shows "Trim (w @ R) cs = w @ RightTrim R cs"
proof -
  have ex: "\<exists>x \<in> set R. x \<notin> set cs"
  proof (rule ccontr)
    assume "\<not> (\<exists>x \<in> set R. x \<notin> set cs)"
    then have "RightTrim R cs = []" by (auto simp: RightTrim_def)
    then show False using assms(1) by (simp add: Trim_def LeftTrim_def)
  qed
  then have "RightTrim (w @ R) cs = w @ RightTrim R cs" by (auto simp: RightTrim_def dropWhile_append1)
  then show ?thesis using assms(2,3) by (cases w) (auto simp: Trim_def LeftTrim_def)
qed

lemma Trim_RightTrim: "Trim (RightTrim R cs) cs = Trim R cs"
  by (simp add: Trim_def RightTrim_def)

lemma CreateEvaluator_not:
  assumes "Trim R tab_blank \<noteq> []" "\<not> starts_with (Trim R tab_blank) ''not ''"
  shows "CreateEvaluator w (''not '' @ R) = map_result (map_option toggle) (CreateEvaluator w R)"
proof -
  have t: "Trim (''not '' @ R) tab_blank = ''not '' @ RightTrim R tab_blank"
    by (rule Trim_prefix [OF assms(1)]) (simp_all add: tab_blank_def)
  have d: "drop 4 (''not '' @ RightTrim R tab_blank) = RightTrim R tab_blank" by simp
  have "CreateEvaluator w (''not '' @ R) = create_from w True (Trim R tab_blank)"
    unfolding CreateEvaluator_def t Let_def d Trim_RightTrim by (simp add: starts_with_def)
  then show ?thesis using assms(2) create_from_toggle [of w False "Trim R tab_blank"] by (simp add: CreateEvaluator_def)
qed

subsection \<open>Properties\<close>

definition evaluate_rule :: "'m machine_scheme \<Rightarrow> bool \<Rightarrow> string \<Rightarrow> RuleResult option option result" where
  "evaluate_rule M windows input = map_result (map_option (Evaluate M)) (CreateEvaluator windows input)"

text \<open>
  C28: on every machine and for every kind of rule, writing \<open>not\<close> in front of a rule gives the complement of
  the rule: found becomes not found and back, invalid stays invalid, and it is refused, or never
  returns, just when the rule is or does.
\<close>

theorem not_rule_complements:
  assumes "Trim R tab_blank \<noteq> []" "\<not> starts_with (Trim R tab_blank) ''not ''"
  shows "evaluate_rule M windows (''not '' @ R) =
    map_result (map_option (map_option complement)) (evaluate_rule M windows R)"
proof -
  have "map_result (map_option (Evaluate M)) (map_result (map_option toggle) r) =
      map_result (map_option (map_option complement)) (map_result (map_option (Evaluate M)) r)" for r
    by (cases r) (auto simp: option.map_comp o_def Evaluate_toggle)
  then show ?thesis unfolding evaluate_rule_def CreateEvaluator_not [OF assms] .
qed

text \<open>A machine with one directory \<open>/d\<close> holding an empty directory \<open>/d/e\<close>, and one process.\<close>

definition small_machine :: machine where
  "small_machine = \<lparr>regex = literal_rx, fs_exists = (\<lambda>p. Some (p \<in> {''/d'', ''/d/e''})), fs_is_regular_file = (\<lambda>p. Some False),
     fs_is_directory = (\<lambda>p. Some (p \<in> {''/d'', ''/d/e''})), fs_is_symlink = (\<lambda>p. Some False), fs_canonical = Some,
     fs_list_directory = (\<lambda>p. if p = ''/d'' then Some [''/d/e''] else Some []), fs_open = (\<lambda>p. None), exec = (\<lambda>c. None),
     processes = Some [JObj [(''name'', JStr ''sshd'')]], reg_key_exists = (\<lambda>k s. OtherError), reg_keys = (\<lambda>k s. None),
     reg_values = (\<lambda>k s. None), reg_value = (\<lambda>k s v. None)\<rparr>"

theorem not_rule_complements_witness: "evaluate_rule small_machine False ''not p:sshd'' = Ok (Some (Some NotFound))"
proof -
  have t: "Trim ''p:sshd'' tab_blank = ''p:sshd''" by (simp add: Trim_def LeftTrim_def RightTrim_def tab_blank_def)
  have "CreateEvaluator False ''p:sshd'' = Ok (Some (ProcessRuleEvaluator \<lparr>rule = ''sshd'', pattern = None, isNegated = False\<rparr>))"
    by (simp add: CreateEvaluator_def t starts_with_def create_from_def GetPattern_def ParseRuleType_def typeMap_def RuleEvaluator_def)
  then have "evaluate_rule small_machine False ''p:sshd'' = Ok (Some (Some Found))"
    by (simp add: evaluate_rule_def ProcessRule_Evaluate_def getProcesses_def small_machine_def found_if_def negated_def)
  with not_rule_complements [of "''p:sshd''" small_machine False] show ?thesis by (simp add: t starts_with_def)
qed

text \<open>
  C29: every rule evaluates to a result on a machine whose directories, symbolic links left out, have no
  cycles; in particular the walk through a directory tree ends.
\<close>

theorem rules_return:
  assumes "acyclic_fs M rank"
  shows "\<exists>r. Evaluate M ev = Some r"
  using rules_end [OF assms] .

theorem rules_return_witness:
  "\<exists>r. Evaluate small_machine (DirRuleEvaluator \<lparr>rule = ''/d'', pattern = Some ''x'', isNegated = False\<rparr>) = Some r"
  by (rule rules_return [of _ "\<lambda>p. 10 - length p"]) (auto simp: acyclic_fs_def small_machine_def split: if_splits)

text \<open>
  C30: a regular expression on the names in a directory is answered \<open>Invalid\<close> as soon as a directory holds
  entries but nothing except directories and symbolic links: the directories below are never looked
  at, whatever they hold, and with \<open>not\<close> too.
\<close>

theorem regex_rule_gives_up:
  assumes "fs_exists M (rule ctx) = Some True" "fs_canonical M (rule ctx) = Some root"
    and "fs_is_directory M root = Some True" "fs_list_directory M root = Some files" "files \<noteq> []"
    and "\<forall>f \<in> set files. fs_is_symlink M f = Some True \<or> fs_is_symlink M f = Some False \<and> fs_is_directory M f = Some True"
    and "pattern ctx = Some pat" "IsRegexPattern pat"
  shows "Evaluate M (DirRuleEvaluator ctx) = Some Invalid"
proof -
  have "\<exists>dirs'. files_loop M isneg pat dirs False files = Inr (dirs', False)" for isneg dirs
    using assms(6) by (induction files arbitrary: dirs) auto
  then obtain dirs' where "files_loop M (isNegated ctx) pat [] False files = Inr (dirs', False)" by blast
  then have "dir_step M (isNegated ctx) pat [root] = Inl Invalid" using assms(4,5,8) by (simp add: dir_step_def)
  then have "dir_loop M (isNegated ctx) pat [root] = Some Invalid" by (subst dir_loop.simps) simp
  then show ?thesis using assms by (simp add: DirRule_Evaluate_def CheckDirectoryForContents_def)
qed

theorem regex_rule_gives_up_witness:
  "Evaluate small_machine (DirRuleEvaluator \<lparr>rule = ''/d'', pattern = Some ''r:x'', isNegated = True\<rparr>) = Some Invalid"
  by (rule regex_rule_gives_up [of _ _ "''/d''" "[''/d/e'']" "''r:x''"]) (auto simp: small_machine_def IsRegexPattern_def starts_with_def)

text \<open>A rule on the content of a file in a directory reads the file under its bare name, so the answer
  does not depend on the file that was found.\<close>

lemma content_rule_reads_bare_name:
  assumes "GetPattern pat = Some content" "\<not> IsRegexPattern pat" "fs_is_symlink M f = Some False" "fs_is_directory M f = Some False"
    and "filename f = take (the (find_str '' -> '' pat)) pat"
  shows "files_loop M isneg pat dirs had (f # files) = Inl (try_content M (filename f) content isneg)"
  using assms by simp

end
