(* ===== verification/Sca_Policy.thy ===== *)
theory Sca_Policy
  imports Sca_Policy_Check
begin

section \<open>Policies of the configuration assessment\<close>

text \<open>
  \<^verbatim>\<open>src/src/modules/sca/src/check_condition_evaluator.cpp\<close> and \<^verbatim>\<open>sca_policy.cpp\<close>: how the results of the rules of a
  check make the result of the check, and the scan of a policy. The flag \<^verbatim>\<open>m_keepRunning\<close> is cleared by
  another thread, so a scan takes the values it reads as the argument \<open>running\<close>, one per reading; a
  rule that never returns makes the scan \<open>None\<close>. The lemmas give the result of a check as a function of
  the set of its rule results, and the reports of a scan.
\<close>

subsection \<open>The condition of a check\<close>

datatype ConditionType = AllOf | AnyOf | NoneOf

record CheckConditionEvaluator =
  m_type :: ConditionType
  m_totalRules :: nat
  m_passedRules :: nat
  m_result :: "bool option"
  m_hasInvalid :: bool

definition CheckConditionEvaluator_init :: "ConditionType \<Rightarrow> CheckConditionEvaluator" where
  "CheckConditionEvaluator_init type =
     \<lparr>m_type = type, m_totalRules = 0, m_passedRules = 0, m_result = None, m_hasInvalid = False\<rparr>"

definition FromString :: "string \<Rightarrow> CheckConditionEvaluator result" where
  "FromString str =
     (if str = ''all'' then Ok (CheckConditionEvaluator_init AllOf)
      else if str = ''any'' then Ok (CheckConditionEvaluator_init AnyOf)
      else if str = ''none'' then Ok (CheckConditionEvaluator_init NoneOf)
      else Throw (''Invalid condition type: '' @ str))"

definition decided :: "ConditionType \<Rightarrow> RuleResult \<Rightarrow> bool option" where
  "decided type result =
     (case type of
        AllOf \<Rightarrow> if result = NotFound then Some False else None
      | AnyOf \<Rightarrow> if result = Found then Some True else None
      | NoneOf \<Rightarrow> if result = Found then Some False else None)"

definition AddResult :: "RuleResult \<Rightarrow> CheckConditionEvaluator \<Rightarrow> CheckConditionEvaluator" where
  "AddResult result e =
     (if m_result e \<noteq> None then e
      else
        e\<lparr>m_hasInvalid := m_hasInvalid e \<or> result = Invalid,
          m_totalRules := m_totalRules e + 1,
          m_passedRules := m_passedRules e + (if result = Found then 1 else 0),
          m_result := decided (m_type e) result\<rparr>)"

definition Result :: "CheckConditionEvaluator \<Rightarrow> CheckResult" where
  "Result e =
     (case m_result e of
        Some b \<Rightarrow> if b then Passed else Failed
      | None \<Rightarrow>
          if m_totalRules e = 0 \<or> m_hasInvalid e then NotApplicable
          else (case m_type e of AllOf \<Rightarrow> Passed | AnyOf \<Rightarrow> Failed | NoneOf \<Rightarrow> Passed))"

subsection \<open>A policy\<close>

record Check =
  check_id :: "string option"
  condition :: string
  rules :: "IRuleEvaluator list"

record SCAPolicy =
  m_id :: string
  m_requirements :: Check
  m_checks :: "Check list"

text \<open>How a scan ends: it ran through, it saw the flag cleared, a call threw, or a call ended the process.\<close>

datatype scan_end = Completed | Aborted | Thrown string | Crashed

text \<open>
  The loop over the rules of a check. \<open>k\<close> counts the readings of the flag; \<open>Inr None\<close> is the return when the flag is
  cleared.
\<close>

fun scan_rules ::
  "'m machine_scheme \<Rightarrow> (nat \<Rightarrow> bool) \<Rightarrow> nat \<Rightarrow> CheckConditionEvaluator \<Rightarrow> IRuleEvaluator list
     \<Rightarrow> (CheckConditionEvaluator option \<times> nat) option" where
  "scan_rules M running k e [] = Some (Some e, k)"
| "scan_rules M running k e (r # rs) =
     (if \<not> running k then Some (None, k + 1)
      else case Evaluate M r of
             None \<Rightarrow> None
           | Some result \<Rightarrow> scan_rules M running (k + 1) (AddResult result e) rs)"

type_synonym report = "string \<times> string \<times> string"

text \<open>
  The callback \<^verbatim>\<open>reportCheckResult\<close>, an argument of the scan: it works on a state of its own and may throw, and nothing
  in the scan catches the exception. \<open>call_report\<close> is one call: the reports made so far are extended, and
  the rest of the scan goes on only when the call returns.
\<close>

type_synonym 's reporter = "report \<Rightarrow> 's \<Rightarrow> unit result \<times> 's"

type_synonym 's scanned = "report list \<times> scan_end \<times> 's"

definition call_report ::
  "'s reporter \<Rightarrow> report \<Rightarrow> report list \<Rightarrow> 's \<Rightarrow> (report list \<Rightarrow> 's \<Rightarrow> 's scanned option) \<Rightarrow> 's scanned option" where
  "call_report reportCheckResult r reports st go_on =
     (case reportCheckResult r st of
        (Ok _, st') \<Rightarrow> go_on (reports @ [r]) st'
      | (Throw err, st') \<Rightarrow> Some (reports @ [r], Thrown err, st')
      | (Terminate, st') \<Rightarrow> Some (reports @ [r], Crashed, st'))"

lemma call_report_cong [fundef_cong]:
  "f = f' \<Longrightarrow> r = r' \<Longrightarrow> reports = reports' \<Longrightarrow> st = st' \<Longrightarrow> (\<And>rs s. go_on rs s = go_on' rs s) \<Longrightarrow>
   call_report f r reports st go_on = call_report f' r' reports' st' go_on'"
  by (simp add: call_report_def split: prod.split result.split)

text \<open>\<^verbatim>\<open>check.id.value()\<close> throws when there is no identifier.\<close>

fun scan_checks ::
  "'m machine_scheme \<Rightarrow> (nat \<Rightarrow> bool) \<Rightarrow> 's reporter \<Rightarrow> nat \<Rightarrow> string \<Rightarrow> report list \<Rightarrow> 's \<Rightarrow> Check list
     \<Rightarrow> 's scanned option" where
  "scan_checks M running f k pid reports st [] = Some (reports, Completed, st)"
| "scan_checks M running f k pid reports st (c # cs) =
     (case FromString (condition c) of
        Throw err \<Rightarrow> Some (reports, Thrown err, st)
      | Terminate \<Rightarrow> None
      | Ok e \<Rightarrow>
          (case scan_rules M running k e (rules c) of
             None \<Rightarrow> None
           | Some (None, k') \<Rightarrow> Some (reports, Aborted, st)
           | Some (Some e', k') \<Rightarrow>
               (case check_id c of
                  None \<Rightarrow> Some (reports, Thrown ''bad_optional_access'', st)
                | Some cid \<Rightarrow>
                    call_report f (pid, cid, CheckResultToString (Result e')) reports st
                      (\<lambda>reports' st'. scan_checks M running f k' pid reports' st' cs))))"

fun report_not_applicable ::
  "'s reporter \<Rightarrow> string \<Rightarrow> report list \<Rightarrow> 's \<Rightarrow> Check list \<Rightarrow> 's scanned option" where
  "report_not_applicable f pid reports st [] = Some (reports, Completed, st)"
| "report_not_applicable f pid reports st (c # cs) =
     (case check_id c of
        None \<Rightarrow> Some (reports, Thrown ''bad_optional_access'', st)
      | Some cid \<Rightarrow>
          call_report f (pid, cid, CheckResultToString NotApplicable) reports st
            (\<lambda>reports' st'. report_not_applicable f pid reports' st' cs))"

definition scan_after ::
  "'m machine_scheme \<Rightarrow> (nat \<Rightarrow> bool) \<Rightarrow> 's reporter \<Rightarrow> nat \<Rightarrow> SCAPolicy \<Rightarrow> CheckResult \<Rightarrow> 's \<Rightarrow> 's scanned option" where
  "scan_after M running f k p requirementsOk st =
     (if requirementsOk = Passed then scan_checks M running f k (m_id p) [] st (m_checks p)
      else report_not_applicable f (m_id p) [] st (m_checks p))"

definition Scan ::
  "'m machine_scheme \<Rightarrow> (nat \<Rightarrow> bool) \<Rightarrow> 's reporter \<Rightarrow> SCAPolicy \<Rightarrow> 's \<Rightarrow> 's scanned option" where
  "Scan M running reportCheckResult p st =
     (if rules (m_requirements p) = [] then scan_after M running reportCheckResult 0 p Passed st
      else
        (case FromString (condition (m_requirements p)) of
           Throw err \<Rightarrow> Some ([], Thrown err, st)
         | Terminate \<Rightarrow> None
         | Ok e \<Rightarrow>
             (case scan_rules M running 0 e (rules (m_requirements p)) of
                None \<Rightarrow> None
              | Some (None, k) \<Rightarrow> Some ([], Aborted, st)
              | Some (Some e', k) \<Rightarrow> scan_after M running reportCheckResult k p (Result e') st)))"

subsection \<open>Running\<close>

text \<open>
  \<^verbatim>\<open>Run\<close> and \<^verbatim>\<open>Stop\<close> as steps of the coroutine and of the thread that stops it. \<open>scans\<close> counts the scans that
  began; a scan ends in one step here, its own readings of the flag being the argument of \<open>Scan\<close>.
\<close>

datatype run_point = AtStart | AtLoop | Waiting | ScanningAtStart | Scanning | Ended

record run_state =
  point :: run_point
  m_keepRunning :: bool
  m_scanInProgress :: bool
  scans :: nat

definition run_init :: run_state where
  "run_init = \<lparr>point = AtStart, m_keepRunning = True, m_scanInProgress = False, scans = 0\<rparr>"

inductive run_step :: "bool \<Rightarrow> run_state \<Rightarrow> run_state \<Rightarrow> bool" for scanOnStart :: bool where
  first_scan: "point s = AtStart \<Longrightarrow> scanOnStart \<Longrightarrow> m_keepRunning s \<Longrightarrow>
     run_step scanOnStart s (s\<lparr>point := ScanningAtStart, m_scanInProgress := True, scans := scans s + 1\<rparr>)"
| no_first_scan: "point s = AtStart \<Longrightarrow> \<not> scanOnStart \<or> \<not> m_keepRunning s \<Longrightarrow> run_step scanOnStart s (s\<lparr>point := AtLoop\<rparr>)"
| scanned: "point s = ScanningAtStart \<or> point s = Scanning \<Longrightarrow>
     run_step scanOnStart s (s\<lparr>point := AtLoop, m_scanInProgress := False\<rparr>)"
| scan_throws: "point s = ScanningAtStart \<or> point s = Scanning \<Longrightarrow> run_step scanOnStart s (s\<lparr>point := Ended\<rparr>)"
| wait: "point s = AtLoop \<Longrightarrow> m_keepRunning s \<Longrightarrow> run_step scanOnStart s (s\<lparr>point := Waiting\<rparr>)"
| leave: "point s = AtLoop \<Longrightarrow> \<not> m_keepRunning s \<Longrightarrow> run_step scanOnStart s (s\<lparr>point := Ended\<rparr>)"
| waited: "point s = Waiting \<Longrightarrow>
     run_step scanOnStart s (s\<lparr>point := Scanning, m_scanInProgress := True, scans := scans s + 1\<rparr>)"
| stopped: "run_step scanOnStart s (s\<lparr>m_keepRunning := False\<rparr>)"


subsection \<open>What a condition means\<close>

definition condition_spec :: "ConditionType \<Rightarrow> RuleResult set \<Rightarrow> CheckResult" where
  "condition_spec type R =
     (case type of
        AllOf \<Rightarrow> if NotFound \<in> R then Failed else if R = {} \<or> Invalid \<in> R then NotApplicable else Passed
      | AnyOf \<Rightarrow> if Found \<in> R then Passed else if R = {} \<or> Invalid \<in> R then NotApplicable else Failed
      | NoneOf \<Rightarrow> if Found \<in> R then Failed else if R = {} \<or> Invalid \<in> R then NotApplicable else Passed)"

definition seen :: "RuleResult list \<Rightarrow> CheckConditionEvaluator \<Rightarrow> bool" where
  "seen rs e \<longleftrightarrow>
     (case m_result e of
        Some b \<Rightarrow> \<exists>r \<in> set rs. decided (m_type e) r = Some b
      | None \<Rightarrow> (\<forall>r \<in> set rs. decided (m_type e) r = None) \<and> m_totalRules e = length rs \<and> (m_hasInvalid e \<longleftrightarrow> Invalid \<in> set rs))"

lemma seen_AddResult: "seen rs e \<Longrightarrow> seen (rs @ [r]) (AddResult r e)"
  by (cases "m_result e"; cases "decided (m_type e) r") (auto simp: seen_def AddResult_def)

lemma m_type_AddResult [simp]: "m_type (AddResult r e) = m_type e"
  by (simp add: AddResult_def)

lemma seen_fold: "seen rs e \<Longrightarrow> seen (rs @ rs') (fold AddResult rs' e) \<and> m_type (fold AddResult rs' e) = m_type e"
proof (induction rs' arbitrary: rs e)
  case (Cons r rs')
  from Cons.IH [OF seen_AddResult [OF Cons.prems, of r]] show ?case by simp
qed simp

lemma Result_seen: "seen rs e \<Longrightarrow> Result e = condition_spec (m_type e) (set rs)"
proof (cases "m_result e")
  case None
  assume s: "seen rs e"
  with None show ?thesis
    by (cases "m_type e") (auto simp: seen_def Result_def condition_spec_def decided_def split: if_splits)
next
  case (Some b)
  assume "seen rs e"
  with Some obtain r where "r \<in> set rs" "decided (m_type e) r = Some b" by (auto simp: seen_def)
  with Some show ?thesis
    by (cases "m_type e") (auto simp: Result_def condition_spec_def decided_def split: if_splits)
qed

lemma seen_init: "seen [] (CheckConditionEvaluator_init type)"
  by (simp add: seen_def CheckConditionEvaluator_init_def)

lemma Result_fold: "Result (fold AddResult rs (CheckConditionEvaluator_init type)) = condition_spec type (set rs)"
  using seen_fold [OF seen_init, of rs type] Result_seen [of rs] by (simp add: CheckConditionEvaluator_init_def)

subsection \<open>What a scan reports\<close>

definition rule_results :: "'m machine_scheme \<Rightarrow> Check \<Rightarrow> RuleResult list" where
  "rule_results M c = map (\<lambda>r. the (Evaluate M r)) (rules c)"

definition type_of_condition :: "string \<Rightarrow> ConditionType" where
  "type_of_condition s = (if s = ''all'' then AllOf else if s = ''any'' then AnyOf else NoneOf)"

definition check_outcome :: "'m machine_scheme \<Rightarrow> Check \<Rightarrow> CheckResult" where
  "check_outcome M c = condition_spec (type_of_condition (condition c)) (set (rule_results M c))"

definition check_ok :: "'m machine_scheme \<Rightarrow> Check \<Rightarrow> bool" where
  "check_ok M c \<longleftrightarrow> condition c \<in> {''all'', ''any'', ''none''} \<and> (\<forall>r \<in> set (rules c). Evaluate M r \<noteq> None)"

definition policy_reports :: "'m machine_scheme \<Rightarrow> SCAPolicy \<Rightarrow> report list" where
  "policy_reports M p =
     map (\<lambda>c. (m_id p, the (check_id c),
         CheckResultToString
           (if rules (m_requirements p) = [] \<or> check_outcome M (m_requirements p) = Passed then check_outcome M c else NotApplicable)))
       (m_checks p)"

lemma FromString_ok: "check_ok M c \<Longrightarrow> FromString (condition c) = Ok (CheckConditionEvaluator_init (type_of_condition (condition c)))"
  by (auto simp: check_ok_def FromString_def type_of_condition_def)

lemma scan_rules_cases:
  assumes "\<forall>r \<in> set rs. Evaluate M r \<noteq> None"
  obtains k' where "scan_rules M running k e rs = Some (Some (fold AddResult (map (\<lambda>r. the (Evaluate M r)) rs) e), k')"
  | k' j where "scan_rules M running k e rs = Some (None, k')" "\<not> running j"
  using assms
proof (induction rs arbitrary: k e thesis)
  case (Cons r rs)
  obtain y where y: "Evaluate M r = Some y" using Cons.prems(3) by auto
  show ?case
  proof (cases "running k")
    case True
    then have eq: "scan_rules M running k e (r # rs) = scan_rules M running (Suc k) (AddResult y e) rs" using y by simp
    show ?thesis
    proof (rule Cons.IH [of "Suc k" "AddResult y e"])
      show "\<forall>r \<in> set rs. Evaluate M r \<noteq> None" using Cons.prems(3) by simp
    qed (use Cons.prems(1,2) eq y in \<open>simp_all\<close>)
  next
    case False
    then show ?thesis using Cons.prems(2) by simp
  qed
qed simp

lemma scan_check_cases:
  assumes "check_ok M c"
  obtains k' e where "scan_rules M running k (CheckConditionEvaluator_init (type_of_condition (condition c))) (rules c) = Some (Some e, k')"
    "Result e = check_outcome M c"
  | k' j where "scan_rules M running k (CheckConditionEvaluator_init (type_of_condition (condition c))) (rules c) = Some (None, k')"
    "\<not> running j"
proof (rule scan_rules_cases [of "rules c" M running k "CheckConditionEvaluator_init (type_of_condition (condition c))"])
  show "\<forall>r \<in> set (rules c). Evaluate M r \<noteq> None" using assms by (simp add: check_ok_def)
next
  fix k'
  assume "scan_rules M running k (CheckConditionEvaluator_init (type_of_condition (condition c))) (rules c) =
    Some (Some (fold AddResult (map (\<lambda>r. the (Evaluate M r)) (rules c)) (CheckConditionEvaluator_init (type_of_condition (condition c)))), k')"
  moreover have "Result (fold AddResult (map (\<lambda>r. the (Evaluate M r)) (rules c))
      (CheckConditionEvaluator_init (type_of_condition (condition c)))) = check_outcome M c"
    using Result_fold [of "rule_results M c"] by (simp add: check_outcome_def rule_results_def)
  ultimately show ?thesis using that(1) by blast
next
  fix k' j
  assume "scan_rules M running k (CheckConditionEvaluator_init (type_of_condition (condition c))) (rules c) = Some (None, k')"
    "\<not> running j"
  then show ?thesis using that(2) by blast
qed

text \<open>A list of reports made one after the other, up to the first call that does not return.\<close>

fun report_list :: "'s reporter \<Rightarrow> report list \<Rightarrow> 's \<Rightarrow> 's scanned" where
  "report_list f [] st = ([], Completed, st)"
| "report_list f (r # rs) st =
     (case f r st of
        (Ok _, st') \<Rightarrow> (case report_list f rs st' of (made, fin, st'') \<Rightarrow> (r # made, fin, st''))
      | (Throw err, st') \<Rightarrow> ([r], Thrown err, st')
      | (Terminate, st') \<Rightarrow> ([r], Crashed, st'))"

lemma report_list_prefix:
  "report_list f rs st = (made, fin, st') \<Longrightarrow> prefix made rs \<and> (fin = Completed \<longrightarrow> made = rs) \<and> fin \<noteq> Aborted"
  by (induction rs arbitrary: st made) (auto split: prod.splits result.splits)

lemma report_list_returns:
  "\<forall>r st. r \<in> set rs \<longrightarrow> is_ok (fst (f r st)) \<Longrightarrow> \<exists>st'. report_list f rs st = (rs, Completed, st')"
proof (induction rs arbitrary: st)
  case (Cons r rs)
  obtain u st1 where "f r st = (Ok u, st1)" using Cons.prems by (metis is_ok_iff list.set_intros(1) prod.collapse)
  moreover obtain st' where "report_list f rs st1 = (rs, Completed, st')" using Cons.IH [of st1] Cons.prems by auto
  ultimately show ?case by simp
qed simp

text \<open>A scan that makes the reports \<open>rs\<close>, unless the flag is cleared first.\<close>

definition reports_in_order ::
  "(nat \<Rightarrow> bool) \<Rightarrow> 's reporter \<Rightarrow> report list \<Rightarrow> 's \<Rightarrow> 's scanned \<Rightarrow> bool" where
  "reports_in_order running f rs st out \<longleftrightarrow>
     out = report_list f rs st \<or>
     (\<exists>made st'. out = (made, Aborted, st') \<and> (\<exists>j. \<not> running j) \<and> prefix made rs \<and>
        report_list f made st = (made, Completed, st'))"

lemma reports_in_order_Cons:
  assumes "f r st = (Ok u, st1)" "reports_in_order running f rs st1 (made, fin, st')"
  shows "reports_in_order running f (r # rs) st (r # made, fin, st')"
  using assms by (auto simp: reports_in_order_def split: prod.splits)

lemma reports_in_order_failed:
  "f r st = (Throw e, st1) \<Longrightarrow> reports_in_order running f (r # rs) st ([r], Thrown e, st1)"
  "f r st = (Terminate, st1) \<Longrightarrow> reports_in_order running f (r # rs) st ([r], Crashed, st1)"
  by (simp_all add: reports_in_order_def)

lemma reports_in_order_Nil: "reports_in_order running f [] st ([], Completed, st)"
  by (simp add: reports_in_order_def)

lemma reports_in_order_stop: "\<not> running j \<Longrightarrow> reports_in_order running f rs st ([], Aborted, st)"
  by (auto simp: reports_in_order_def)

definition scans_in_order ::
  "(nat \<Rightarrow> bool) \<Rightarrow> 's reporter \<Rightarrow> report list \<Rightarrow> report list \<Rightarrow> 's \<Rightarrow> 's scanned option \<Rightarrow> bool" where
  "scans_in_order running f before rs st out \<longleftrightarrow>
     (\<exists>made fin st'. out = Some (before @ made, fin, st') \<and> reports_in_order running f rs st (made, fin, st'))"

lemma scans_in_order_call:
  assumes "\<And>reports' st'. scans_in_order running f reports' rs st' (go_on reports' st')"
  shows "scans_in_order running f before (r # rs) st (call_report f r before st go_on)"
proof (cases "f r st")
  case (Pair x st1)
  show ?thesis
  proof (cases x)
    case (Ok u)
    with assms [of "before @ [r]" st1] Pair show ?thesis
      by (fastforce simp: scans_in_order_def call_report_def intro: reports_in_order_Cons)
  next
    case (Throw e)
    with Pair reports_in_order_failed(1) [of f r st e st1 running rs] show ?thesis
      by (auto simp: scans_in_order_def call_report_def)
  next
    case Terminate
    with Pair reports_in_order_failed(2) [of f r st st1 running rs] show ?thesis
      by (auto simp: scans_in_order_def call_report_def)
  qed
qed

definition check_reports :: "'m machine_scheme \<Rightarrow> string \<Rightarrow> Check list \<Rightarrow> report list" where
  "check_reports M pid cs = map (\<lambda>c. (pid, the (check_id c), CheckResultToString (check_outcome M c))) cs"

lemma scan_checks_reports:
  assumes "\<forall>c \<in> set cs. check_ok M c \<and> check_id c \<noteq> None"
  shows "scans_in_order running f before (check_reports M pid cs) st (scan_checks M running f k pid before st cs)"
  using assms
proof (induction cs arbitrary: k before st)
  case Nil
  then show ?case by (simp add: check_reports_def scans_in_order_def reports_in_order_Nil)
next
  case (Cons c cs)
  have c: "check_ok M c" "check_id c \<noteq> None" and cs: "\<forall>c \<in> set cs. check_ok M c \<and> check_id c \<noteq> None"
    using Cons.prems by auto
  show ?case
  proof (rule scan_check_cases [OF c(1), of running k])
    fix k' e
    assume "scan_rules M running k (CheckConditionEvaluator_init (type_of_condition (condition c))) (rules c) = Some (Some e, k')"
      "Result e = check_outcome M c"
    then show ?thesis
      using c scans_in_order_call [OF Cons.IH [OF cs], of before "(pid, the (check_id c), CheckResultToString (check_outcome M c))"]
      by (auto simp: FromString_ok check_reports_def)
  next
    fix k' j
    assume "scan_rules M running k (CheckConditionEvaluator_init (type_of_condition (condition c))) (rules c) = Some (None, k')"
      "\<not> running j"
    then show ?thesis using c reports_in_order_stop by (auto simp: FromString_ok scans_in_order_def)
  qed
qed

lemma report_not_applicable_all:
  "\<forall>c \<in> set cs. check_id c \<noteq> None \<Longrightarrow>
   scans_in_order running f before (map (\<lambda>c. (pid, the (check_id c), CheckResultToString NotApplicable)) cs) st
     (report_not_applicable f pid before st cs)"
proof (induction cs arbitrary: before st)
  case Nil
  then show ?case by (simp add: scans_in_order_def reports_in_order_Nil)
next
  case (Cons c cs)
  then have "\<forall>c \<in> set cs. check_id c \<noteq> None" "check_id c \<noteq> None" by auto
  with scans_in_order_call [OF Cons.IH, of before "(pid, the (check_id c), CheckResultToString NotApplicable)"]
  show ?case by auto
qed

lemma scan_after_reports:
  assumes "\<forall>c \<in> set (m_checks p). check_ok M c \<and> check_id c \<noteq> None"
    and "ok = Passed \<longleftrightarrow> rules (m_requirements p) = [] \<or> check_outcome M (m_requirements p) = Passed"
  shows "scans_in_order running f [] (policy_reports M p) st (scan_after M running f k p ok st)"
proof (cases "ok = Passed")
  case True
  then have "policy_reports M p = check_reports M (m_id p) (m_checks p)"
    using assms(2) by (simp add: policy_reports_def check_reports_def)
  with True scan_checks_reports [OF assms(1), of running f "[]" "m_id p" st k] show ?thesis by (simp add: scan_after_def)
next
  case False
  then have "policy_reports M p = map (\<lambda>c. (m_id p, the (check_id c), CheckResultToString NotApplicable)) (m_checks p)"
    using assms(2) by (simp add: policy_reports_def)
  with False assms(1) report_not_applicable_all [of "m_checks p"] show ?thesis by (simp add: scan_after_def)
qed

lemma scan_reports_in_order:
  assumes "check_ok M (m_requirements p) \<or> rules (m_requirements p) = []"
    and "\<forall>c \<in> set (m_checks p). check_ok M c \<and> check_id c \<noteq> None"
  shows "scans_in_order running f [] (policy_reports M p) st (Scan M running f p st)"
proof (cases "rules (m_requirements p) = []")
  case True
  then show ?thesis using scan_after_reports [OF assms(2), of Passed] by (simp add: Scan_def)
next
  case False
  then have req: "check_ok M (m_requirements p)" using assms(1) by blast
  show ?thesis
  proof (rule scan_check_cases [OF req, of running 0])
    fix k' e
    assume "scan_rules M running 0 (CheckConditionEvaluator_init (type_of_condition (condition (m_requirements p))))
        (rules (m_requirements p)) = Some (Some e, k')" "Result e = check_outcome M (m_requirements p)"
    then have "Scan M running f p st = scan_after M running f k' p (check_outcome M (m_requirements p)) st"
      using False by (simp add: Scan_def FromString_ok [OF req])
    then show ?thesis
      using scan_after_reports [OF assms(2), of "check_outcome M (m_requirements p)" running f st k'] False by simp
  next
    fix k' j
    assume "scan_rules M running 0 (CheckConditionEvaluator_init (type_of_condition (condition (m_requirements p))))
        (rules (m_requirements p)) = Some (None, k')" "\<not> running j"
    then show ?thesis
      using False reports_in_order_stop by (auto simp: Scan_def FromString_ok [OF req] scans_in_order_def)
  qed
qed

subsection \<open>Properties\<close>

text \<open>
  C31: the result of a check depends on the set of its rule results only, not on their order or number. All: failed when a
  rule is not found; any: passed when one is found; none: failed when one is found; else not
  applicable when there was no rule or an invalid one; else the result that is left. An evaluator
  exists just for the three condition words.
\<close>

theorem condition_result:
  "Result (fold AddResult rs (CheckConditionEvaluator_init type)) =
     (let decisive = (if type = AllOf then NotFound else Found) in
      if decisive \<in> set rs then (if type = AnyOf then Passed else Failed)
      else if rs = [] \<or> Invalid \<in> set rs then NotApplicable
      else if type = AnyOf then Failed else Passed) \<and>
   ((\<exists>e. FromString s = Ok e) \<longleftrightarrow> s \<in> {''all'', ''any'', ''none''})"
  by (cases type) (auto simp: Result_fold condition_spec_def FromString_def)

text \<open>
  C32: a scan returns or ends with an exception of the callback, and calls the callback for the checks of the
  policy in order, each once: with the result of the check's condition when the requirements pass, else with
  not applicable. It makes the calls that a plain pass over that list makes, up to the first one that
  throws, unless it is stopped; then the calls made are a prefix of the list and all of them
  returned. It completes just when it has made all of them and they returned. This is for policies as the parser
  builds them: conditions are words it accepts, checks have identifiers, and the rules return.
\<close>

theorem Scan_reports:
  assumes "check_ok M (m_requirements p) \<or> rules (m_requirements p) = []"
    and "\<forall>c \<in> set (m_checks p). check_ok M c \<and> check_id c \<noteq> None"
  shows "\<exists>reports fin st'. Scan M running f p st = Some (reports, fin, st') \<and>
    prefix reports (policy_reports M p) \<and> (fin = Completed \<longrightarrow> reports = policy_reports M p) \<and>
    ((reports, fin, st') = report_list f (policy_reports M p) st \<or>
     fin = Aborted \<and> (\<exists>j. \<not> running j) \<and> report_list f reports st = (reports, Completed, st'))"
proof -
  from scan_reports_in_order [OF assms] obtain reports fin st' where
    "Scan M running f p st = Some (reports, fin, st')" "reports_in_order running f (policy_reports M p) st (reports, fin, st')"
    unfolding scans_in_order_def by (metis append_Nil)
  then show ?thesis
    using report_list_prefix [of f "policy_reports M p" st reports fin st'] unfolding reports_in_order_def by fastforce
qed

definition sshd_check :: Check where
  "sshd_check = \<lparr>check_id = Some ''1'', condition = ''any'', rules =
     [ProcessRuleEvaluator \<lparr>rule = ''sshd'', pattern = None, isNegated = False\<rparr>]\<rparr>"

definition sshd_policy :: SCAPolicy where
  "sshd_policy = \<lparr>m_id = ''p'', m_requirements = \<lparr>check_id = None, condition = [], rules = []\<rparr>, m_checks = [sshd_check]\<rparr>"

text \<open>A callback that keeps the reports, and throws on the second one it gets.\<close>

definition one_report :: "report list reporter" where
  "one_report r st = (if st = [] then Ok () else Throw ''dbsync'', st @ [r])"

definition two_checks :: SCAPolicy where
  "two_checks = sshd_policy\<lparr>m_checks := [sshd_check, sshd_check\<lparr>check_id := Some ''2''\<rparr>, sshd_check\<lparr>check_id := Some ''3''\<rparr>]\<rparr>"

theorem Scan_reports_witness:
  "Scan small_machine (\<lambda>_. True) one_report two_checks [] =
     Some ([(''p'', ''1'', ''Passed''), (''p'', ''2'', ''Passed'')], Thrown ''dbsync'',
       [(''p'', ''1'', ''Passed''), (''p'', ''2'', ''Passed'')])"
proof -
  have "check_outcome small_machine (sshd_check\<lparr>check_id := i\<rparr>) = Passed" "check_outcome small_machine sshd_check = Passed" for i
    by (simp_all add: check_outcome_def sshd_check_def rule_results_def type_of_condition_def condition_spec_def
        ProcessRule_Evaluate_def getProcesses_def small_machine_def found_if_def negated_def)
  then have "policy_reports small_machine two_checks =
      [(''p'', ''1'', ''Passed''), (''p'', ''2'', ''Passed''), (''p'', ''3'', ''Passed'')]"
    by (simp add: policy_reports_def sshd_policy_def two_checks_def) (simp add: sshd_check_def)
  then show ?thesis using Scan_reports [of small_machine two_checks "\<lambda>_. True" one_report "[]"]
    by (auto simp: two_checks_def sshd_policy_def check_ok_def sshd_check_def one_report_def)
qed

text \<open>After \<^verbatim>\<open>Stop\<close> at most one more scan begins, the one the wait was for, and \<^verbatim>\<open>m_scanInProgress\<close> is set just
  while a scan is under way.\<close>

inductive run_steps :: "bool \<Rightarrow> run_state \<Rightarrow> run_state \<Rightarrow> bool" for scanOnStart :: bool where
  run_refl: "run_steps scanOnStart s s"
| run_more: "run_steps scanOnStart s t \<Longrightarrow> run_step scanOnStart t u \<Longrightarrow> run_steps scanOnStart s u"

lemma stopped_scans:
  assumes "run_steps b s t" "\<not> m_keepRunning s"
  shows "\<not> m_keepRunning t \<and> scans t + (if point t = Waiting then 1 else 0) \<le> scans s + (if point s = Waiting then 1 else 0)"
  using assms
proof (induction rule: run_steps.induct)
  case (run_more s t u)
  from run_more(2) run_more(3) [OF run_more(4)] show ?case by cases auto
qed simp

lemma scan_in_progress:
  assumes "run_steps b run_init t"
  shows "point t \<noteq> Ended \<longrightarrow> (m_scanInProgress t \<longleftrightarrow> point t = ScanningAtStart \<or> point t = Scanning)"
  using assms
proof (induction "run_init" t rule: run_steps.induct)
  case run_refl
  then show ?case by (simp add: run_init_def)
next
  case (run_more t u)
  from run_more(3,2) show ?case by cases auto
qed

end
