(* ===== verification/Sca_Policy_Parser.thy ===== *)
theory Sca_Policy_Parser
  imports Sca_Policy Configuration
begin

section \<open>Reading policies\<close>

text \<open>
  \<^verbatim>\<open>src/src/modules/sca/src/sca_policy_parser.cpp\<close> and the loading loop of \<^verbatim>\<open>sca_policy_loader.cpp\<close>. A document is a
  \<open>yaml\<close> value; \<open>load\<close> is \<^verbatim>\<open>YAML::LoadFile\<close> and \<open>as_str\<close> the conversion of a node to a string, \<open>None\<close> where they
  throw. The replacement of variables searches with a position, and does not end for a variable with
  an empty name, so it is a partial function. The lemmas show that the replacement is one pass over
  the text, and that what the parser builds is what a scan needs.
\<close>

subsection \<open>Variables\<close>

text \<open>The map of variables, longest names first.\<close>

definition StringLengthGreater :: "string \<Rightarrow> string \<Rightarrow> bool" where
  "StringLengthGreater a b \<longleftrightarrow> length a > length b \<or> length a = length b \<and> a < b"

fun variable_put :: "string \<Rightarrow> string \<Rightarrow> (string \<times> string) list \<Rightarrow> (string \<times> string) list" where
  "variable_put name value [] = [(name, value)]"
| "variable_put name value ((n, v) # vs) =
     (if name = n then (name, value) # vs
      else if StringLengthGreater name n then (name, value) # (n, v) # vs
      else (n, v) # variable_put name value vs)"

text \<open>The loop over the occurrences of one variable, and over the variables.\<close>

partial_function (option) replace_variable :: "string \<Rightarrow> string \<Rightarrow> string \<Rightarrow> nat \<Rightarrow> string option" where
  "replace_variable name value text pos =
     (if find_from name text pos = None then Some text
      else replace_variable name value (replace_at text (the (find_from name text pos)) (length name) value)
             (the (find_from name text pos) + length value))"

fun replace_variables :: "(string \<times> string) list \<Rightarrow> string \<Rightarrow> string option" where
  "replace_variables [] text = Some text"
| "replace_variables ((name, value) # vs) text = Option.bind (replace_variable name value text 0) (replace_variables vs)"

fun ReplaceVariablesInNode :: "(string \<times> string) list \<Rightarrow> yaml \<Rightarrow> yaml option" where
  "ReplaceVariablesInNode vs (YScalar text) = map_option YScalar (replace_variables vs text)"
| "ReplaceVariablesInNode vs (YMap kvs) =
     map_option (\<lambda>ns. YMap (zip (map fst kvs) ns)) (those (map (\<lambda>kv. ReplaceVariablesInNode vs (snd kv)) kvs))"
| "ReplaceVariablesInNode vs (YSeq xs) = map_option YSeq (those (map (ReplaceVariablesInNode vs) xs))"
| "ReplaceVariablesInNode vs YNull = Some YNull"

text \<open>
  The constructor. \<open>variables_of\<close> is \<open>None\<close> where the conversion of a name or a value throws (the elements of a
  sequence have no name). A failure is logged and leaves the document unread (\<open>YNull\<close>) or, past the
  loading, read but with its variables in place.
\<close>

fun variables_of :: "(yaml \<Rightarrow> string option) \<Rightarrow> yaml \<Rightarrow> (string \<times> string) list option" where
  "variables_of as_str (YMap kvs) =
     fold (\<lambda>(name, node) acc. case (acc, as_str node) of
         (Some vs, Some value) \<Rightarrow> Some (variable_put name value vs)
       | _ \<Rightarrow> None) kvs (Some [])"
| "variables_of as_str (YSeq xs) = (if xs = [] then Some [] else None)"
| "variables_of as_str _ = Some []"

definition Parser_IsValidYamlFile :: "(string \<Rightarrow> yaml option) \<Rightarrow> string \<Rightarrow> bool" where
  "Parser_IsValidYamlFile load fname =
     (case load fname of Some (YMap _) \<Rightarrow> True | Some (YSeq _) \<Rightarrow> True | _ \<Rightarrow> False)"

definition PolicyParser_init :: "(yaml \<Rightarrow> string option) \<Rightarrow> (string \<Rightarrow> yaml option) \<Rightarrow> string \<Rightarrow> yaml option" where
  "PolicyParser_init as_str load fname =
     (if \<not> Parser_IsValidYamlFile load fname then Some YNull
      else
        (case load fname of
           None \<Rightarrow> Some YNull
         | Some m_node \<Rightarrow>
             (case to_map m_node of
                None \<Rightarrow> Some m_node
              | Some kvs \<Rightarrow>
                  (case variables_of as_str (case map_of kvs ''variables'' of Some v \<Rightarrow> v | None \<Rightarrow> YNull) of
                     None \<Rightarrow> Some (YMap kvs)
                   | Some vs \<Rightarrow> ReplaceVariablesInNode vs (YMap kvs)))))"

subsection \<open>Documents as JSON\<close>

definition Join :: "string list \<Rightarrow> string \<Rightarrow> string" where
  "Join elements separator =
     (case elements of [] \<Rightarrow> [] | e # es \<Rightarrow> e @ concat (map (\<lambda>x. separator @ x) es))"

definition opt_concat :: "'a list option list \<Rightarrow> 'a list option" where
  "opt_concat xs = map_option concat (those xs)"

text \<open>The strings a sequence contributes for one item: \<open>None\<close> where a conversion throws.\<close>

fun item_values :: "(yaml \<Rightarrow> string option) \<Rightarrow> yaml \<Rightarrow> string list option" where
  "item_values as_str (YScalar s) = Some [s]"
| "item_values as_str (YMap kvs) =
     opt_concat (map (\<lambda>(key, valNode).
       case valNode of
         YSeq vals \<Rightarrow> those (map (\<lambda>val. map_option (\<lambda>v. key @ '':'' @ v) (as_str val)) vals)
       | _ \<Rightarrow> Some []) kvs)"
| "item_values as_str _ = Some []"

fun YamlNodeToJson :: "(yaml \<Rightarrow> string option) \<Rightarrow> yaml \<Rightarrow> json option" where
  "YamlNodeToJson as_str (YScalar s) = Some (JStr s)"
| "YamlNodeToJson as_str (YSeq xs) = map_option (\<lambda>values. JStr (Join values '', '')) (opt_concat (map (item_values as_str) xs))"
| "YamlNodeToJson as_str (YMap kvs) =
     (if kvs = [] then Some JNull
      else map_option (\<lambda>js. JObj (fold (\<lambda>(k, j). obj_put k j) (zip (map fst kvs) js) []))
             (those (map (\<lambda>kv. YamlNodeToJson as_str (snd kv)) kvs)))"
| "YamlNodeToJson as_str YNull = Some JNull"

definition ValidateConditionString :: "string \<Rightarrow> unit result" where
  "ValidateConditionString value =
     (if value = ''any'' \<or> value = ''none'' \<or> value = ''all'' then Ok () else Throw (''Invalid condition: '' @ value))"


subsection \<open>Policies\<close>

text \<open>
  \<^verbatim>\<open>node[key]\<close> on a constant node: \<open>None\<close> where it throws, \<open>Some None\<close> where the child is undefined. Iterating over a
  map gives pairs, whose use as a node throws: they are the \<open>None\<close>s of \<open>node_items\<close>.
\<close>

fun child :: "yaml \<Rightarrow> string \<Rightarrow> yaml option option" where
  "child (YMap kvs) k = Some (map_of kvs k)"
| "child (YScalar _) k = None"
| "child _ k = Some None"

fun node_items :: "yaml \<Rightarrow> yaml option list" where
  "node_items (YSeq xs) = map Some xs"
| "node_items (YMap kvs) = map (\<lambda>_. None) kvs"
| "node_items _ = []"

definition child_string :: "(yaml \<Rightarrow> string option) \<Rightarrow> yaml \<Rightarrow> string \<Rightarrow> string result" where
  "child_string as_str node k =
     (case child node k of
        Some (Some n) \<Rightarrow> (case as_str n of Some s \<Rightarrow> Ok s | None \<Rightarrow> Throw ''bad conversion'')
      | Some None \<Rightarrow> Throw ''invalid node''
      | None \<Rightarrow> Throw ''bad subscript'')"

fun parse_rules :: "bool \<Rightarrow> (yaml \<Rightarrow> string option) \<Rightarrow> yaml option list \<Rightarrow> (IRuleEvaluator \<times> string) list result" where
  "parse_rules windows as_str [] = Ok []"
| "parse_rules windows as_str (item # items) =
     (case Option.bind item as_str of
        None \<Rightarrow> Throw ''bad conversion''
      | Some ruleStr \<Rightarrow>
          bind_result (CreateEvaluator windows ruleStr) (\<lambda>evaluator.
            map_result (\<lambda>rs. case evaluator of Some ev \<Rightarrow> (ev, ruleStr) # rs | None \<Rightarrow> rs)
              (parse_rules windows as_str items)))"

record collected =
  col_policies :: "json list"
  col_checks :: "json list"

definition rules_items :: "yaml \<Rightarrow> yaml option list result" where
  "rules_items node =
     (case child node ''rules'' of
        Some (Some n) \<Rightarrow> Ok (node_items n)
      | Some None \<Rightarrow> Ok []
      | None \<Rightarrow> Throw ''bad subscript'')"

text \<open>One element of \<open>checks\<close>: the check and the rules that were accepted, or the exception that skips it.\<close>

definition parse_check :: "bool \<Rightarrow> (yaml \<Rightarrow> string option) \<Rightarrow> yaml option \<Rightarrow> (Check \<times> string list) result" where
  "parse_check windows as_str item =
     (case item of
        None \<Rightarrow> Throw ''invalid node''
      | Some node \<Rightarrow>
          bind_result (child_string as_str node ''id'') (\<lambda>cid.
          bind_result (child_string as_str node ''condition'') (\<lambda>cond.
          bind_result (ValidateConditionString cond) (\<lambda>_.
          bind_result (rules_items node) (\<lambda>items.
          bind_result (parse_rules windows as_str items) (\<lambda>rs.
            Ok (\<lparr>check_id = Some cid, condition = cond, rules = map fst rs\<rparr>, map snd rs)))))))"

definition check_json :: "(yaml \<Rightarrow> string option) \<Rightarrow> string \<Rightarrow> yaml option \<Rightarrow> string list \<Rightarrow> json option" where
  "check_json as_str policyId item accepted =
     (case item of
        Some (YMap kvs) \<Rightarrow>
          Option.bind (YamlNodeToJson as_str (YMap (AList.update ''rules'' (YSeq (map YScalar accepted)) kvs)))
            (\<lambda>checkJson. case json_set checkJson ''policy_id'' (JStr policyId) of Ok j \<Rightarrow> Some j | _ \<Rightarrow> None)
      | _ \<Rightarrow> None)"

text \<open>The check is kept before its JSON form is made, so it stays when that fails.\<close>

fun parse_checks ::
  "bool \<Rightarrow> (yaml \<Rightarrow> string option) \<Rightarrow> string \<Rightarrow> yaml option list \<Rightarrow> Check list \<Rightarrow> collected \<Rightarrow> Check list \<times> collected" where
  "parse_checks windows as_str policyId [] cs col = (cs, col)"
| "parse_checks windows as_str policyId (item # items) cs col =
     (case parse_check windows as_str item of
        Ok (c, accepted) \<Rightarrow>
          parse_checks windows as_str policyId items (cs @ [c])
            (case check_json as_str policyId item accepted of
               Some j \<Rightarrow> col\<lparr>col_checks := col_checks col @ [j]\<rparr>
             | None \<Rightarrow> col)
      | _ \<Rightarrow> parse_checks windows as_str policyId items cs col)"

definition parse_requirements :: "bool \<Rightarrow> (yaml \<Rightarrow> string option) \<Rightarrow> yaml \<Rightarrow> Check result" where
  "parse_requirements windows as_str node =
     bind_result (child_string as_str node ''condition'') (\<lambda>cond.
     bind_result (ValidateConditionString cond) (\<lambda>_.
     bind_result (rules_items node) (\<lambda>items.
     bind_result (parse_rules windows as_str items) (\<lambda>rs.
       Ok \<lparr>check_id = None, condition = cond, rules = map fst rs\<rparr>))))"

definition no_requirements :: Check where
  "no_requirements = \<lparr>check_id = None, condition = [], rules = []\<rparr>"

definition parse_policy_node :: "(yaml \<Rightarrow> string option) \<Rightarrow> yaml \<Rightarrow> collected \<Rightarrow> string \<times> collected" where
  "parse_policy_node as_str policyNode col =
     (case child_string as_str policyNode ''id'' of
        Ok policyId \<Rightarrow>
          (policyId,
           case YamlNodeToJson as_str policyNode of
             Some j \<Rightarrow> col\<lparr>col_policies := col_policies col @ [j]\<rparr>
           | None \<Rightarrow> col)
      | _ \<Rightarrow> ([], col))"

definition ParsePolicy :: "bool \<Rightarrow> (yaml \<Rightarrow> string option) \<Rightarrow> yaml \<Rightarrow> collected \<Rightarrow> SCAPolicy option \<times> collected" where
  "ParsePolicy windows as_str m_node col =
     (case child m_node ''policy'' of
        Some (Some policyNode) \<Rightarrow>
          let (policyId, col') = parse_policy_node as_str policyNode col in
          (case (case child m_node ''requirements'' of
                   Some (Some n) \<Rightarrow> parse_requirements windows as_str n
                 | _ \<Rightarrow> Ok no_requirements) of
             Ok requirements \<Rightarrow>
               (case child m_node ''checks'' of
                  Some (Some checksNode) \<Rightarrow>
                    let (cs, col'') = parse_checks windows as_str policyId (node_items checksNode) [] col' in
                    (Some \<lparr>m_id = policyId, m_requirements = requirements, m_checks = cs\<rparr>, col'')
                | _ \<Rightarrow> (None, col'))
           | _ \<Rightarrow> (None, col'))
      | _ \<Rightarrow> (None, col))"

subsection \<open>Loading\<close>

text \<open>
  \<^verbatim>\<open>LoadPolicies\<close> up to the synchronisation with the database: the enabled files in their order. \<open>None\<close> is a
  file whose variables are never done.
\<close>

fun load_policies ::
  "bool \<Rightarrow> (yaml \<Rightarrow> string option) \<Rightarrow> (string \<Rightarrow> yaml option) \<Rightarrow> string list \<Rightarrow> string list \<Rightarrow> SCAPolicy list \<Rightarrow> collected
     \<Rightarrow> (SCAPolicy list \<times> collected) option" where
  "load_policies windows as_str load disabled [] policies col = Some (policies, col)"
| "load_policies windows as_str load disabled (path # paths) policies col =
     (if path \<in> set disabled then load_policies windows as_str load disabled paths policies col
      else
        (case PolicyParser_init as_str load path of
           None \<Rightarrow> None
         | Some m_node \<Rightarrow>
             (case ParsePolicy windows as_str m_node col of
                (Some policy, col') \<Rightarrow> load_policies windows as_str load disabled paths (policies @ [policy]) col'
              | (None, col') \<Rightarrow> load_policies windows as_str load disabled paths policies col')))"

text \<open>The paths of the configuration that exist.\<close>

definition loadPoliciesPathsFromConfig :: "(yaml \<Rightarrow> string list option) \<Rightarrow> (string \<Rightarrow> bool) \<Rightarrow> string \<Rightarrow> yaml \<Rightarrow> string list" where
  "loadPoliciesPathsFromConfig as_strings exists_path configKey config =
     filter exists_path (GetConfigOrDefault as_strings [] [''sca'', configKey] config)"

text \<open>Renaming of columns before the rows go to the database.\<close>

definition rename_key :: "string \<Rightarrow> string \<Rightarrow> (string \<times> json) list \<Rightarrow> (string \<times> json) list" where
  "rename_key k k' kvs =
     (case map_of kvs k of None \<Rightarrow> kvs | Some v \<Rightarrow> filter (\<lambda>kv. fst kv \<noteq> k) (obj_put k' v kvs))"

definition NormalizeData :: "json list \<Rightarrow> json list" where
  "NormalizeData data =
     map (\<lambda>entry. case entry of JObj kvs \<Rightarrow> JObj (rename_key ''title'' ''name'' (rename_key ''references'' ''refs'' kvs)) | j \<Rightarrow> j) data"


subsection \<open>The replacement of a variable\<close>

text \<open>One pass over the text, from left to right; what was put in is not looked at again.\<close>

function one_pass :: "string \<Rightarrow> string \<Rightarrow> string \<Rightarrow> string" where
  "one_pass name value s =
     (if name = [] \<or> s = [] then s
      else if prefix name s then value @ one_pass name value (drop (length name) s)
      else hd s # one_pass name value (tl s))"
  by pat_completeness auto
termination
  by (relation "measure (\<lambda>(n, v, s). length s)") auto

declare one_pass.simps [simp del]

lemma one_pass_None: "find_str name s = None \<Longrightarrow> one_pass name value s = s"
proof (induction s)
  case Nil
  show ?case by (subst one_pass.simps) simp
next
  case (Cons c s)
  then have "\<not> prefix name (c # s)" "find_str name s = None" by (auto split: if_splits)
  then show ?case using Cons.IH by (subst one_pass.simps) simp
qed

lemma one_pass_Some:
  "find_str name s = Some i \<Longrightarrow> name \<noteq> [] \<Longrightarrow>
   one_pass name value s = take i s @ value @ one_pass name value (drop (i + length name) s)"
proof (induction s arbitrary: i)
  case (Cons c s)
  show ?case
  proof (cases "prefix name (c # s)")
    case True
    then show ?thesis using Cons.prems by (subst one_pass.simps) auto
  next
    case False
    then obtain j where j: "find_str name s = Some j" "i = Suc j" using Cons.prems by auto
    then show ?thesis using Cons.IH [OF j(1) Cons.prems(2)] False Cons.prems(2)
      by (subst one_pass.simps) auto
  qed
qed auto

lemma replace_variable_pass:
  assumes "name \<noteq> []"
  shows "replace_variable name value (pre @ s) (length pre) = Some (pre @ one_pass name value s)"
proof (induction s arbitrary: pre rule: length_induct)
  case (1 s)
  note IH = 1 [rule_format]
  show ?case
  proof (cases "find_str name s")
    case None
    then show ?thesis by (subst replace_variable.simps) (simp add: find_from_def one_pass_None)
  next
    case (Some i)
    let ?rest = "drop (i + length name) s" and ?pre = "pre @ take i s @ value"
    have i: "i + length name \<le> length s" using find_str_bound [OF Some] .
    have "replace_variable name value (pre @ s) (length pre) =
        replace_variable name value (replace_at (pre @ s) (length pre + i) (length name) value) (length pre + i + length value)"
      using Some by (subst replace_variable.simps) (simp add: find_from_def)
    also have "replace_at (pre @ s) (length pre + i) (length name) value = ?pre @ ?rest"
      by (simp add: replace_at_def add.assoc)
    also have "length pre + i + length value = length ?pre" using i by simp
    also have "replace_variable name value (?pre @ ?rest) (length ?pre) = Some (?pre @ one_pass name value ?rest)"
      by (rule IH) (use i assms in \<open>cases name; auto\<close>)
    finally show ?thesis using one_pass_Some [OF Some assms, of "value"] by simp
  qed
qed

lemma replace_variable_empty:
  assumes "pos \<le> length text"
  shows "replace_variable [] value text pos = None"
proof (rule ccontr)
  assume "replace_variable [] value text pos \<noteq> None"
  then obtain y where y: "replace_variable [] value text pos = Some y" by blast
  define P where "P = (\<lambda>(name :: string) (v :: string) (text :: string) pos (y :: string). name = [] \<longrightarrow> length text < pos)"
  have find: "find_from [] t p = Some p" if "p \<le> length t" for t p
    using that by (simp add: find_from_def find_str_prefix)
  have "P [] value text pos y"
  proof (rule replace_variable.raw_induct [of P, OF _ y])
    show "P n v t p y'"
      if IH: "\<And>n v t p y. f n v t p = Some y \<Longrightarrow> P n v t p y"
        and eq: "(if find_from n t p = None then Some t
          else f n v (replace_at t (the (find_from n t p)) (length n) v) (the (find_from n t p) + length v)) = Some y'"
      for f n v t p y'
    proof (unfold P_def, intro impI, rule ccontr)
      assume n: "n = []" and le: "\<not> length t < p"
      then have "f [] v (replace_at t p 0 v) (p + length v) = Some y'" using eq find [of p t] by simp
      from IH [OF this] le show False by (simp add: P_def replace_at_def)
    qed
  qed
  then show False using assms by (simp add: P_def)
qed

subsection \<open>What the parser builds\<close>

definition valid_condition :: "string \<Rightarrow> bool" where
  "valid_condition s \<longleftrightarrow> s \<in> {''all'', ''any'', ''none''}"

lemma parse_check_ok:
  assumes "parse_check windows as_str item = Ok (c, accepted)"
  shows "check_id c \<noteq> None \<and> valid_condition (condition c) \<and> length accepted = length (rules c)"
  using assms
  by (auto simp: parse_check_def bind_result_def ValidateConditionString_def valid_condition_def split: option.splits result.splits if_splits)

lemma parse_checks_ok:
  assumes "parse_checks windows as_str pid items cs col = (cs', col')"
    and "\<forall>c \<in> set cs. check_id c \<noteq> None \<and> valid_condition (condition c)"
  shows "\<forall>c \<in> set cs'. check_id c \<noteq> None \<and> valid_condition (condition c)"
  using assms
proof (induction items arbitrary: cs col)
  case (Cons item items)
  show ?case
  proof (cases "\<exists>c accepted. parse_check windows as_str item = Ok (c, accepted)")
    case True
    then obtain c accepted where ok: "parse_check windows as_str item = Ok (c, accepted)" by blast
    have "\<forall>c \<in> set (cs @ [c]). check_id c \<noteq> None \<and> valid_condition (condition c)"
      using parse_check_ok [OF ok] Cons.prems(2) by simp
    from Cons.IH [OF _ this] show ?thesis using Cons.prems(1) by (simp add: ok)
  next
    case False
    then have "parse_checks windows as_str pid items cs col = (cs', col')"
      using Cons.prems(1) by (auto split: result.splits)
    from Cons.IH [OF this Cons.prems(2)] show ?thesis .
  qed
qed simp

lemma parse_requirements_ok:
  assumes "parse_requirements windows as_str node = Ok c"
  shows "valid_condition (condition c)"
  using assms by (auto simp: parse_requirements_def bind_result_def ValidateConditionString_def valid_condition_def split: result.splits if_splits)

lemma ParsePolicy_ok:
  assumes "ParsePolicy windows as_str m_node col = (Some p, col')"
  shows "\<forall>c \<in> set (m_checks p). check_id c \<noteq> None \<and> valid_condition (condition c)"
    "rules (m_requirements p) = [] \<or> valid_condition (condition (m_requirements p))"
proof -
  have "\<exists>items col1. parse_checks windows as_str (m_id p) items [] col1 = (m_checks p, col')"
    "m_requirements p = no_requirements \<or> (\<exists>n. parse_requirements windows as_str n = Ok (m_requirements p))"
    using assms unfolding ParsePolicy_def by (auto simp: Let_def split: option.splits result.splits prod.splits; blast)+
  then show "\<forall>c \<in> set (m_checks p). check_id c \<noteq> None \<and> valid_condition (condition c)"
    "rules (m_requirements p) = [] \<or> valid_condition (condition (m_requirements p))"
    using parse_checks_ok [of windows as_str "m_id p" _ "[]"] parse_requirements_ok [of windows as_str]
    by (force, force simp: no_requirements_def)
qed


subsection \<open>Properties\<close>

text \<open>
  C33: replacing a variable ends, for a name that is not empty, with one pass over the text from left to right:
  every occurrence that the pass meets becomes the value, and what was put in is not read again, so a
  value may contain its own name. A variable with the empty name is never done.
\<close>

theorem replace_variable_one_pass:
  "(name \<noteq> [] \<longrightarrow> replace_variable name value text 0 = Some (one_pass name value text)) \<and>
   replace_variable [] value text 0 = None"
  using replace_variable_pass [of name "value" "[]" "text"] replace_variable_empty [of 0 "text" "value"] by simp

theorem replace_variable_one_pass_witness:
  "replace_variable ''$a'' ''x$a'' ''$a/$b/$a'' 0 = Some ''x$a/$b/x$a''"
proof -
  have "one_pass ''$a'' ''x$a'' ''$a/$b/$a'' = ''x$a/$b/x$a''" by code_simp
  then show ?thesis using replace_variable_one_pass [of "''$a''" "''x$a''" "''$a/$b/$a''"] by simp
qed

text \<open>
  C34: whatever document a policy was read from, the policy can be scanned. On a machine without directory cycles
  the scan of a policy that the parser returns, when it is not stopped, is the plain list of its
  reports: the callback is called for every check the parser kept, once and in order, with the result
  the check's condition gives, up to the first call that throws. Only the callback can make the scan
  throw, and where it returns for each report the scan completes.
\<close>

theorem parsed_policy_scanned:
  assumes "ParsePolicy windows as_str m_node col = (Some p, col')" "acyclic_fs M rank"
  shows "Scan M (\<lambda>_. True) f p st = Some (report_list f (policy_reports M p) st) \<and>
    ((\<forall>r st. r \<in> set (policy_reports M p) \<longrightarrow> is_ok (fst (f r st))) \<longrightarrow>
      (\<exists>st'. Scan M (\<lambda>_. True) f p st = Some (policy_reports M p, Completed, st')))"
proof -
  have ev: "Evaluate M r \<noteq> None" for r using rules_end [OF assms(2), of r] by auto
  have "check_ok M c" if "valid_condition (condition c)" for c using that ev by (simp add: check_ok_def valid_condition_def)
  then have "Scan M (\<lambda>_. True) f p st = Some (report_list f (policy_reports M p) st)"
    using scan_reports_in_order [of M p "\<lambda>_. True" f st] ParsePolicy_ok [OF assms(1)]
    by (auto simp: scans_in_order_def reports_in_order_def)
  then show ?thesis using report_list_returns [of "policy_reports M p" f st] by auto
qed

definition plain_str :: "yaml \<Rightarrow> string option" where
  "plain_str y = (case y of YScalar s \<Rightarrow> Some s | YNull \<Rightarrow> Some ''null'' | _ \<Rightarrow> None)"

definition sshd_document :: yaml where
  "sshd_document = YMap [(''policy'', YMap [(''id'', YScalar ''p'')]), (''checks'', YSeq [
     YMap [(''id'', YScalar ''1''), (''condition'', YScalar ''any''), (''rules'', YSeq [YScalar ''p:sshd''])],
     YMap [(''id'', YScalar ''2''), (''condition'', YScalar ''some'')]])]"

lemma sshd_document_parsed:
  "ParsePolicy False plain_str sshd_document \<lparr>col_policies = [], col_checks = []\<rparr> =
    (Some sshd_policy, \<lparr>col_policies = [JObj [(''id'', JStr ''p'')]],
       col_checks = [JObj [(''condition'', JStr ''any''), (''id'', JStr ''1''), (''policy_id'', JStr ''p''), (''rules'', JStr ''p:sshd'')]]\<rparr>)"
  by code_simp

theorem parsed_policy_scanned_witness:
  "\<exists>st'. Scan small_machine (\<lambda>_. True) (\<lambda>r rs. (Ok (), r # rs)) sshd_policy [] =
     Some (policy_reports small_machine sshd_policy, Completed, st')"
proof -
  have "acyclic_fs small_machine (\<lambda>p. 10 - length p)" by (auto simp: acyclic_fs_def small_machine_def split: if_splits)
  moreover have "is_ok (fst (Ok (), r # rs))" for r :: report and rs by simp
  ultimately show ?thesis
    using parsed_policy_scanned [OF sshd_document_parsed, of small_machine _ "\<lambda>r rs. (Ok (), r # rs)" "[]"] by blast
qed

end
