(* ===== verification/Sca_Event_Handler.thy ===== *)
theory Sca_Event_Handler
  imports Sca_Policy_Parser Multitype_Queue
begin

section \<open>Events of the configuration assessment\<close>

text \<open>
  \<^verbatim>\<open>src/src/modules/sca/src/sca_event_handler.cpp\<close> and the synchronisation in \<^verbatim>\<open>sca_policy_loader.cpp\<close>: how changes of
  policies and checks become stateful and stateless messages. The row database (\<^verbatim>\<open>dbsync\<close>) is the
  record \<open>dbsync\<close>: what a selection returns and which callbacks a synchronisation makes, \<open>None\<close> where it
  throws. The clock, SHA-1 and JSON printing are parameters. An unordered map is the list of its
  entries in the order of iteration. Messages are returned in the order they are pushed, also when
  an exception ends the call. The lemmas say which events a change makes and when the lists that
  travel as comma separated text come back.
\<close>

subsection \<open>The database\<close>

datatype ReturnTypeCallback = MODIFIED | DELETED | INSERTED | MAX_ROWS | DB_ERROR | SELECTED | GENERIC

fun callback_int :: "ReturnTypeCallback \<Rightarrow> int" where
  "callback_int MODIFIED = 0"
| "callback_int DELETED = 1"
| "callback_int INSERTED = 2"
| "callback_int MAX_ROWS = 3"
| "callback_int DB_ERROR = 4"
| "callback_int SELECTED = 5"
| "callback_int GENERIC = 6"

record 'd dbsync =
  selectRows :: "'d \<Rightarrow> string \<Rightarrow> string list \<Rightarrow> string \<Rightarrow> (ReturnTypeCallback \<times> json) list option"
  syncRow :: "'d \<Rightarrow> string \<Rightarrow> json \<Rightarrow> bool \<Rightarrow> ((ReturnTypeCallback \<times> json) list \<times> 'd) option"
  syncTxn :: "'d \<Rightarrow> string \<Rightarrow> json list \<Rightarrow> ((ReturnTypeCallback \<times> json) list \<times> 'd) option"

definition STATEFUL_OPERATION_MAP :: "(int \<times> string) list" where
  "STATEFUL_OPERATION_MAP =
     [(callback_int MODIFIED, ''update''), (callback_int DELETED, ''delete''), (callback_int INSERTED, ''create''),
      (callback_int MAX_ROWS, ''max_rows''), (callback_int DB_ERROR, ''db_error''), (callback_int SELECTED, ''selected'')]"

definition STATELESS_OPERATION_MAP :: "(int \<times> string) list" where
  "STATELESS_OPERATION_MAP =
     [(callback_int MODIFIED, ''change''), (callback_int DELETED, ''deletion''), (callback_int INSERTED, ''creation'')]"

subsection \<open>JSON access\<close>

text \<open>
  \<^verbatim>\<open>json {{key, value}, ...}\<close>; \<^verbatim>\<open>operator[]\<close> on a constant value, undefined for a key that is missing; a string
  member of a value that may be changed, where a missing key is a null; \<^verbatim>\<open>erase\<close>.
\<close>

definition json_object :: "(string \<times> json) list \<Rightarrow> json" where
  "json_object kvs = JObj (fold (\<lambda>(k, v). obj_put k v) kvs [])"

fun const_at :: "json \<Rightarrow> string \<Rightarrow> json result" where
  "const_at (JObj kvs) k = (case map_of kvs k of Some v \<Rightarrow> Ok v | None \<Rightarrow> Terminate)"
| "const_at _ k = Throw ''cannot use operator[] with a string argument''"

fun get_int :: "json \<Rightarrow> int result" where
  "get_int (JInt i) = Ok i"
| "get_int _ = Throw ''type must be number''"

definition string_at :: "json \<Rightarrow> string \<Rightarrow> string result" where
  "string_at j k = get_string (json_at j k)"

fun json_erase :: "json \<Rightarrow> string \<Rightarrow> json" where
  "json_erase (JObj kvs) k = JObj (filter (\<lambda>kv. fst kv \<noteq> k) kvs)"
| "json_erase j k = j"

text \<open>A member that is known to be settable.\<close>

definition put :: "string \<Rightarrow> json \<Rightarrow> json \<Rightarrow> json" where
  "put k v j = (case json_set j k v of Ok j' \<Rightarrow> j' | _ \<Rightarrow> j)"

subsection \<open>Normalisation\<close>

definition StringToJsonArray :: "string \<Rightarrow> json" where
  "StringToJsonArray input =
     JArr (map JStr (filter (\<lambda>token. token \<noteq> []) (map (\<lambda>token. Trim token tab_blank) (split input (CHR '','')))))"

definition array_at :: "string \<Rightarrow> string \<Rightarrow> json \<Rightarrow> json" where
  "array_at k k' j =
     (case json_get j k of
        Some (JStr s) \<Rightarrow> let j' = put k' (StringToJsonArray s) j in if k = k' then j' else json_erase j' k
      | _ \<Rightarrow> j)"

definition NormalizeCheck :: "json \<Rightarrow> json" where
  "NormalizeCheck check =
     json_erase (array_at ''rules'' ''rules'' (array_at ''compliance'' ''compliance'' (array_at ''refs'' ''references'' check))) ''policy_id''"

definition NormalizePolicy :: "json \<Rightarrow> json" where
  "NormalizePolicy policy = array_at ''refs'' ''references'' policy"

subsection \<open>One event\<close>

definition object_at :: "json \<Rightarrow> string \<Rightarrow> json option" where
  "object_at j k = (case json_get j k of Some v \<Rightarrow> if is_object v then Some v else None | None \<Rightarrow> None)"

definition newest :: "json \<Rightarrow> json" where
  "newest j = (case object_at j ''new'' of Some n \<Rightarrow> n | None \<Rightarrow> j)"

definition operation_of :: "(int \<times> string) list \<Rightarrow> json \<Rightarrow> string result" where
  "operation_of operations event =
     bind_result (const_at event ''result'') (\<lambda>r.
     bind_result (get_int r) (\<lambda>i. case map_of operations i of Some s \<Rightarrow> Ok s | None \<Rightarrow> Throw ''map::at''))"

definition CalculateHashId :: "(string \<Rightarrow> string) \<Rightarrow> string \<Rightarrow> json \<Rightarrow> string result" where
  "CalculateHashId sha1 agentUUID data =
     bind_result (const_at data ''policy'') (\<lambda>policy. bind_result (const_at policy ''id'') (\<lambda>p. bind_result (get_string p) (\<lambda>pid.
     bind_result (const_at data ''check'') (\<lambda>check. bind_result (const_at check ''id'') (\<lambda>c. bind_result (get_string c) (\<lambda>cid.
       Ok (asciiToHex (sha1 (agentUUID @ '':'' @ pid @ '':'' @ cid)))))))))"

text \<open>
  The processed event: a null when the check or the policy is missing, else the event and its
  metadata, each a null where an exception came before it was made.
\<close>

definition processed :: "json \<Rightarrow> json result \<Rightarrow> json result" where
  "processed jsonEvent metadata =
     (case metadata of
        Ok jsonMetadata \<Rightarrow> Ok (json_object [(''event'', jsonEvent), (''metadata'', jsonMetadata)])
      | Throw _ \<Rightarrow> Ok (json_object [(''event'', jsonEvent), (''metadata'', JNull)])
      | Terminate \<Rightarrow> Terminate)"

definition ProcessStateful :: "(string \<Rightarrow> string) \<Rightarrow> string \<Rightarrow> string \<Rightarrow> json \<Rightarrow> json result" where
  "ProcessStateful sha1 agentUUID now event =
     (case (object_at event ''check'', object_at event ''policy'') of
        (Some c, Some p) \<Rightarrow>
          let jsonEvent = json_object [(''policy'', NormalizePolicy (newest p)), (''check'', NormalizeCheck (newest c)),
                (''timestamp'', JStr now)]
          in processed jsonEvent
               (bind_result (CalculateHashId sha1 agentUUID jsonEvent) (\<lambda>hash.
                bind_result (operation_of STATEFUL_OPERATION_MAP event) (\<lambda>operation.
                  Ok (json_object [(''id'', JStr hash), (''operation'', JStr operation), (''module'', JStr ''sca'')]))))
      | _ \<Rightarrow> Ok JNull)"

text \<open>The fields of the old row, without the identifier, and their names with a prefix.\<close>

definition old_fields :: "json \<Rightarrow> (string \<times> json) list" where
  "old_fields j = (case object_at j ''old'' of Some (JObj kvs) \<Rightarrow> filter (\<lambda>kv. fst kv \<noteq> ''id'') kvs | _ \<Rightarrow> [])"

definition with_previous :: "json \<Rightarrow> json" where
  "with_previous j =
     (if object_at j ''old'' = None then newest j
      else put ''previous'' (if old_fields j = [] then JNull else json_object (old_fields j)) (newest j))"

definition changed :: "string \<Rightarrow> json \<Rightarrow> json list" where
  "changed kind j = map (\<lambda>kv. JStr (kind @ ''.'' @ fst kv)) (old_fields j)"

definition ProcessStateless :: "string \<Rightarrow> json \<Rightarrow> json result" where
  "ProcessStateless now event =
     (case (object_at event ''check'', object_at event ''policy'') of
        (Some c, Some p) \<Rightarrow>
          let check = NormalizeCheck (with_previous c);
              policy = NormalizePolicy (with_previous p);
              made = bind_result (operation_of STATELESS_OPERATION_MAP event) (\<lambda>operation.
                bind_result (case json_get event ''collector'' of Some v \<Rightarrow> get_string v | None \<Rightarrow> Throw ''key not found'')
                  (\<lambda>collector. Ok (operation, collector)))
          in (case made of
                Ok (operation, collector) \<Rightarrow>
                  Ok (json_object
                    [(''event'', json_object
                       [(''event'', json_object
                          [(''created'', JStr now), (''category'', JArr [JStr ''configuration'']), (''type'', JStr operation),
                           (''action'', JArr [JStr (collector @ ''-'' @ operation)]),
                           (''changed_fields'', JArr (changed ''check'' c @ changed ''policy'' p))]),
                        (''policy'', policy), (''check'', check)]),
                     (''metadata'', json_object [(''module'', JStr ''sca''), (''collector'', JStr collector)])])
              | Throw _ \<Rightarrow> Ok (json_object [(''event'', JNull), (''metadata'', JNull)])
              | Terminate \<Rightarrow> Terminate)
      | _ \<Rightarrow> Ok JNull)"

subsection \<open>Pushing\<close>

definition metadata_text :: "json_lib \<Rightarrow> json \<Rightarrow> string result" where
  "metadata_text J metadata = (case dump J metadata of Some s \<Rightarrow> Ok s | None \<Rightarrow> Throw ''invalid UTF-8 byte'')"

definition PushStateful :: "json_lib \<Rightarrow> bool \<Rightarrow> json \<Rightarrow> json \<Rightarrow> Message result" where
  "PushStateful J queue_set event metadata =
     (if \<not> queue_set then Throw ''Message queue not set, cannot send message.''
      else
        bind_result (const_at metadata ''operation'') (\<lambda>operation.
        bind_result (const_at metadata ''module'') (\<lambda>mod_json. bind_result (get_string mod_json) (\<lambda>moduleName.
        bind_result (metadata_text J metadata) (\<lambda>meta.
          Ok \<lparr>msg_type = STATEFUL, msg_data = (if operation = JStr ''delete'' then JObj [] else event),
              msg_moduleName = moduleName, msg_moduleType = [], msg_metaData = meta\<rparr>)))))"

definition PushStateless :: "json_lib \<Rightarrow> bool \<Rightarrow> json \<Rightarrow> json \<Rightarrow> Message result" where
  "PushStateless J queue_set event metadata =
     (if \<not> queue_set then Throw ''Message queue not set, cannot send message.''
      else
        bind_result (const_at metadata ''module'') (\<lambda>mod_json. bind_result (get_string mod_json) (\<lambda>moduleName.
        bind_result (const_at metadata ''collector'') (\<lambda>col_json. bind_result (get_string col_json) (\<lambda>collector.
        bind_result (metadata_text J metadata) (\<lambda>meta.
          Ok \<lparr>msg_type = STATELESS, msg_data = event, msg_moduleName = moduleName, msg_moduleType = collector,
              msg_metaData = meta\<rparr>))))))"


subsection \<open>Reading the database\<close>

definition check_columns :: "string list" where
  "check_columns = [''id'', ''policy_id'', ''name'', ''description'', ''rationale'', ''remediation'', ''refs'', ''result'', ''reason'',
     ''condition'', ''compliance'', ''rules'']"

definition row_filter :: "string \<Rightarrow> string \<Rightarrow> string" where
  "row_filter column v = ''WHERE '' @ column @ '' = '' @ [CHR 0x27] @ v @ [CHR 0x27]"

definition selected :: "(ReturnTypeCallback \<times> json) list \<Rightarrow> json list" where
  "selected rows = map snd (filter (\<lambda>r. fst r = SELECTED) rows)"

definition GetChecksForPolicy :: "'d dbsync \<Rightarrow> 'd \<Rightarrow> string \<Rightarrow> json list result" where
  "GetChecksForPolicy D db policyId =
     (case selectRows D db ''sca_check'' check_columns (row_filter ''policy_id'' policyId) of
        None \<Rightarrow> Throw ''dbsync''
      | Some rows \<Rightarrow> Ok (selected rows))"

text \<open>The last selected row, or a null.\<close>

definition last_row :: "json list \<Rightarrow> json" where
  "last_row rows = (if rows = [] then JNull else last rows)"

definition GetPolicyById :: "'d dbsync \<Rightarrow> 'd \<Rightarrow> string \<Rightarrow> json result" where
  "GetPolicyById D db policyId =
     (case selectRows D db ''sca_policy'' [''id'', ''name'', ''description'', ''file'', ''refs''] (row_filter ''id'' policyId) of
        None \<Rightarrow> Throw ''dbsync''
      | Some rows \<Rightarrow> Ok (last_row (selected rows)))"

definition GetPolicyCheckById :: "'d dbsync \<Rightarrow> 'd \<Rightarrow> string \<Rightarrow> json result" where
  "GetPolicyCheckById D db policyCheckId =
     (case selectRows D db ''sca_check'' check_columns (row_filter ''id'' policyCheckId) of
        None \<Rightarrow> Throw ''dbsync''
      | Some rows \<Rightarrow> Ok (last_row (selected rows)))"

subsection \<open>The events of a change\<close>

definition event_object :: "json \<Rightarrow> json \<Rightarrow> int \<Rightarrow> string \<Rightarrow> json" where
  "event_object policyData checkData result collector =
     json_object [(''policy'', policyData), (''check'', checkData), (''result'', JInt result), (''collector'', JStr collector)]"

text \<open>The loops add to the list of events; an exception ends them and keeps what was added.\<close>

fun unmodified_checks :: "string list \<Rightarrow> json \<Rightarrow> int \<Rightarrow> json list \<Rightarrow> json list \<Rightarrow> json list \<times> unit result" where
  "unmodified_checks modified policyData policyResult [] events = (events, Ok ())"
| "unmodified_checks modified policyData policyResult (checkData # cs) events =
     (case string_at checkData ''id'' of
        Ok checkId \<Rightarrow>
          unmodified_checks modified policyData policyResult cs
            (if checkId \<in> set modified then events else events @ [event_object policyData checkData policyResult ''policy''])
      | Throw e \<Rightarrow> (events, Throw e)
      | Terminate \<Rightarrow> (events, Terminate))"

definition policy_entry ::
  "'d dbsync \<Rightarrow> 'd \<Rightarrow> string list \<Rightarrow> string \<times> json \<Rightarrow> json list \<Rightarrow> json list \<times> unit result" where
  "policy_entry D db modified entry events =
     (case bind_result (const_at (snd entry) ''data'') (\<lambda>policyData.
             bind_result (const_at (snd entry) ''result'') (\<lambda>r. bind_result (get_int r) (\<lambda>policyResult.
               map_result (\<lambda>cs. (policyData, policyResult, cs)) (GetChecksForPolicy D db (fst entry))))) of
        Ok (policyData, policyResult, cs) \<Rightarrow> unmodified_checks modified policyData policyResult cs events
      | Throw e \<Rightarrow> (events, Throw e)
      | Terminate \<Rightarrow> (events, Terminate))"

fun policy_entries ::
  "'d dbsync \<Rightarrow> 'd \<Rightarrow> string list \<Rightarrow> (string \<times> json) list \<Rightarrow> json list \<Rightarrow> json list \<times> unit result" where
  "policy_entries D db modified [] events = (events, Ok ())"
| "policy_entries D db modified (entry # es) events =
     (case policy_entry D db modified entry events of
        (events', Ok _) \<Rightarrow> policy_entries D db modified es events'
      | r \<Rightarrow> r)"

definition check_event :: "'d dbsync \<Rightarrow> 'd \<Rightarrow> (string \<times> json) list \<Rightarrow> json \<Rightarrow> json result" where
  "check_event D db policies entry =
     bind_result (const_at entry ''data'') (\<lambda>checkData.
     bind_result (const_at entry ''result'') (\<lambda>r. bind_result (get_int r) (\<lambda>checkResult.
     bind_result (if checkResult = callback_int MODIFIED then string_at (json_at checkData ''new'') ''policy_id''
                  else string_at checkData ''policy_id'') (\<lambda>policyId.
     bind_result (case map_of policies policyId of
                    Some p \<Rightarrow> const_at p ''data''
                  | None \<Rightarrow> GetPolicyById D db policyId) (\<lambda>policyData.
       Ok (event_object policyData checkData checkResult ''check''))))))"

fun check_entries ::
  "'d dbsync \<Rightarrow> 'd \<Rightarrow> (string \<times> json) list \<Rightarrow> (string \<times> json) list \<Rightarrow> json list \<Rightarrow> json list \<times> unit result" where
  "check_entries D db policies [] events = (events, Ok ())"
| "check_entries D db policies (entry # es) events =
     (case check_event D db policies (snd entry) of
        Ok event \<Rightarrow> check_entries D db policies es (events @ [event])
      | Throw e \<Rightarrow> (events, Throw e)
      | Terminate \<Rightarrow> (events, Terminate))"

definition ProcessEvents :: "'d dbsync \<Rightarrow> 'd \<Rightarrow> (string \<times> json) list \<Rightarrow> (string \<times> json) list \<Rightarrow> json list result" where
  "ProcessEvents D db modifiedPoliciesMap modifiedChecksMap =
     (let (events, r) =
        (case policy_entries D db (map fst modifiedChecksMap) modifiedPoliciesMap [] of
           (events, Ok _) \<Rightarrow> check_entries D db modifiedPoliciesMap modifiedChecksMap events
         | other \<Rightarrow> other)
      in if r = Terminate then Terminate else Ok events)"

subsection \<open>Reports\<close>

record handler_env =
  m_agentUUID :: string
  sha1 :: "string \<Rightarrow> string"
  getCurrentISO8601 :: "nat \<Rightarrow> string"
  json_of :: json_lib
  m_pushMessage_set :: bool

definition push_processed ::
  "handler_env \<Rightarrow> (json_lib \<Rightarrow> bool \<Rightarrow> json \<Rightarrow> json \<Rightarrow> Message result) \<Rightarrow> json \<Rightarrow> Message list result" where
  "push_processed H pushFunc p =
     bind_result (const_at p ''event'') (\<lambda>event. bind_result (const_at p ''metadata'') (\<lambda>metadata.
       map_result (\<lambda>m. [m]) (pushFunc (json_of H) (m_pushMessage_set H) event metadata)))"

text \<open>
  The two messages of one event, the stateful one first. The list holds what was pushed, also before an
  exception; \<open>skip_empty\<close> is the test that leaves out an empty event.
\<close>

definition push_event :: "handler_env \<Rightarrow> bool \<Rightarrow> nat \<Rightarrow> json \<Rightarrow> Message list \<times> unit result" where
  "push_event H skip_empty k event =
     (case bind_result (ProcessStateful (sha1 H) (m_agentUUID H) (getCurrentISO8601 H (2 * k)) event) (\<lambda>p.
             if skip_empty \<and> json_empty p then Ok [] else push_processed H PushStateful p) of
        Ok ms \<Rightarrow>
          (case bind_result (ProcessStateless (getCurrentISO8601 H (2 * k + 1)) event) (\<lambda>p.
                  if skip_empty \<and> json_empty p then Ok [] else push_processed H PushStateless p) of
             Ok ms' \<Rightarrow> (ms @ ms', Ok ())
           | Throw e \<Rightarrow> (ms, Throw e)
           | Terminate \<Rightarrow> (ms, Terminate))
      | Throw e \<Rightarrow> ([], Throw e)
      | Terminate \<Rightarrow> ([], Terminate))"

fun push_events :: "handler_env \<Rightarrow> bool \<Rightarrow> nat \<Rightarrow> json list \<Rightarrow> Message list \<times> unit result" where
  "push_events H skip_empty k [] = ([], Ok ())"
| "push_events H skip_empty k (event # es) =
     (case push_event H skip_empty k event of
        (ms, Ok _) \<Rightarrow> (let (ms', r) = push_events H skip_empty (k + 1) es in (ms @ ms', r))
      | other \<Rightarrow> other)"

definition ReportPoliciesDelta ::
  "handler_env \<Rightarrow> 'd dbsync \<Rightarrow> 'd \<Rightarrow> (string \<times> json) list \<Rightarrow> (string \<times> json) list \<Rightarrow> Message list \<times> unit result" where
  "ReportPoliciesDelta H D db modifiedPoliciesMap modifiedChecksMap =
     (case ProcessEvents D db modifiedPoliciesMap modifiedChecksMap of
        Ok events \<Rightarrow> push_events H True 0 events
      | Throw e \<Rightarrow> ([], Throw e)
      | Terminate \<Rightarrow> ([], Terminate))"

definition ReportCheckResult ::
  "handler_env \<Rightarrow> 'd dbsync \<Rightarrow> string \<Rightarrow> string \<Rightarrow> string \<Rightarrow> 'd \<Rightarrow> (Message list \<times> unit result) \<times> 'd" where
  "ReportCheckResult H D policyId checkId checkResult db =
     (case bind_result (GetPolicyById D db policyId) (\<lambda>policyData.
             bind_result (GetPolicyCheckById D db checkId) (\<lambda>checkData.
               map_result (Pair policyData) (json_set checkData ''result'' (JStr checkResult)))) of
        Throw e \<Rightarrow> (([], Throw e), db)
      | Terminate \<Rightarrow> (([], Terminate), db)
      | Ok (policyData, checkData) \<Rightarrow>
          (case syncRow D db ''sca_check'' checkData True of
             None \<Rightarrow> (([], Throw ''dbsync''), db)
           | Some (rows, db') \<Rightarrow>
               (push_events H False 0
                  (map (\<lambda>(result, rowData). event_object policyData rowData (callback_int result) ''check'')
                     (filter (\<lambda>r. fst r = MODIFIED) rows)), db')))"

text \<open>
  The callback that \<^verbatim>\<open>SecurityConfigurationAssessment::Setup\<close> (\<^verbatim>\<open>sca.cpp\<close>) gives to the scans; its state is the messages
  pushed so far and the database.
\<close>

definition report_callback :: "handler_env \<Rightarrow> 'd dbsync \<Rightarrow> (Message list \<times> 'd) reporter" where
  "report_callback H D =
     (\<lambda>(policyId, checkId, checkResult) (pushed, db).
        case ReportCheckResult H D policyId checkId checkResult db of
          ((ms, r), db') \<Rightarrow> (r, (pushed @ ms, db')))"

subsection \<open>Synchronising the policies\<close>

text \<open>What a callback adds to the map of changes; an entry without an identifier is logged.\<close>

definition changed_id :: "ReturnTypeCallback \<Rightarrow> json \<Rightarrow> string" where
  "changed_id result rowData =
     (if result = MODIFIED \<and> object_at rowData ''new'' \<noteq> None then
        (case json_get (the (object_at rowData ''new'')) ''id'' of Some (JStr s) \<Rightarrow> s | _ \<Rightarrow> [])
      else if result = INSERTED \<or> result = DELETED then (case json_get rowData ''id'' of Some (JStr s) \<Rightarrow> s | _ \<Rightarrow> [])
      else [])"

definition add_change :: "ReturnTypeCallback \<times> json \<Rightarrow> (string \<times> json) list \<Rightarrow> (string \<times> json) list" where
  "add_change row changes =
     (let i = changed_id (fst row) (snd row) in
      if fst row \<noteq> DB_ERROR \<and> i \<noteq> []
      then AList.update i (json_object [(''result'', JInt (callback_int (fst row))), (''data'', snd row)]) changes
      else changes)"

definition SyncWithDBSync :: "'d dbsync \<Rightarrow> string \<Rightarrow> json list \<Rightarrow> 'd \<Rightarrow> ((string \<times> json) list \<times> 'd) option" where
  "SyncWithDBSync D tableName data db =
     map_option (\<lambda>(rows, db'). (fold add_change rows [], db')) (syncTxn D db tableName (NormalizeData data))"

definition not_run :: json where
  "not_run = JStr (CheckResultToString NotRun)"

text \<open>A new check, and a check that changed, has not been run.\<close>

definition reset_result :: "'d dbsync \<Rightarrow> json \<Rightarrow> 'd \<Rightarrow> json \<times> 'd" where
  "reset_result D change db =
     (if json_at change ''result'' = JInt (callback_int INSERTED) then
        (put ''data'' (put ''result'' not_run (json_at change ''data'')) change, db)
      else if json_at change ''result'' = JInt (callback_int MODIFIED) then
        (let row = put ''result'' not_run (json_at (json_at change ''data'') ''new'')
         in (put ''data'' (put ''new'' row (json_at change ''data'')) change,
             case syncRow D db ''sca_check'' row False of Some (_, db') \<Rightarrow> db' | None \<Rightarrow> db))
      else (change, db))"

fun reset_results :: "'d dbsync \<Rightarrow> (string \<times> json) list \<Rightarrow> 'd \<Rightarrow> (string \<times> json) list \<times> 'd" where
  "reset_results D [] db = ([], db)"
| "reset_results D ((i, change) # cs) db =
     (let (change', db1) = reset_result D change db; (cs', db2) = reset_results D cs db1 in ((i, change') # cs', db2))"

definition SyncPoliciesAndReportDelta ::
  "handler_env \<Rightarrow> 'd dbsync \<Rightarrow> collected \<Rightarrow> 'd \<Rightarrow> (Message list \<times> unit result) \<times> 'd" where
  "SyncPoliciesAndReportDelta H D data db =
     (case SyncWithDBSync D ''sca_policy'' (col_policies data) db of
        None \<Rightarrow> (([], Throw ''dbsync''), db)
      | Some (policies, db1) \<Rightarrow>
          (case SyncWithDBSync D ''sca_check'' (col_checks data) db1 of
             None \<Rightarrow> (([], Throw ''dbsync''), db1)
           | Some (checks, db2) \<Rightarrow>
               let (checks', db3) = reset_results D checks db2 in (ReportPoliciesDelta H D db3 policies checks', db3)))"

definition LoadPolicies ::
  "handler_env \<Rightarrow> 'd dbsync \<Rightarrow> bool \<Rightarrow> (yaml \<Rightarrow> string option) \<Rightarrow> (string \<Rightarrow> yaml option) \<Rightarrow> string list \<Rightarrow> string list \<Rightarrow> 'd
     \<Rightarrow> (SCAPolicy list \<times> (Message list \<times> unit result) \<times> 'd) option" where
  "LoadPolicies H D windows as_str load custom disabled db =
     map_option (\<lambda>(policies, col).
         (policies,
          if col_policies col \<noteq> [] \<and> col_checks col \<noteq> [] then SyncPoliciesAndReportDelta H D col db else (([], Ok ()), db)))
       (load_policies windows as_str load disabled custom [] \<lparr>col_policies = [], col_checks = []\<rparr>)"


subsection \<open>Lists as text\<close>

lemma Trim_blank: "Trim (CHR '' '' # x) tab_blank = Trim x tab_blank"
proof (cases "RightTrim x tab_blank = []")
  case True
  then have "\<forall>c \<in> set x. c \<in> set tab_blank" by (simp add: RightTrim_def)
  then have "RightTrim (CHR '' '' # x) tab_blank = []" by (simp add: RightTrim_def tab_blank_def)
  then show ?thesis using True by (simp add: Trim_def)
next
  case False
  then have "\<exists>c \<in> set (rev x). c \<notin> set tab_blank" by (simp add: RightTrim_def)
  then have "RightTrim (CHR '' '' # x) tab_blank = CHR '' '' # RightTrim x tab_blank"
    by (auto simp: RightTrim_def dropWhile_append1)
  then show ?thesis by (simp add: Trim_def LeftTrim_def tab_blank_def)
qed

lemma Trim_ends:
  assumes "Trim x cs \<noteq> []"
  shows "hd (Trim x cs) \<notin> set cs" "last (Trim x cs) \<notin> set cs"
proof -
  let ?r = "RightTrim x cs"
  show "hd (Trim x cs) \<notin> set cs" using assms hd_dropWhile [of "\<lambda>c. c \<in> set cs" ?r] by (simp add: Trim_def LeftTrim_def)
  have r: "?r \<noteq> []" using assms by (auto simp: Trim_def LeftTrim_def)
  then have "last ?r \<notin> set cs" using hd_dropWhile [of "\<lambda>c. c \<in> set cs" "rev x"] by (simp add: RightTrim_def last_rev)
  moreover have "last (Trim x cs) = last ?r"
    using assms by (metis LeftTrim_def Trim_def last_appendR takeWhile_dropWhile_id)
  ultimately show "last (Trim x cs) \<notin> set cs" by simp
qed

lemma Trim_fixed:
  assumes "x \<noteq> []" "hd x \<notin> set cs" "last x \<notin> set cs"
  shows "Trim x cs = x"
proof -
  have d: "dropWhile (\<lambda>c. c \<in> set cs) y = y" if "y \<noteq> []" "hd y \<notin> set cs" for y using that by (cases y) auto
  have "dropWhile (\<lambda>c. c \<in> set cs) (rev x) = rev x" by (rule d) (use assms in \<open>simp_all add: hd_rev\<close>)
  then have r: "RightTrim x cs = x" unfolding RightTrim_def by (simp only: rev_rev_ident)
  show ?thesis unfolding Trim_def r LeftTrim_def by (rule d) (use assms in simp_all)
qed

lemma Trim_idem [simp]: "Trim (Trim x cs) cs = Trim x cs"
proof (cases "Trim x cs = []")
  case True
  show ?thesis unfolding True by (simp add: Trim_def LeftTrim_def RightTrim_def)
next
  case False
  from Trim_fixed [OF False Trim_ends [OF False]] show ?thesis .
qed

lemma set_Trim: "set (Trim x cs) \<subseteq> set x"
proof -
  have d: "set (dropWhile P y) \<subseteq> set y" for P and y :: string by (auto dest: set_dropWhileD)
  have "set (RightTrim x cs) \<subseteq> set x" unfolding RightTrim_def set_rev using d [of _ "rev x"] by simp
  then show ?thesis unfolding Trim_def LeftTrim_def using d by blast
qed

lemma split_token: "d \<notin> set t \<Longrightarrow> split (t @ d # r) d = t # split r d"
  by (subst split.simps) (simp add: takeWhile_stops dropWhile_stops)

lemma split_last:
  assumes "d \<notin> set t" "t \<noteq> []"
  shows "split t d = [t]"
proof -
  have t: "takeWhile (\<lambda>c. c \<noteq> d) t = t" "dropWhile (\<lambda>c. c \<noteq> d) t = []" using assms(1) by (auto simp: takeWhile_eq_all_conv)
  show ?thesis unfolding split.simps [of t] t using assms(2) by (simp add: split.simps [of "[]"])
qed

lemma split_comma:
  "\<forall>q \<in> set (p # ps). q \<noteq> [] \<and> CHR '','' \<notin> set q \<Longrightarrow> split (Join (p # ps) '','') (CHR '','') = p # ps"
proof (induction ps arbitrary: p)
  case Nil
  then show ?case by (simp add: Join_def split_last)
next
  case (Cons q qs)
  have "Join (p # q # qs) '','' = p @ CHR '','' # Join (q # qs) '',''" by (simp add: Join_def)
  then show ?case using Cons.IH [of q] Cons.prems by (simp add: split_token)
qed

definition comma_list :: "string list \<Rightarrow> bool" where
  "comma_list xs \<longleftrightarrow> (\<forall>x \<in> set xs. x \<noteq> [] \<and> CHR '','' \<notin> set x \<and> Trim x tab_blank = x)"

lemma split_Join:
  assumes "comma_list (x # xs)"
  shows "split (Join (x # xs) '', '') (CHR '','') = x # map (\<lambda>y. CHR '' '' # y) xs"
proof -
  have "Join (x # xs) '', '' = Join (x # map (\<lambda>y. CHR '' '' # y) xs) '',''" by (simp add: Join_def o_def append_Cons [abs_def])
  moreover have "\<forall>q \<in> set (x # map (\<lambda>y. CHR '' '' # y) xs). q \<noteq> [] \<and> CHR '','' \<notin> set q"
    using assms by (auto simp: comma_list_def)
  ultimately show ?thesis using split_comma by metis
qed

lemma StringToJsonArray_Join: "StringToJsonArray (Join xs '', '') = JArr (map JStr xs) \<longleftrightarrow> comma_list xs"
proof
  assume "comma_list xs"
  then show "StringToJsonArray (Join xs '', '') = JArr (map JStr xs)"
  proof (cases xs)
    case Nil
    then show ?thesis by (simp add: StringToJsonArray_def Join_def split.simps)
  next
    case (Cons x ys)
    have "map (\<lambda>t. Trim t tab_blank) (x # map (\<lambda>y. CHR '' '' # y) ys) = xs" "filter (\<lambda>t. t \<noteq> []) xs = xs"
      using \<open>comma_list xs\<close> Cons by (auto simp: comma_list_def Trim_blank map_idI filter_id_conv)
    then show ?thesis using split_Join [of x ys] \<open>comma_list xs\<close> Cons by (simp add: StringToJsonArray_def)
  qed
next
  let ?ts = "filter (\<lambda>t. t \<noteq> []) (map (\<lambda>t. Trim t tab_blank) (split (Join xs '', '') (CHR '','')))"
  assume "StringToJsonArray (Join xs '', '') = JArr (map JStr xs)"
  then have "map JStr ?ts = map JStr xs" by (simp only: StringToJsonArray_def json.inject)
  then have xs: "xs = ?ts" by (simp add: inj_map_eq_map inj_def)
  have "x \<noteq> [] \<and> CHR '','' \<notin> set x \<and> Trim x tab_blank = x" if "x \<in> set ?ts" for x
    using that split_join [of "CHR '',''" "Join xs '', ''"] set_Trim by fastforce
  then show "comma_list xs" unfolding comma_list_def using xs by metis
qed

subsection \<open>What normalisation keeps\<close>

definition sorted_object :: "json \<Rightarrow> bool" where
  "sorted_object j \<longleftrightarrow> (\<exists>kvs. j = JObj kvs \<and> sorted_wrt (<) (map fst kvs))"

lemma sorted_put: "sorted_object j \<Longrightarrow> sorted_object (put k v j) \<and> json_get (put k v j) k' = (if k = k' then Some v else json_get j k')"
  by (auto simp: sorted_object_def put_def sorted_obj_put map_of_obj_put)

lemma map_of_filter_key: "map_of (filter (\<lambda>kv. fst kv \<noteq> k) kvs) k' = (if k = k' then None else map_of kvs k')"
  by (induction kvs) auto

lemma sorted_erase: "sorted_object j \<Longrightarrow> sorted_object (json_erase j k) \<and> json_get (json_erase j k) k' = (if k = k' then None else json_get j k')"
  by (auto simp: sorted_object_def map_of_filter_key sorted_wrt_map sorted_wrt_filter)

lemma sorted_array_at:
  assumes "sorted_object j"
  shows "sorted_object (array_at k k' j)"
    and "l \<noteq> k \<Longrightarrow> l \<noteq> k' \<Longrightarrow> json_get (array_at k k' j) l = json_get j l"
    and "json_get j k = Some (JStr s) \<Longrightarrow> json_get (array_at k k' j) k' = Some (StringToJsonArray s)"
  using assms sorted_put [OF assms] sorted_erase
  by (auto simp: array_at_def Let_def split: option.splits json.splits)


lemma NormalizeCheck_rules:
  assumes "sorted_object j" "json_get j ''rules'' = Some (JStr s)"
  shows "json_get (NormalizeCheck j) ''rules'' = Some (StringToJsonArray s)"
proof -
  let ?r = "array_at ''refs'' ''references'' j"
  let ?c = "array_at ''compliance'' ''compliance'' ?r"
  let ?u = "array_at ''rules'' ''rules'' ?c"
  have r: "sorted_object ?r" "json_get ?r ''rules'' = Some (JStr s)"
    using sorted_array_at(1,2) [OF assms(1)] assms(2) by simp_all
  have c: "sorted_object ?c" "json_get ?c ''rules'' = Some (JStr s)"
    using sorted_array_at(1,2) [OF r(1)] r(2) by simp_all
  have u: "sorted_object ?u" "json_get ?u ''rules'' = Some (StringToJsonArray s)"
    using sorted_array_at(1,3) [OF c(1)] c(2) by simp_all
  show ?thesis unfolding NormalizeCheck_def using sorted_erase [OF u(1), of "''policy_id''" "''rules''"] u(2) by simp
qed

lemma scalar_values: "opt_concat (map (item_values as_str) (map YScalar xs)) = Some xs"
  by (induction xs) (auto simp: opt_concat_def)

subsection \<open>Which events a change makes\<close>

definition id_of :: "json \<Rightarrow> string" where
  "id_of j = (case string_at j ''id'' of Ok i \<Rightarrow> i | _ \<Rightarrow> [])"

lemma unmodified_checks_spec:
  assumes "\<forall>c \<in> set cs. is_ok (string_at c ''id'')"
  shows "unmodified_checks modified p r cs events =
    (events @ map (\<lambda>c. event_object p c r ''policy'') (filter (\<lambda>c. id_of c \<notin> set modified) cs), Ok ())"
  using assms by (induction cs arbitrary: events) (auto simp: id_of_def is_ok_iff)

lemma check_entries_spec:
  assumes "\<forall>c \<in> set cs. check_event D db policies (snd c) = Ok (ev c)"
  shows "check_entries D db policies cs events = (events @ map ev cs, Ok ())"
  using assms by (induction cs arbitrary: events) auto

text \<open>A check that changed makes one event, as itself; a check of a policy that changed makes one, as
  part of the policy, just when it did not change itself.\<close>

lemma ProcessEvents_one_policy:
  assumes "const_at p ''data'' = Ok data" "const_at p ''result'' = Ok (JInt r)" "GetChecksForPolicy D db i = Ok cs"
    and "\<forall>c \<in> set cs. is_ok (string_at c ''id'')" "\<forall>c \<in> set checks. check_event D db [(i, p)] (snd c) = Ok (ev c)"
  shows "ProcessEvents D db [(i, p)] checks =
    Ok (map (\<lambda>c. event_object data c r ''policy'') (filter (\<lambda>c. id_of c \<notin> fst ` set checks) cs) @ map ev checks)"
proof -
  have "policy_entries D db (map fst checks) [(i, p)] [] =
      (map (\<lambda>c. event_object data c r ''policy'') (filter (\<lambda>c. id_of c \<notin> fst ` set checks) cs), Ok ())"
    using unmodified_checks_spec [OF assms(4), of "map fst checks" data r "[]"] assms(1-3) by (simp add: policy_entry_def)
  then show ?thesis using check_entries_spec [OF assms(5)] by (simp add: ProcessEvents_def)
qed

text \<open>
  A policy whose row filter the database rejects, which an identifier with a quote can bring about: the first
  report of its scan throws, so the scan ends there and no check is reported.
\<close>

lemma rejected_filter_ends_scan:
  assumes "m_checks p \<noteq> []"
    and "selectRows D db ''sca_policy'' [''id'', ''name'', ''description'', ''file'', ''refs''] (row_filter ''id'' (m_id p)) = None"
  shows "\<exists>r. report_list (report_callback H D) (policy_reports M p) (pushed, db) = ([r], Thrown ''dbsync'', (pushed, db))"
proof -
  obtain c cs where "m_checks p = c # cs" using assms(1) by (cases "m_checks p") auto
  then obtain i res rs where "policy_reports M p = (m_id p, i, res) # rs" by (simp add: policy_reports_def)
  then show ?thesis
    using assms(2) by (simp add: report_callback_def ReportCheckResult_def GetPolicyById_def bind_result_def)
qed

subsection \<open>Properties\<close>

text \<open>
  C35: the rules of a check travel from the policy file through a text column to the message. The message lists the
  rules of the file exactly when every rule is non-empty, has no blanks at its ends and contains no
  comma; a rule with a comma, as many regular expressions have, arrives cut in pieces.
\<close>

theorem rules_travel:
  assumes "sorted_object check" "json_get check ''rules'' = Some column"
    and "YamlNodeToJson as_str (YSeq (map YScalar rs)) = Some column"
  shows "json_get (NormalizeCheck check) ''rules'' = Some (JArr (map JStr rs)) \<longleftrightarrow>
    (\<forall>r \<in> set rs. r \<noteq> [] \<and> CHR '','' \<notin> set r \<and> Trim r tab_blank = r)"
proof -
  have "column = JStr (Join rs '', '')" using assms(3) scalar_values [of as_str rs] by simp
  with NormalizeCheck_rules [OF assms(1)] assms(2) StringToJsonArray_Join [of rs] show ?thesis by (simp add: comma_list_def)
qed

theorem rules_travel_witness:
  "json_get (NormalizeCheck (JObj [(''id'', JStr ''1''), (''rules'', JStr ''f:/a -> r:x{1,2}'')])) ''rules'' \<noteq>
    Some (JArr [JStr ''f:/a -> r:x{1,2}'']) \<and>
   json_get (NormalizeCheck (JObj [(''id'', JStr ''1''), (''rules'', JStr ''f:/a, p:b'')])) ''rules'' =
    Some (JArr [JStr ''f:/a'', JStr ''p:b''])"
proof -
  have s: "sorted_object (JObj [(''id'', JStr ''1''), (''rules'', x)])" for x by (simp add: sorted_object_def)
  have t: "Trim ''f:/a'' tab_blank = ''f:/a''" "Trim ''p:b'' tab_blank = ''p:b''"
    by (simp_all add: Trim_def LeftTrim_def RightTrim_def tab_blank_def)
  show ?thesis
    using rules_travel [OF s, of "JStr ''f:/a -> r:x{1,2}''" "JStr ''f:/a -> r:x{1,2}''" plain_str "[''f:/a -> r:x{1,2}'']"]
      rules_travel [OF s, of "JStr ''f:/a, p:b''" "JStr ''f:/a, p:b''" plain_str "[''f:/a'', ''p:b'']"] t
    by (simp add: opt_concat_def Join_def)
qed

end
