(* ===== verification/Queue_Op.thy ===== *)
theory Queue_Op
  imports Prelude "HOL-Library.Word"
begin

section \<open>The circular queue\<close>

text \<open>
  \<^verbatim>\<open>src/src/common/queue_op/src/queue_op.c\<close>: a ring buffer of pointers, with a mutex and two condition variables. A
  pointer is an option, \<open>None\<close> for \<^verbatim>\<open>NULL\<close>; the counter of elements is the 32-bit word of the code; a
  division by a size of zero ends the process. The functions that lock are one critical section each:
  they return the condition variables they signal, and a blocking function is one round of its loop,
  which waits or is done.

  The locale \<open>bounded_fifo\<close> is the contract of a queue: any implementation of it behaves, on every
  sequence of calls, like a list with a bound. The ring buffer is an interpretation.
\<close>

subsection \<open>The code\<close>

record 'a w_queue =
  q_data :: "'a option list"
  q_begin :: nat
  q_end :: nat
  q_size :: nat
  q_elements :: "32 word"

text \<open>
  \<open>junk\<close> is what \<^verbatim>\<open>malloc\<close> leaves in the buffer. The allocation succeeds, which for \<open>n\<close> pointers needs \<open>8 * n < 2 ^ 64\<close>; a
  failed one ends the process and is not modelled.
\<close>

definition queue_init :: "'a option list \<Rightarrow> nat \<Rightarrow> 'a w_queue" where
  "queue_init junk n =
     \<lparr>q_data = take n junk @ replicate (n - length junk) None, q_begin = 0, q_end = 0, q_size = n, q_elements = 0\<rparr>"

definition queue_full :: "'a w_queue \<Rightarrow> bool result" where
  "queue_full q = (if q_size q = 0 then Terminate else Ok ((q_begin q + 1) mod q_size q = q_end q))"

definition queue_empty :: "'a w_queue \<Rightarrow> bool" where
  "queue_empty q \<longleftrightarrow> q_begin q = q_end q"

definition queue_push :: "'a option \<Rightarrow> 'a w_queue \<Rightarrow> (int \<times> 'a w_queue) result" where
  "queue_push data q =
     map_result (\<lambda>full.
       if full then (- 1, q)
       else (0, q\<lparr>q_data := (q_data q)[q_begin q := data], q_begin := (q_begin q + 1) mod q_size q,
               q_elements := q_elements q + 1\<rparr>))
       (queue_full q)"

definition queue_pop :: "'a w_queue \<Rightarrow> 'a option \<times> 'a w_queue" where
  "queue_pop q =
     (if queue_empty q then (None, q)
      else (q_data q ! q_end q, q\<lparr>q_end := (q_end q + 1) mod q_size q, q_elements := q_elements q - 1\<rparr>))"

datatype signal = available | available_not_empty

definition queue_push_ex :: "'a option \<Rightarrow> 'a w_queue \<Rightarrow> (int \<times> 'a w_queue \<times> signal list) result" where
  "queue_push_ex data q =
     map_result (\<lambda>(result, q'). (result, q', if result = 0 then [available] else [])) (queue_push data q)"

text \<open>One round of a blocking function, from taking the mutex to waiting or returning.\<close>

datatype ('r, 'q) turn = Wait signal | Return 'r 'q "signal list"

definition queue_push_ex_block :: "'a option \<Rightarrow> 'a w_queue \<Rightarrow> (int, 'a w_queue) turn result" where
  "queue_push_ex_block data q =
     (case queue_full q of
        Ok full \<Rightarrow>
          if full then Ok (Wait available_not_empty)
          else map_result (\<lambda>(result, q'). Return result q' [available_not_empty, available]) (queue_push data q)
      | Throw e \<Rightarrow> Throw e
      | Terminate \<Rightarrow> Terminate)"

definition queue_pop_ex :: "'a w_queue \<Rightarrow> ('a option, 'a w_queue) turn" where
  "queue_pop_ex q =
     (let (data, q') = queue_pop q in if data = None then Wait available else Return data q' [available_not_empty])"

text \<open>With a time limit: \<open>expired\<close> is what the wait returns after a round that finds nothing.\<close>

definition queue_pop_ex_timedwait :: "bool \<Rightarrow> 'a w_queue \<Rightarrow> ('a option, 'a w_queue) turn" where
  "queue_pop_ex_timedwait expired q =
     (let (data, q') = queue_pop q in
      if data = None then (if expired then Return None q' [] else Wait available) else Return data q' [available_not_empty])"

subsection \<open>The contract of a queue\<close>

datatype 'x fifo_op = Enq 'x | Deq

fun fifo_step :: "nat \<Rightarrow> 'x fifo_op \<Rightarrow> 'x list \<Rightarrow> (bool + 'x option) \<times> 'x list" where
  "fifo_step cap (Enq x) xs = (if length xs < cap then (Inl True, xs @ [x]) else (Inl False, xs))"
| "fifo_step cap Deq [] = (Inr None, [])"
| "fifo_step cap Deq (x # xs) = (Inr (Some x), xs)"

fun run :: "('op \<Rightarrow> 's \<Rightarrow> 'out \<times> 's) \<Rightarrow> 'op list \<Rightarrow> 's \<Rightarrow> 'out list \<times> 's" where
  "run step [] s = ([], s)"
| "run step (c # cs) s = (let (r, s') = step c s; (rs, s'') = run step cs s' in (r # rs, s''))"

fun fifo_call :: "('x \<Rightarrow> 'q \<Rightarrow> bool \<times> 'q) \<Rightarrow> ('q \<Rightarrow> 'x option \<times> 'q) \<Rightarrow> 'x fifo_op \<Rightarrow> 'q \<Rightarrow> (bool + 'x option) \<times> 'q" where
  "fifo_call enq deq (Enq x) q = (let (b, q') = enq x q in (Inl b, q'))"
| "fifo_call enq deq Deq q = (let (r, q') = deq q in (Inr r, q'))"

locale bounded_fifo =
  fixes enq :: "'x \<Rightarrow> 'q \<Rightarrow> bool \<times> 'q"
    and deq :: "'q \<Rightarrow> 'x option \<times> 'q"
    and contents :: "'q \<Rightarrow> 'x list"
    and ok :: "'q \<Rightarrow> bool"
    and cap :: "'q \<Rightarrow> nat"
  assumes enq_space: "ok q \<Longrightarrow> length (contents q) < cap q \<Longrightarrow>
      fst (enq x q) \<and> contents (snd (enq x q)) = contents q @ [x] \<and> ok (snd (enq x q)) \<and> cap (snd (enq x q)) = cap q"
    and enq_full: "ok q \<Longrightarrow> \<not> length (contents q) < cap q \<Longrightarrow> enq x q = (False, q)"
    and deq_some: "ok q \<Longrightarrow> contents q = x # xs \<Longrightarrow>
      fst (deq q) = Some x \<and> contents (snd (deq q)) = xs \<and> ok (snd (deq q)) \<and> cap (snd (deq q)) = cap q"
    and deq_none: "ok q \<Longrightarrow> contents q = [] \<Longrightarrow> deq q = (None, q)"
begin

lemma step_refines:
  assumes "ok q"
  shows "fst (fifo_call enq deq c q) = fst (fifo_step (cap q) c (contents q)) \<and>
    contents (snd (fifo_call enq deq c q)) = snd (fifo_step (cap q) c (contents q)) \<and> ok (snd (fifo_call enq deq c q)) \<and> cap (snd (fifo_call enq deq c q)) = cap q"
proof (cases c)
  case (Enq x)
  then show ?thesis using enq_space [OF assms, of x] enq_full [OF assms, of x] assms
    by (cases "length (contents q) < cap q") (auto simp: case_prod_unfold)
next
  case Deq
  then show ?thesis using deq_some [OF assms] deq_none [OF assms] assms
    by (cases "contents q") (auto simp: case_prod_unfold)
qed

lemma run_refines:
  assumes "ok q"
  shows "fst (run (fifo_call enq deq) cs q) = fst (run (fifo_step (cap q)) cs (contents q)) \<and>
    contents (snd (run (fifo_call enq deq) cs q)) = snd (run (fifo_step (cap q)) cs (contents q)) \<and> ok (snd (run (fifo_call enq deq) cs q))"
  using assms
proof (induction cs arbitrary: q)
  case (Cons c cs)
  note s = step_refines [OF Cons.prems, of c]
  then have "ok (snd (fifo_call enq deq c q))" by blast
  from Cons.IH [OF this] s show ?case by (simp add: case_prod_unfold Let_def)
qed simp

end

subsection \<open>The ring\<close>

text \<open>The number of elements is the distance from the end to the beginning around the ring.\<close>

definition ring_length :: "'a w_queue \<Rightarrow> nat" where
  "ring_length q = (q_begin q + q_size q - q_end q) mod q_size q"

definition slot :: "'a w_queue \<Rightarrow> nat \<Rightarrow> nat" where
  "slot q i = (q_end q + i) mod q_size q"

definition ring_contents :: "'a w_queue \<Rightarrow> 'a list" where
  "ring_contents q = map (\<lambda>i. the (q_data q ! slot q i)) [0..<ring_length q]"

definition ring_ok :: "'a w_queue \<Rightarrow> bool" where
  "ring_ok q \<longleftrightarrow> q_begin q < q_size q \<and> q_end q < q_size q \<and> length (q_data q) = q_size q \<and>
     (\<forall>i < ring_length q. q_data q ! slot q i \<noteq> None) \<and> q_elements q = of_nat (ring_length q)"

lemma ring_length_iff:
  assumes "b < s" "e < s"
  shows "(b + s - e) mod s = n \<longleftrightarrow> n < s \<and> b = (e + n) mod (s :: nat)"
proof
  assume n: "(b + s - e) mod s = n"
  have "(e + n) mod s = (e + (b + s - e)) mod s" unfolding n [symmetric] by (simp add: mod_add_right_eq)
  also have "\<dots> = b" using assms by simp
  finally show "n < s \<and> b = (e + n) mod s" using mod_less_divisor [of s "b + s - e"] n assms by simp
next
  assume n: "n < s \<and> b = (e + n) mod s"
  show "(b + s - e) mod s = n"
  proof (cases "e + n < s")
    case True
    then show ?thesis using n assms by simp
  next
    case False
    then have "(e + n) mod s = (e + n - s) mod s" by (simp add: le_mod_geq)
    also have "\<dots> = e + n - s" by (rule mod_less) (use n assms False in linarith)
    finally have "(e + n) mod s = e + n - s" .
    then show ?thesis using n assms False by simp
  qed
qed

lemma slots_differ:
  assumes "e < s" "i < s" "j < s" "(e + i) mod s = (e + j) mod (s :: nat)"
  shows "i = j"
  using ring_length_iff [of "(e + i) mod s" s e i] ring_length_iff [of "(e + i) mod s" s e j] assms by auto

lemma ring_begin:
  assumes "ring_ok q"
  shows "ring_length q < q_size q" "q_begin q = slot q (ring_length q)"
  using ring_length_iff [of "q_begin q" "q_size q" "q_end q" "ring_length q"] assms
  by (auto simp: ring_ok_def slot_def ring_length_def)

lemma queue_full_iff: "ring_ok q \<Longrightarrow> queue_full q = Ok (ring_length q + 1 = q_size q)"
proof -
  assume q: "ring_ok q"
  note b = ring_begin [OF q]
  have e: "q_end q < q_size q" using q by (simp add: ring_ok_def)
  have "(q_begin q + 1) mod q_size q = (q_end q + (ring_length q + 1)) mod q_size q"
    using b(2) by (simp add: slot_def mod_Suc_eq)
  moreover have "(q_end q + (ring_length q + 1)) mod q_size q = q_end q \<longleftrightarrow> ring_length q + 1 = q_size q"
    using slots_differ [of "q_end q" "q_size q" "ring_length q + 1" 0] b(1) e
    by (cases "ring_length q + 1 = q_size q") auto
  ultimately show ?thesis using e by (simp add: queue_full_def)
qed

definition enq :: "'a \<Rightarrow> 'a w_queue \<Rightarrow> bool \<times> 'a w_queue" where
  "enq x q = (case queue_push (Some x) q of Ok (r, q') \<Rightarrow> (r = 0, q') | _ \<Rightarrow> (False, q))"

lemma queue_push_space:
  assumes "ring_ok q" "ring_length q + 1 < q_size q"
  obtains q' where "queue_push (Some x) q = Ok (0, q')" "ring_ok q'" "ring_length q' = ring_length q + 1" "q_size q' = q_size q"
    "ring_contents q' = ring_contents q @ [x]"
proof -
  let ?n = "ring_length q" and ?s = "q_size q"
  let ?q = "q\<lparr>q_data := (q_data q)[q_begin q := Some x], q_begin := (q_begin q + 1) mod ?s, q_elements := q_elements q + 1\<rparr>"
  note b = ring_begin [OF assms(1)]
  have q: "q_end q < ?s" "q_begin q < ?s" "length (q_data q) = ?s" using assms(1) by (auto simp: ring_ok_def)
  have push: "queue_push (Some x) q = Ok (0, ?q)" using queue_full_iff [OF assms(1)] assms(2) by (simp add: queue_push_def)
  have "(q_begin q + 1) mod ?s = (q_end q + (?n + 1)) mod ?s" using b(2) by (simp add: slot_def mod_Suc_eq)
  then have len: "ring_length ?q = ?n + 1"
    using ring_length_iff [of "(q_begin q + 1) mod ?s" ?s "q_end q" "?n + 1"] q assms(2) by (simp add: ring_length_def)
  have slots: "slot ?q i = slot q i" for i by (simp add: slot_def)
  have old: "q_data ?q ! slot q i = q_data q ! slot q i" if "i < ?n" for i
  proof -
    have "slot q i \<noteq> q_begin q" using slots_differ [of "q_end q" ?s i ?n] that b q by (auto simp: slot_def)
    then show ?thesis by simp
  qed
  have new: "q_data ?q ! slot q ?n = Some x" using b(2) q by simp
  have "ring_ok ?q"
    using assms(1) q old new len unfolding ring_ok_def slots by (auto simp: less_Suc_eq)
  moreover have "ring_contents ?q = ring_contents q @ [x]"
    unfolding ring_contents_def len slots using old new by simp
  ultimately show thesis using that push len by simp
qed

lemma queue_pop_some:
  assumes "ring_ok q" "0 < ring_length q"
  obtains q' where "queue_pop q = (Some (hd (ring_contents q)), q')" "ring_ok q'" "ring_contents q' = tl (ring_contents q)" "q_size q' = q_size q"
proof -
  let ?n = "ring_length q" and ?s = "q_size q"
  let ?q = "q\<lparr>q_end := (q_end q + 1) mod ?s, q_elements := q_elements q - 1\<rparr>"
  note b = ring_begin [OF assms(1)]
  have q: "q_end q < ?s" "q_begin q < ?s" "length (q_data q) = ?s" using assms(1) by (auto simp: ring_ok_def)
  have "\<not> queue_empty q" using assms q by (auto simp: queue_empty_def ring_length_def)
  moreover have first: "q_data q ! q_end q = Some (hd (ring_contents q))"
    using assms q by (auto simp: ring_contents_def ring_ok_def slot_def hd_map)
  ultimately have pop: "queue_pop q = (Some (hd (ring_contents q)), ?q)" by (simp add: queue_pop_def)
  have slots: "slot ?q i = slot q (Suc i)" for i by (simp add: slot_def mod_simps)
  have "((q_end q + 1) mod ?s + (?n - 1)) mod ?s = (q_end q + 1 + (?n - 1)) mod ?s" by (rule mod_add_left_eq)
  also have "\<dots> = q_begin q" using b(2) assms(2) by (simp add: slot_def)
  finally have "q_begin q = ((q_end q + 1) mod ?s + (?n - 1)) mod ?s" ..
  then have len: "ring_length ?q = ?n - 1"
    unfolding ring_length_def [of ?q]
    using ring_length_iff [of "q_begin q" ?s "(q_end q + 1) mod ?s" "?n - 1"] q b(1) by simp
  have "ring_ok ?q"
    using assms q len unfolding ring_ok_def slots by (auto simp: of_nat_diff)
  moreover have "ring_contents ?q = tl (ring_contents q)"
  proof -
    have "[0..<?n] = 0 # map Suc [0..<?n - 1]" using assms(2) by (metis Suc_diff_1 map_Suc_upt upt_conv_Cons)
    then show ?thesis unfolding ring_contents_def len slots by (simp add: o_def)
  qed
  ultimately show thesis using that pop by simp
qed


lemma length_ring_contents: "length (ring_contents q) = ring_length q"
  by (simp add: ring_contents_def)

interpretation rq: bounded_fifo enq queue_pop ring_contents ring_ok "\<lambda>q. q_size q - 1"
proof
  fix q :: "'a w_queue" and x
  assume q: "ring_ok q" "length (ring_contents q) < q_size q - 1"
  then have "ring_length q + 1 < q_size q" by (simp add: length_ring_contents)
  then obtain q' where "queue_push (Some x) q = Ok (0, q')" "ring_ok q'" "q_size q' = q_size q" "ring_contents q' = ring_contents q @ [x]"
    using queue_push_space [OF q(1)] by blast
  then show "fst (enq x q) \<and> ring_contents (snd (enq x q)) = ring_contents q @ [x] \<and> ring_ok (snd (enq x q)) \<and>
      q_size (snd (enq x q)) - 1 = q_size q - 1"
    by (simp add: enq_def)
next
  fix q :: "'a w_queue" and x
  assume q: "ring_ok q" "\<not> length (ring_contents q) < q_size q - 1"
  then have "ring_length q + 1 = q_size q" using ring_begin(1) [OF q(1)] by (simp add: length_ring_contents)
  then show "enq x q = (False, q)" using queue_full_iff [OF q(1)] by (simp add: enq_def queue_push_def)
next
  fix q :: "'a w_queue" and x xs
  assume q: "ring_ok q" "ring_contents q = x # xs"
  then have "0 < ring_length q" using length_ring_contents [of q] by simp
  then obtain q' where "queue_pop q = (Some (hd (ring_contents q)), q')" "ring_ok q'" "ring_contents q' = tl (ring_contents q)"
      "q_size q' = q_size q"
    using queue_pop_some [OF q(1)] by blast
  then show "fst (queue_pop q) = Some x \<and> ring_contents (snd (queue_pop q)) = xs \<and> ring_ok (snd (queue_pop q)) \<and>
      q_size (snd (queue_pop q)) - 1 = q_size q - 1"
    using q(2) by simp
next
  fix q :: "'a w_queue"
  assume q: "ring_ok q" "ring_contents q = []"
  then have "ring_length q = 0" using length_ring_contents [of q] by simp
  then have "queue_empty q" using ring_begin(2) [OF q(1)] q(1) by (simp add: queue_empty_def slot_def ring_ok_def)
  then show "queue_pop q = (None, q)" by (simp add: queue_pop_def)
qed

lemma queue_init_ok: "0 < n \<Longrightarrow> ring_ok (queue_init junk n) \<and> ring_contents (queue_init junk n) = []"
  by (auto simp: ring_ok_def queue_init_def ring_contents_def ring_length_def)

text \<open>A blocking push that does not wait has room, and a blocking pop that does not wait returns the
  oldest element; both wake a thread of the other kind.\<close>

lemma blocking_turns:
  assumes "ring_ok q"
  shows "queue_push_ex_block (Some x) q = Ok (Wait available_not_empty) \<longleftrightarrow> length (ring_contents q) + 1 = q_size q"
    and "queue_pop_ex q = Wait available \<longleftrightarrow> ring_contents q = []"
    and "queue_pop_ex q = Return d q' sigs \<Longrightarrow> d = Some (hd (ring_contents q)) \<and> sigs = [available_not_empty]"
proof -
  show "queue_push_ex_block (Some x) q = Ok (Wait available_not_empty) \<longleftrightarrow> length (ring_contents q) + 1 = q_size q"
    using queue_full_iff [OF assms] by (auto simp: queue_push_ex_block_def queue_push_def length_ring_contents)
  have pop: "queue_pop q = (if ring_contents q = [] then (None, q) else (Some (hd (ring_contents q)), snd (queue_pop q)))"
    using rq.deq_none [OF assms] rq.deq_some [OF assms] by (cases "ring_contents q") (auto simp: prod_eq_iff)
  show "queue_pop_ex q = Wait available \<longleftrightarrow> ring_contents q = []"
    by (subst queue_pop_ex_def, subst pop) simp
  show "queue_pop_ex q = Return d q' sigs \<Longrightarrow> d = Some (hd (ring_contents q)) \<and> sigs = [available_not_empty]"
    by (subst (asm) queue_pop_ex_def, subst (asm) pop) (auto split: if_splits)
qed

subsection \<open>Properties\<close>

text \<open>
  C36: a queue of size \<open>n\<close> is a first-in first-out queue of at most \<open>n - 1\<close> pointers. From \<^verbatim>\<open>queue_init\<close> on, every sequence
  of pushes of non-null pointers and of pops answers like a list with that bound, ends with the same
  contents, and the 32-bit counter holds their number.
\<close>

theorem queue_is_fifo:
  assumes "0 < n"
  shows "fst (run (fifo_call enq queue_pop) cs (queue_init junk n)) = fst (run (fifo_step (n - 1)) cs []) \<and>
    ring_contents (snd (run (fifo_call enq queue_pop) cs (queue_init junk n))) = snd (run (fifo_step (n - 1)) cs []) \<and>
    q_elements (snd (run (fifo_call enq queue_pop) cs (queue_init junk n))) = of_nat (length (snd (run (fifo_step (n - 1)) cs [])))"
proof -
  note i = queue_init_ok [OF assms, of junk]
  have n: "q_size (queue_init junk n) = n" by (simp add: queue_init_def)
  note r = rq.run_refines [of "queue_init junk n" cs, unfolded n]
  have "q_elements q = of_nat (length (ring_contents q))" if "ring_ok q" for q :: "'a w_queue"
    using that by (simp add: ring_ok_def length_ring_contents)
  with r i show ?thesis by simp
qed

theorem queue_is_fifo_witness:
  "fst (run (fifo_call enq queue_pop) [Enq (1::nat), Enq 2, Enq 3, Deq, Enq 4, Deq, Deq, Deq] (queue_init [] 3)) =
    [Inl True, Inl True, Inl False, Inr (Some 1), Inl True, Inr (Some 2), Inr (Some 4), Inr None]"
proof -
  let ?cs = "[Enq (1::nat), Enq 2, Enq 3, Deq, Enq 4, Deq, Deq, Deq]"
  have "fst (run (fifo_step (3 - 1)) ?cs []) =
      [Inl True, Inl True, Inl False, Inr (Some 1), Inl True, Inr (Some 2), Inr (Some 4), Inr None]" by code_simp
  then show ?thesis using queue_is_fifo [of 3 ?cs "[]"] by (simp only: zero_less_numeral simp_thms)
qed

end
