(* ===== verification/Hash_Op.thy ===== *)
theory Hash_Op
  imports Prelude "HOL-Library.Word"
begin

section \<open>The hash table\<close>

text \<open>
  \<^verbatim>\<open>src/src/common/hash_op/src/hash_op.c\<close> and \<^verbatim>\<open>src/src/common/math_op/src/math_op.c\<close>: a table of chains, keyed by C strings (the
  bytes before the terminator), with a count of its elements. A data pointer is an option, \<open>None\<close> for
  \<^verbatim>\<open>NULL\<close>; a pointer to a node is the rest of its chain from that node on, and a chain is the list of its nodes, so the
  backward pointers \<^verbatim>\<open>prev\<close>, which always lead to the node before, are not fields of their own. An operation that hands data to
  the function that frees it returns the list of what it freed. Whether memory can be allocated is an
  argument. A function that locks is its body.

  The locale \<open>counted_map\<close> is the contract of a map with a count; the hash table is an interpretation.
\<close>

subsection \<open>Primes\<close>

text \<open>The inner loop: the \<open>i\<close> it ends with.\<close>

function trial :: "nat \<Rightarrow> nat \<Rightarrow> nat" where
  "trial val i = (if i \<le> val div 2 then (if val mod i = 0 then i else trial val (i + 2)) else i)"
  by auto
termination by (relation "measure (\<lambda>(val, i). val div 2 + 1 - i)") auto

declare trial.simps [simp del]

lemma trial_1: "trial (Suc 0) 3 = 3"
  by (simp add: trial.simps)

definition passes :: "nat \<Rightarrow> bool" where
  "passes val \<longleftrightarrow> val div 2 \<le> trial val 3"

text \<open>The outer loop, on 32-bit numbers; it adds 2 and ends at 0.\<close>

function getprime_loop :: "nat \<Rightarrow> nat" where
  "getprime_loop val =
     (if passes val then val
      else if (val + 2) mod 2 ^ 32 = 0 then 0
      else getprime_loop ((val + 2) mod 2 ^ 32))"
  by auto
termination
proof (relation "measure (\<lambda>val. if val = 1 then 0 else if val < 2 ^ 32 then 2 ^ 32 + 1 - val else 2 ^ 33)", simp, goal_cases)
  case (1 val)
  then have "val \<noteq> 1" by (auto simp: passes_def trial_1)
  show ?case
  proof (cases "val + 2 < 2 ^ 32")
    case True
    then show ?thesis using \<open>val \<noteq> 1\<close> by auto
  next
    case False
    have "(val + 2) mod 2 ^ 32 < 2 ^ 32" by simp
    moreover have "(val + 2) mod 2 ^ 32 = 1" if "val < 2 ^ 32"
      using that False 1(2) by (cases "val = 2 ^ 32 - 1"; cases "val = 2 ^ 32 - 2") auto
    ultimately show ?thesis using \<open>val \<noteq> 1\<close> by auto
  qed
qed

declare getprime_loop.simps [simp del]

definition os_getprime :: "nat \<Rightarrow> nat" where
  "os_getprime val = getprime_loop (if val mod 2 = 0 then val + 1 else val)"

subsection \<open>The table\<close>

type_synonym 'd chain = "(string \<times> 'd option) list"

record 'd OSHash =
  rows :: nat
  initial_seed :: "32 word"
  hconstant :: "32 word"
  elements :: "32 word"
  free_data_function :: bool
  htable :: "'d chain list"

text \<open>\<open>r1\<close> and \<open>r2\<close> are the two random numbers, \<open>mem\<close> says that both allocations succeed.\<close>

definition OSHash_Create :: "nat \<Rightarrow> nat \<Rightarrow> bool \<Rightarrow> 'd OSHash option" where
  "OSHash_Create r1 r2 mem =
     (let n = os_getprime 32 in
      if \<not> mem \<or> n = 0 then None
      else Some \<lparr>rows = n, initial_seed = of_nat (os_getprime (r1 mod n)), hconstant = of_nat (os_getprime (r2 mod n)),
                 elements = 0, free_data_function = False, htable = replicate (n + 1) []\<rparr>)"

definition OSHash_SetFreeDataPointer :: "'d OSHash \<Rightarrow> int \<times> 'd OSHash" where
  "OSHash_SetFreeDataPointer self = (1, self\<lparr>free_data_function := True\<rparr>)"

text \<open>A \<^verbatim>\<open>char\<close> is signed where the agent is built for x86; the conversion to \<^verbatim>\<open>unsigned int\<close> extends the sign.\<close>

definition uint_of_char :: "char \<Rightarrow> 32 word" where
  "uint_of_char c = (let n = (of_char c :: int) in if n < 128 then word_of_int n else word_of_int (n - 256))"

definition os_genhash :: "'d OSHash \<Rightarrow> string \<Rightarrow> 32 word" where
  "os_genhash self key = fold (\<lambda>c hash_key. hash_key * hconstant self + uint_of_char c) key (initial_seed self)"

definition OSHash_GetIndex :: "'d OSHash \<Rightarrow> string \<Rightarrow> nat" where
  "OSHash_GetIndex self key = unat (os_genhash self key) mod rows self"

text \<open>The loops over one chain: the data of the first node with the key, replacing it, and unlinking the node.\<close>

fun chain_get :: "string \<Rightarrow> 'd chain \<Rightarrow> 'd option option" where
  "chain_get key [] = None"
| "chain_get key ((k, d) # ns) = (if k = key then Some d else chain_get key ns)"

fun chain_set :: "string \<Rightarrow> 'd option \<Rightarrow> 'd chain \<Rightarrow> 'd chain" where
  "chain_set key data [] = []"
| "chain_set key data ((k, d) # ns) = (if k = key then (k, data) # ns else (k, d) # chain_set key data ns)"

fun chain_unlink :: "string \<Rightarrow> 'd chain \<Rightarrow> 'd chain" where
  "chain_unlink key [] = []"
| "chain_unlink key ((k, d) # ns) = (if k = key then ns else (k, d) # chain_unlink key ns)"

abbreviation chain_of :: "'d OSHash \<Rightarrow> string \<Rightarrow> 'd chain" where
  "chain_of self key \<equiv> htable self ! OSHash_GetIndex self key"

abbreviation put_chain :: "'d OSHash \<Rightarrow> string \<Rightarrow> 'd chain \<Rightarrow> 'd OSHash" where
  "put_chain self key c \<equiv> self\<lparr>htable := (htable self)[OSHash_GetIndex self key := c]\<rparr>"

definition data_of :: "'d chain \<Rightarrow> 'd list" where
  "data_of c = List.map_filter snd c"

definition freed_by :: "'d OSHash \<Rightarrow> 'd chain \<Rightarrow> 'd list" where
  "freed_by self c = (if free_data_function self then data_of c else [])"

definition OSHash_Free :: "'d OSHash \<Rightarrow> 'd list" where
  "OSHash_Free self = concat (map (\<lambda>i. freed_by self (htable self ! i)) [0..<rows self + 1])"

text \<open>
  Growing the table frees what it held. \<open>realloc\<close> says that the allocation succeeds. \<open>None\<close>: the old rows are read
  beyond the end of the new table.
\<close>

definition OSHash_setSize :: "'d OSHash \<Rightarrow> nat \<Rightarrow> bool \<Rightarrow> (int \<times> 'd OSHash \<times> 'd list) option" where
  "OSHash_setSize self new_size realloc =
     (if new_size \<le> rows self then Some (1, self, [])
      else
        let n = os_getprime new_size; self' = self\<lparr>rows := n\<rparr> in
        if n = 0 \<or> \<not> realloc then Some (0, self', [])
        else if n + 1 < rows self then None
        else Some (1,
          self'\<lparr>htable := replicate (n + 1) [], initial_seed := of_nat (os_getprime (456 mod n)),
                hconstant := of_nat (os_getprime (789 mod n))\<rparr>,
          concat (map (\<lambda>i. freed_by self (htable self ! i)) [0..<rows self])))"

definition OSHash_setSize_ex :: "'d OSHash \<Rightarrow> nat \<Rightarrow> bool \<Rightarrow> (int \<times> 'd OSHash \<times> 'd list) option" where
  "OSHash_setSize_ex = OSHash_setSize"

definition OSHash_Update :: "'d OSHash \<Rightarrow> string \<Rightarrow> 'd option \<Rightarrow> int \<times> 'd OSHash \<times> 'd list" where
  "OSHash_Update self key data =
     (case chain_get key (chain_of self key) of
        None \<Rightarrow> (0, self, [])
      | Some old \<Rightarrow> (1, put_chain self key (chain_set key data (chain_of self key)), freed_by self [(key, old)]))"

definition OSHash_Update_ex :: "'d OSHash \<Rightarrow> string \<Rightarrow> 'd option \<Rightarrow> int \<times> 'd OSHash \<times> 'd list" where
  "OSHash_Update_ex = OSHash_Update"

definition OSHash_Add_update :: "bool \<Rightarrow> 'd OSHash \<Rightarrow> string \<Rightarrow> 'd option \<Rightarrow> bool \<Rightarrow> int \<times> 'd OSHash" where
  "OSHash_Add_update mem self key data update =
     (let c = chain_of self key in
      case chain_get key c of
        Some _ \<Rightarrow> (1, if update then put_chain self key (chain_set key data c) else self)
      | None \<Rightarrow>
          if \<not> mem then (0, self)
          else (2, (put_chain self key ((key, data) # c))\<lparr>elements := elements self + 1\<rparr>))"

definition OSHash_Add :: "bool \<Rightarrow> 'd OSHash \<Rightarrow> string \<Rightarrow> 'd option \<Rightarrow> int \<times> 'd OSHash" where
  "OSHash_Add mem self key data = OSHash_Add_update mem self key data False"

definition OSHash_Set :: "bool \<Rightarrow> 'd OSHash \<Rightarrow> string \<Rightarrow> 'd option \<Rightarrow> int \<times> 'd OSHash" where
  "OSHash_Set mem self key data = OSHash_Add_update mem self key data True"

definition OSHash_Add_ex :: "bool \<Rightarrow> 'd OSHash \<Rightarrow> string \<Rightarrow> 'd option \<Rightarrow> int \<times> 'd OSHash" where
  "OSHash_Add_ex = OSHash_Add"

definition OSHash_Set_ex :: "bool \<Rightarrow> 'd OSHash \<Rightarrow> string \<Rightarrow> 'd option \<Rightarrow> int \<times> 'd OSHash" where
  "OSHash_Set_ex = OSHash_Set"

text \<open>\<^verbatim>\<open>snprintf\<close> into 12 bytes keeps at most 11 characters.\<close>

definition string_key :: "int \<Rightarrow> string" where
  "string_key key = take 11 (dec_int key)"

definition OSHash_Numeric_Add_ex :: "bool \<Rightarrow> 'd OSHash \<Rightarrow> int \<Rightarrow> 'd option \<Rightarrow> int \<times> 'd OSHash" where
  "OSHash_Numeric_Add_ex mem self key data = OSHash_Add_ex mem self (string_key key) data"

text \<open>The functions that ignore case are given the lower-casing of the key as an argument: it is not part of the sources.\<close>

definition OSHash_Add_ins :: "(string \<Rightarrow> string) \<Rightarrow> bool \<Rightarrow> 'd OSHash \<Rightarrow> string \<Rightarrow> 'd option \<Rightarrow> int \<times> 'd OSHash" where
  "OSHash_Add_ins str_lowercase mem self key data = OSHash_Add_ex mem self (str_lowercase key) data"

definition OSHash_Get :: "'d OSHash \<Rightarrow> string \<Rightarrow> 'd option" where
  "OSHash_Get self key = (case chain_get key (chain_of self key) of None \<Rightarrow> None | Some d \<Rightarrow> d)"

definition OSHash_Get_ex :: "'d OSHash \<Rightarrow> string \<Rightarrow> 'd option" where
  "OSHash_Get_ex = OSHash_Get"

definition OSHash_Get_ex_dup :: "'d OSHash \<Rightarrow> string \<Rightarrow> ('d option \<Rightarrow> 'd option) \<Rightarrow> 'd option" where
  "OSHash_Get_ex_dup self key duplicator = duplicator (OSHash_Get self key)"

definition OSHash_Numeric_Get_ex :: "'d OSHash \<Rightarrow> int \<Rightarrow> 'd option" where
  "OSHash_Numeric_Get_ex self key = OSHash_Get_ex self (string_key key)"

definition OSHash_Get_ins :: "(string \<Rightarrow> string) \<Rightarrow> 'd OSHash \<Rightarrow> string \<Rightarrow> 'd option" where
  "OSHash_Get_ins str_lowercase self key = OSHash_Get_ex self (str_lowercase key)"

definition OSHash_Get_Elem_ex :: "'d OSHash \<Rightarrow> 32 word" where
  "OSHash_Get_Elem_ex self = elements self"

definition OSHash_Delete :: "'d OSHash \<Rightarrow> string \<Rightarrow> 'd option \<times> 'd OSHash" where
  "OSHash_Delete self key =
     (case chain_get key (chain_of self key) of
        None \<Rightarrow> (None, self)
      | Some d \<Rightarrow> (d, (put_chain self key (chain_unlink key (chain_of self key)))\<lparr>elements := elements self - 1\<rparr>))"

definition OSHash_Delete_ex :: "'d OSHash \<Rightarrow> string \<Rightarrow> 'd option \<times> 'd OSHash" where
  "OSHash_Delete_ex = OSHash_Delete"

definition OSHash_Numeric_Delete_ex :: "'d OSHash \<Rightarrow> int \<Rightarrow> 'd option \<times> 'd OSHash" where
  "OSHash_Numeric_Delete_ex self key = OSHash_Delete_ex self (string_key key)"

definition OSHash_Delete_ins :: "(string \<Rightarrow> string) \<Rightarrow> 'd OSHash \<Rightarrow> string \<Rightarrow> 'd option \<times> 'd OSHash" where
  "OSHash_Delete_ins str_lowercase self key = OSHash_Delete_ex self (str_lowercase key)"

text \<open>The copy starts from zeroed memory, and its count stays there.\<close>

definition OSHash_Duplicate :: "'d OSHash \<Rightarrow> 'd OSHash" where
  "OSHash_Duplicate hash =
     \<lparr>rows = rows hash, initial_seed = initial_seed hash, hconstant = hconstant hash, elements = 0,
      free_data_function = free_data_function hash, htable = map (\<lambda>i. htable hash ! i) [0..<rows hash + 1]\<rparr>"

definition OSHash_Duplicate_ex :: "'d OSHash \<Rightarrow> 'd OSHash" where
  "OSHash_Duplicate_ex = OSHash_Duplicate"

text \<open>The first row from \<open>i\<close> on that holds a node.\<close>

function first_node :: "'d OSHash \<Rightarrow> nat \<Rightarrow> nat \<times> 'd chain" where
  "first_node self i =
     (if i \<le> rows self then (if htable self ! i \<noteq> [] then (i, htable self ! i) else first_node self (i + 1)) else (i, []))"
  by auto
termination by (relation "measure (\<lambda>(self, i). rows self + 1 - i)") auto

declare first_node.simps [simp del]

definition OSHash_Begin :: "'d OSHash \<Rightarrow> nat \<times> 'd chain" where
  "OSHash_Begin self = first_node self 0"

definition OSHash_Begin_ex :: "'d OSHash \<Rightarrow> nat \<times> 'd chain" where
  "OSHash_Begin_ex = OSHash_Begin"

definition OSHash_Next :: "'d OSHash \<Rightarrow> nat \<Rightarrow> 'd chain \<Rightarrow> nat \<times> 'd chain" where
  "OSHash_Next self i current = (if current \<noteq> [] \<and> tl current \<noteq> [] then (i, tl current) else first_node self (i + 1))"


text \<open>The nodes of the rows from \<open>i\<close> on.\<close>

definition nodes_from :: "'d OSHash \<Rightarrow> nat \<Rightarrow> 'd chain" where
  "nodes_from self i = concat (map (\<lambda>j. htable self ! j) [i..<rows self + 1])"

lemma first_node_nodes: "first_node self i = (j, c) \<Longrightarrow> nodes_from self i = c @ nodes_from self (j + 1) \<and> (c = [] \<longrightarrow> nodes_from self i = [])"
proof (induction self i arbitrary: j c rule: first_node.induct)
  case (1 self i)
  show ?case
  proof (cases "i \<le> rows self")
    case True
    then have split: "nodes_from self i = htable self ! i @ nodes_from self (i + 1)"
      by (simp add: nodes_from_def upt_conv_Cons del: upt_Suc)
    show ?thesis
      using "1.IH" [of j c] "1.prems" True split by (cases "htable self ! i = []") (auto simp: first_node.simps [of self i])
  next
    case False
    then show ?thesis
      using "1.prems" by (auto simp: first_node.simps [of self i] nodes_from_def)
  qed
qed

text \<open>The loop of \<^verbatim>\<open>OSHash_Clean\<close>: the nodes it frees, from \<open>current\<close> on.\<close>

function clean_loop :: "'d OSHash \<Rightarrow> nat \<Rightarrow> 'd chain \<Rightarrow> 'd chain" where
  "clean_loop self i current =
     (if current = [] then []
      else hd current # clean_loop self (fst (OSHash_Next self i current)) (snd (OSHash_Next self i current)))"
  by auto
termination
proof (relation "measure (\<lambda>(self, i, c). length c + length (nodes_from self (i + 1)))", simp, goal_cases)
  case (1 self i c)
  show ?case
  proof (cases "tl c = []")
    case True
    obtain j d where n: "first_node self (i + 1) = (j, d)" by fastforce
    with 1 True show ?thesis using first_node_nodes [OF n] by (simp add: OSHash_Next_def)
  next
    case False
    with 1 show ?thesis by (simp add: OSHash_Next_def)
  qed
qed

declare clean_loop.simps [simp del]

definition OSHash_Clean :: "'d OSHash \<Rightarrow> 'd list" where
  "OSHash_Clean self = data_of (clean_loop self (fst (OSHash_Begin self)) (snd (OSHash_Begin self)))"

subsection \<open>The contract of a map with a count\<close>

datatype 'd map_op = CAdd bool string "'d option" | CSet bool string "'d option" | CUpdate string "'d option" | CGet string | CDelete string | CCount

datatype 'd reply = Code int | Data "'d option" | Number "32 word"

fun map_step :: "'d map_op \<Rightarrow> (string \<rightharpoonup> 'd option) \<Rightarrow> 'd reply \<times> (string \<rightharpoonup> 'd option)" where
  "map_step (CAdd mem k d) m = (if m k \<noteq> None then (Code 1, m) else if mem then (Code 2, m(k \<mapsto> d)) else (Code 0, m))"
| "map_step (CSet mem k d) m = (if m k \<noteq> None then (Code 1, m(k \<mapsto> d)) else if mem then (Code 2, m(k \<mapsto> d)) else (Code 0, m))"
| "map_step (CUpdate k d) m = (if m k \<noteq> None then (Code 1, m(k \<mapsto> d)) else (Code 0, m))"
| "map_step (CGet k) m = (Data (Option.bind (m k) id), m)"
| "map_step (CDelete k) m = (Data (Option.bind (m k) id), m(k := None))"
| "map_step CCount m = (Number (of_nat (card (dom m))), m)"

fun hash_step :: "'d map_op \<Rightarrow> 'd OSHash \<Rightarrow> 'd reply \<times> 'd OSHash" where
  "hash_step (CAdd mem k d) h = apfst Code (OSHash_Add mem h k d)"
| "hash_step (CSet mem k d) h = apfst Code (OSHash_Set mem h k d)"
| "hash_step (CUpdate k d) h = (case OSHash_Update h k d of (r, h', _) \<Rightarrow> (Code r, h'))"
| "hash_step (CGet k) h = (Data (OSHash_Get h k), h)"
| "hash_step (CDelete k) h = apfst Data (OSHash_Delete h k)"
| "hash_step CCount h = (Number (OSHash_Get_Elem_ex h), h)"

fun replies :: "('o \<Rightarrow> 's \<Rightarrow> 'r \<times> 's) \<Rightarrow> 'o list \<Rightarrow> 's \<Rightarrow> 'r list" where
  "replies step [] s = []"
| "replies step (c # cs) s = fst (step c s) # replies step cs (snd (step c s))"

text \<open>A machine whose every call answers as the map it stands for answers every sequence of calls as that map.\<close>

locale counted_map =
  fixes step :: "'d map_op \<Rightarrow> 'h \<Rightarrow> 'd reply \<times> 'h"
    and ok :: "'h \<Rightarrow> bool"
    and contents :: "'h \<Rightarrow> (string \<rightharpoonup> 'd option)"
  assumes step_law: "ok h \<Longrightarrow> ok (snd (step c h)) \<and> fst (step c h) = fst (map_step c (contents h)) \<and>
      contents (snd (step c h)) = snd (map_step c (contents h))"
begin

lemma answers_as_map: "ok h \<Longrightarrow> replies step cs h = replies map_step cs (contents h)"
proof (induction cs arbitrary: h)
  case (Cons c cs)
  then show ?case using step_law [OF Cons.prems, of c] by simp
qed simp

end

subsection \<open>Facts\<close>

lemma chain_get_None: "chain_get k c = None \<longleftrightarrow> k \<notin> fst ` set c"
  by (induction k c rule: chain_get.induct) auto

lemma chain_get_set: "chain_get k' (chain_set k d c) = (if k' = k \<and> chain_get k c \<noteq> None then Some d else chain_get k' c)"
  by (induction k d c rule: chain_set.induct) auto

lemma chain_get_unlink: "distinct (map fst c) \<Longrightarrow> chain_get k' (chain_unlink k c) = (if k' = k then None else chain_get k' c)"
proof (induction k c rule: chain_unlink.induct)
  case (2 key k d ns)
  then show ?case using chain_get_None [of key ns] by (auto simp: image_iff)
qed simp

lemma chain_set_keys [simp]: "map fst (chain_set k d c) = map fst c"
  by (induction k d c rule: chain_set.induct) auto

lemma chain_unlink_keys: "set (chain_unlink k c) \<subseteq> set c" "distinct (map fst c) \<Longrightarrow> distinct (map fst (chain_unlink k c))"
  by (induction k c rule: chain_unlink.induct) (auto simp: image_iff subset_iff)

lemma GetIndex_cong [simp]:
  "OSHash_GetIndex (h\<lparr>htable := t\<rparr>) = OSHash_GetIndex h" "OSHash_GetIndex (h\<lparr>elements := n\<rparr>) = OSHash_GetIndex h"
  "OSHash_GetIndex (h\<lparr>htable := t, elements := n\<rparr>) = OSHash_GetIndex h"
  by (simp_all add: fun_eq_iff OSHash_GetIndex_def os_genhash_def)

text \<open>The map a table stands for, and what a sound table is.\<close>

definition lookup :: "'d OSHash \<Rightarrow> (string \<rightharpoonup> 'd option)" where
  "lookup h k = chain_get k (chain_of h k)"

definition table_sound :: "'d OSHash \<Rightarrow> bool" where
  "table_sound h \<longleftrightarrow> 0 < rows h \<and> length (htable h) = rows h + 1 \<and> htable h ! rows h = [] \<and>
     (\<forall>i<rows h. distinct (map fst (htable h ! i)) \<and> (\<forall>k\<in>fst ` set (htable h ! i). OSHash_GetIndex h k = i))"

definition count_right :: "'d OSHash \<Rightarrow> bool" where
  "count_right h \<longleftrightarrow> elements h = of_nat (card (dom (lookup h)))"

definition hash_ok :: "'d OSHash \<Rightarrow> bool" where
  "hash_ok h \<longleftrightarrow> table_sound h \<and> count_right h"

lemma index_less: "table_sound h \<Longrightarrow> OSHash_GetIndex h k < rows h"
  by (simp add: table_sound_def OSHash_GetIndex_def)

lemma finite_lookup: "table_sound h \<Longrightarrow> finite (dom (lookup h))"
proof -
  assume ok: "table_sound h"
  have "dom (lookup h) \<subseteq> fst ` set (concat (htable h))"
  proof
    fix k assume "k \<in> dom (lookup h)"
    then have "k \<in> fst ` set (chain_of h k)"
      using chain_get_None [of k "chain_of h k"] by (auto simp: lookup_def)
    moreover have "chain_of h k \<in> set (htable h)"
      using ok index_less [OF ok, of k] by (simp add: table_sound_def)
    ultimately show "k \<in> fst ` set (concat (htable h))" by fastforce
  qed
  then show ?thesis by (rule finite_subset) simp
qed

text \<open>Replacing the chain of one key by one with the same other keys.\<close>

lemma put_chain_sound:
  assumes "table_sound h" "distinct (map fst c)" "\<And>k'. k' \<in> fst ` set c \<Longrightarrow> OSHash_GetIndex h k' = OSHash_GetIndex h k"
  shows "table_sound (put_chain h k c)"
  using assms index_less [OF assms(1), of k] by (auto simp: table_sound_def nth_list_update)

lemma put_chain_lookup:
  assumes "table_sound h"
  shows "lookup (put_chain h k c) k' = (if OSHash_GetIndex h k' = OSHash_GetIndex h k then chain_get k' c else lookup h k')"
  using assms index_less [OF assms, of k] by (auto simp: lookup_def table_sound_def nth_list_update)

lemma lookup_elements [simp]: "lookup (h\<lparr>elements := n\<rparr>) = lookup h" "table_sound (h\<lparr>elements := n\<rparr>) = table_sound h"
  by (simp_all add: fun_eq_iff lookup_def table_sound_def)

lemma chain_facts:
  assumes "table_sound h"
  shows "distinct (map fst (chain_of h k))" "\<And>k'. k' \<in> fst ` set (chain_of h k) \<Longrightarrow> OSHash_GetIndex h k' = OSHash_GetIndex h k"
  using assms index_less [OF assms, of k] by (auto simp: table_sound_def)

lemma replaced:
  fixes d :: "'a option"
  assumes "table_sound h" "lookup h k \<noteq> None"
  defines "h' \<equiv> put_chain h k (chain_set k d (chain_of h k))"
  shows "table_sound h'" "lookup h' = (lookup h)(k \<mapsto> d)"
proof -
  have keys: "fst ` set (chain_set k d c) = fst ` set c" for c :: "'a chain"
    using arg_cong [OF chain_set_keys [of k d c], of set] by (simp only: set_map)
  show "table_sound h'"
    unfolding h'_def
  proof (rule put_chain_sound [OF assms(1)])
    fix k' assume "k' \<in> fst ` set (chain_set k d (chain_of h k))"
    then show "OSHash_GetIndex h k' = OSHash_GetIndex h k"
      unfolding keys by (rule chain_facts(2) [OF assms(1)])
  qed (simp add: chain_facts(1) [OF assms(1)])
  show "lookup h' = (lookup h)(k \<mapsto> d)"
    using assms(2) by (auto simp: h'_def fun_eq_iff put_chain_lookup [OF assms(1)] chain_get_set) (simp_all add: lookup_def)
qed

lemma linked:
  fixes d :: "'a option"
  assumes "table_sound h" "lookup h k = None"
  defines "h' \<equiv> put_chain h k ((k, d) # chain_of h k)"
  shows "table_sound h'" "lookup h' = (lookup h)(k \<mapsto> d)"
proof -
  show "table_sound h'"
    unfolding h'_def
  proof (rule put_chain_sound [OF assms(1)])
    show "distinct (map fst ((k, d) # chain_of h k))"
      using assms(2) chain_facts(1) [OF assms(1), of k] by (simp add: lookup_def chain_get_None)
    fix k' assume "k' \<in> fst ` set ((k, d) # chain_of h k)"
    then consider "k' = k" | "k' \<in> fst ` set (chain_of h k)" by auto
    then show "OSHash_GetIndex h k' = OSHash_GetIndex h k"
      by cases (simp, rule chain_facts(2) [OF assms(1)])
  qed
  show "lookup h' = (lookup h)(k \<mapsto> d)"
    by (auto simp: h'_def fun_eq_iff put_chain_lookup [OF assms(1)]) (simp_all add: lookup_def)
qed

lemma unlinked:
  fixes k :: string
  assumes "table_sound h"
  defines "h' \<equiv> put_chain h k (chain_unlink k (chain_of h k))"
  shows "table_sound h'" "lookup h' = (lookup h)(k := None)"
proof -
  show "table_sound h'"
    unfolding h'_def
  proof (rule put_chain_sound [OF assms(1)])
    fix k' assume "k' \<in> fst ` set (chain_unlink k (chain_of h k))"
    then show "OSHash_GetIndex h k' = OSHash_GetIndex h k"
      using image_mono [OF chain_unlink_keys(1) [of k "chain_of h k"], of fst] chain_facts(2) [OF assms(1), of k' k] by blast
  qed (rule chain_unlink_keys(2) [OF chain_facts(1) [OF assms(1)]])
  show "lookup h' = (lookup h)(k := None)"
    by (auto simp: h'_def fun_eq_iff put_chain_lookup [OF assms(1)] chain_get_unlink chain_facts(1) [OF assms(1)])
      (simp_all add: lookup_def)
qed

lemma card_minus_1:
  assumes "finite (dom m)" "m k \<noteq> None"
  shows "(of_nat (card (dom m)) :: 32 word) - 1 = of_nat (card (dom (m(k := None))))"
proof -
  have "card (dom m) = Suc (card (dom m - {k}))"
    using assms by (metis card_Suc_Diff1 domI domIff)
  then show ?thesis by (simp add: dom_fun_upd)
qed

lemma chain_get_lookup: "chain_get k (chain_of h k) = lookup h k"
  by (simp add: lookup_def)

lemma Add_step:
  assumes "hash_ok h"
  shows "OSHash_Add_update mem h k d upd =
      (if lookup h k \<noteq> None then (1, if upd then put_chain h k (chain_set k d (chain_of h k)) else h)
       else if mem then (2, (put_chain h k ((k, d) # chain_of h k))\<lparr>elements := elements h + 1\<rparr>) else (0, h))"
  by (auto simp: OSHash_Add_update_def chain_get_lookup Let_def split: option.splits)

lemma replaced_ok:
  assumes "hash_ok h" "lookup h k \<noteq> None"
  shows "hash_ok (put_chain h k (chain_set k d (chain_of h k)))"
proof -
  have dom: "dom ((lookup h)(k \<mapsto> d)) = dom (lookup h)"
    using assms(2) by auto
  show ?thesis
    using assms replaced [of h k d] by (simp add: hash_ok_def count_right_def dom del: dom_fun_upd)
qed

lemma linked_ok:
  assumes "hash_ok h" "lookup h k = None"
  shows "hash_ok ((put_chain h k ((k, d) # chain_of h k))\<lparr>elements := elements h + 1\<rparr>)"
proof -
  have "card (dom ((lookup h)(k \<mapsto> d))) = Suc (card (dom (lookup h)))"
    using assms finite_lookup [of h] by (simp add: hash_ok_def domIff)
  then show ?thesis
    using assms linked [of h k d] by (simp add: hash_ok_def count_right_def del: dom_fun_upd)
qed

lemma unlinked_ok:
  assumes "hash_ok h" "lookup h k \<noteq> None"
  shows "hash_ok ((put_chain h k (chain_unlink k (chain_of h k)))\<lparr>elements := elements h - 1\<rparr>)"
  using assms unlinked [of h k] card_minus_1 [of "lookup h" k] finite_lookup [of h]
  by (simp add: hash_ok_def count_right_def del: dom_fun_upd)

lemma Add_law:
  assumes "hash_ok h"
  shows "hash_ok (snd (OSHash_Add_update mem h k d upd)) \<and>
    apfst Code (OSHash_Add_update mem h k d upd) = (fst (map_step (if upd then CSet mem k d else CAdd mem k d) (lookup h)), snd (OSHash_Add_update mem h k d upd)) \<and>
    lookup (snd (OSHash_Add_update mem h k d upd)) = snd (map_step (if upd then CSet mem k d else CAdd mem k d) (lookup h))"
  using assms replaced(2) [of h k d] linked(2) [of h k d] replaced_ok [OF assms, of k d] linked_ok [OF assms, of k d]
  by (simp add: Add_step [OF assms] hash_ok_def)

interpretation hm: counted_map hash_step hash_ok lookup
proof (standard, goal_cases)
  case (1 h c)
  note ok = 1
  have sound: "table_sound h" using ok by (simp add: hash_ok_def)
  show ?case
  proof (cases c)
    case (CAdd mem k d)
    then show ?thesis using Add_law [OF ok, of mem k d False] by (simp add: OSHash_Add_def)
  next
    case (CSet mem k d)
    then show ?thesis using Add_law [OF ok, of mem k d True] by (simp add: OSHash_Set_def)
  next
    case (CUpdate k d)
    then show ?thesis using replaced(2) [OF sound, of k d] replaced_ok [OF ok, of k d] ok
      by (cases "lookup h k") (simp_all add: OSHash_Update_def chain_get_lookup)
  next
    case (CGet k)
    then show ?thesis using ok by (cases "lookup h k") (simp_all add: OSHash_Get_def chain_get_lookup)
  next
    case (CDelete k)
    then show ?thesis using unlinked(2) [OF sound, of k] unlinked_ok [OF ok, of k] ok
      by (cases "lookup h k") (simp_all add: OSHash_Delete_def chain_get_lookup fun_upd_idem)
  next
    case CCount
    then show ?thesis using ok by (simp add: OSHash_Get_Elem_ex_def hash_ok_def count_right_def)
  qed
qed

lemma empty_table: "0 < rows h \<Longrightarrow> htable h = replicate (rows h + 1) [] \<Longrightarrow> table_sound h \<and> lookup h = Map.empty"
proof -
  assume a: "0 < rows h" "htable h = replicate (rows h + 1) []"
  have "OSHash_GetIndex h k < Suc (rows h)" for k
    using a(1) by (simp add: OSHash_GetIndex_def less_SucI)
  then show ?thesis using a by (simp add: table_sound_def lookup_def fun_eq_iff del: replicate_Suc)
qed

lemma Create_ok: "OSHash_Create r1 r2 mem = Some h \<Longrightarrow> hash_ok h \<and> lookup h = Map.empty"
  using empty_table [of h] by (auto simp: OSHash_Create_def Let_def hash_ok_def count_right_def split: if_splits)


text \<open>The numbers of the table's sizes and seeds: odd, without a proper divisor, and never the 0 that the callers check for.\<close>

lemma trial_spec:
  assumes "odd i"
  shows "i \<le> trial val i \<and> odd (trial val i) \<and> (trial val i \<le> val div 2 \<longrightarrow> trial val i dvd val) \<and>
    (\<forall>j. odd j \<longrightarrow> i \<le> j \<longrightarrow> j < trial val i \<longrightarrow> j \<le> val div 2 \<longrightarrow> \<not> j dvd val)"
  using assms
proof (induction val i rule: trial.induct)
  case (1 val i)
  show ?case
  proof (cases "i \<le> val div 2 \<and> val mod i \<noteq> 0")
    case True
    have IH: "i + 2 \<le> trial val (i + 2) \<and> odd (trial val (i + 2)) \<and> (trial val (i + 2) \<le> val div 2 \<longrightarrow> trial val (i + 2) dvd val) \<and>
        (\<forall>j. odd j \<longrightarrow> i + 2 \<le> j \<longrightarrow> j < trial val (i + 2) \<longrightarrow> j \<le> val div 2 \<longrightarrow> \<not> j dvd val)"
      using "1.IH" True "1.prems" by simp
    have step: "trial val i = trial val (i + 2)"
      using True by (simp add: trial.simps [of val i])
    have "\<not> j dvd val" if "odd j" "i \<le> j" "j < trial val i" "j \<le> val div 2" for j
    proof (cases "i + 2 \<le> j")
      case True
      then show ?thesis using IH step that by simp
    next
      case False
      with that \<open>odd i\<close> have "j = i" by (cases "j = i + 1") auto
      then show ?thesis using True by (simp add: dvd_eq_mod_eq_0)
    qed
    then show ?thesis using IH step by auto
  next
    case False
    then have "trial val i = i" by (auto simp: trial.simps [of val i])
    then show ?thesis using False "1.prems" by auto
  qed
qed

lemma passes_no_divisor:
  assumes "passes val" "odd val" "1 < d" "d < val"
  shows "\<not> d dvd val"
proof
  assume dvd: "d dvd val"
  have t: "3 \<le> trial val 3" "trial val 3 \<le> val div 2 \<Longrightarrow> trial val 3 dvd val"
    "\<And>j. odd j \<Longrightarrow> 3 \<le> j \<Longrightarrow> j < trial val 3 \<Longrightarrow> j \<le> val div 2 \<Longrightarrow> \<not> j dvd val"
    using trial_spec [of 3 val] by auto
  have "trial val 3 \<noteq> val div 2"
  proof
    assume eq: "trial val 3 = val div 2"
    have "val = 2 * trial val 3 + 1" using assms(2) eq by presburger
    moreover have "trial val 3 dvd val" using t(2) eq by simp
    ultimately have "trial val 3 dvd 1" by (metis dvd_add_right_iff dvd_triv_right)
    then show False using t(1) by simp
  qed
  then have big: "val div 2 < trial val 3" using assms(1) by (simp add: passes_def)
  obtain e where e: "val = d * e" using dvd by (elim dvdE)
  have "odd d" using assms(2) e by simp
  then have "3 \<le> d" using assms(3) by (cases "d = 2") auto
  moreover have "2 \<le> e" using assms(3,4) e by (cases e; cases "e - 1") auto
  then have "d * 2 \<le> val" unfolding e by (rule mult_le_mono2)
  then have "d \<le> val div 2" by linarith
  ultimately show False using t(3) [OF \<open>odd d\<close>] big dvd by auto
qed

lemma getprime_loop_spec:
  assumes "odd val" "val < 2 ^ 32"
  shows "odd (getprime_loop val) \<and> getprime_loop val < 2 ^ 32 \<and> passes (getprime_loop val) \<and>
    (val \<le> getprime_loop val \<or> getprime_loop val = 1)"
  using assms
proof (induction val rule: getprime_loop.induct)
  case (1 val)
  show ?case
  proof (cases "passes val")
    case True
    then show ?thesis using "1.prems" by (simp add: getprime_loop.simps [of val])
  next
    case False
    let ?v = "(val + 2) mod 2 ^ 32"
    have "even ?v \<longleftrightarrow> even (val + 2)" by (rule dvd_mod_iff) simp
    then have odd: "odd ?v" using "1.prems"(1) by simp
    then have "?v \<noteq> 0" by (intro notI) simp
    then have step: "getprime_loop val = getprime_loop ?v"
      using False by (subst getprime_loop.simps) simp
    have IH: "odd (getprime_loop ?v) \<and> getprime_loop ?v < 2 ^ 32 \<and> passes (getprime_loop ?v) \<and>
        (?v \<le> getprime_loop ?v \<or> getprime_loop ?v = 1)"
      using "1.IH" [OF False \<open>?v \<noteq> 0\<close> odd] by simp
    show ?thesis
    proof (cases "val + 2 < 2 ^ 32")
      case True
      then show ?thesis using IH step by auto
    next
      case wrap: False
      then have "?v = 1" using "1.prems" by (cases "val = 2 ^ 32 - 1"; cases "val = 2 ^ 32 - 2") auto
      moreover have "getprime_loop 1 = 1"
        by (subst getprime_loop.simps) (simp add: passes_def)
      ultimately show ?thesis using IH step by simp
    qed
  qed
qed

lemma os_getprime_spec:
  assumes "val < 2 ^ 32"
  shows "odd (os_getprime val)" "os_getprime val < 2 ^ 32" "val \<le> os_getprime val \<or> os_getprime val = 1"
    "1 < d \<Longrightarrow> d < os_getprime val \<Longrightarrow> \<not> d dvd os_getprime val"
proof -
  let ?v = "if val mod 2 = 0 then val + 1 else val"
  have v: "odd ?v" "?v < 2 ^ 32"
    using assms by (auto simp: even_iff_mod_2_eq_zero)
  note spec = getprime_loop_spec [OF v]
  show "odd (os_getprime val)" "os_getprime val < 2 ^ 32" "val \<le> os_getprime val \<or> os_getprime val = 1"
    using spec by (auto simp: os_getprime_def split: if_splits)
  show "1 < d \<Longrightarrow> d < os_getprime val \<Longrightarrow> \<not> d dvd os_getprime val"
    using spec passes_no_divisor by (auto simp: os_getprime_def)
qed


lemma Create_returns: "\<exists>h. OSHash_Create r1 r2 True = Some h"
proof -
  have "odd (os_getprime 32)" by (rule os_getprime_spec) simp
  then have "os_getprime 32 \<noteq> 0" by (intro notI) simp
  then show ?thesis by (simp add: OSHash_Create_def Let_def)
qed

text \<open>A 32-bit number fits the buffer of its key, so different numbers have different keys.\<close>

lemma dec_nat_length: "n < 10 ^ k \<Longrightarrow> 0 < k \<Longrightarrow> length (dec_nat n) \<le> k"
proof (induction n arbitrary: k rule: dec_nat.induct)
  case (1 n)
  show ?case
  proof (cases "n < 10")
    case True
    then show ?thesis using "1.prems" by (subst dec_nat.simps) simp
  next
    case False
    obtain k' where k: "k = Suc k'" using "1.prems"(2) by (cases k) auto
    have "0 < k'" using False "1.prems"(1) k by (cases k') auto
    moreover have "n div 10 < 10 ^ k'" using "1.prems"(1) k by (simp add: less_mult_imp_div_less)
    ultimately have "length (dec_nat (n div 10)) \<le> k'" using "1.IH" [OF False] by simp
    then show ?thesis using False k by (subst dec_nat.simps) simp
  qed
qed

lemma string_key_inject:
  assumes "- (2 ^ 31) \<le> i" "i < 2 ^ 31" "- (2 ^ 31) \<le> j" "j < 2 ^ 31"
  shows "string_key i = string_key j \<longleftrightarrow> i = j"
proof -
  have "length (dec_int n) \<le> 11" if "- (2 ^ 31) \<le> n" "n < 2 ^ 31" for n
  proof -
    have "nat n < 10 ^ 10" "nat (- n) < 10 ^ 10"
      using that by (cases "n < 0"; simp add: nat_less_iff)+
    then show ?thesis
      using dec_nat_length [of "nat n" 10] dec_nat_length [of "nat (- n)" 10] by (simp add: dec_int_def)
  qed
  then show ?thesis using assms by (simp add: string_key_def)
qed

text \<open>Going through the table with \<^verbatim>\<open>OSHash_Begin\<close> and \<^verbatim>\<open>OSHash_Next\<close> meets every node once, so cleaning frees all data, each once.\<close>

lemma clean_loop_nodes: "current \<noteq> [] \<Longrightarrow> clean_loop self i current = current @ nodes_from self (i + 1)"
proof (induction self i current rule: clean_loop.induct)
  case (1 self i current)
  let ?r = "OSHash_Next self i current"
  have step: "clean_loop self i current = hd current # clean_loop self (fst ?r) (snd ?r)"
    using "1.prems" by (subst clean_loop.simps) simp
  show ?case
  proof (cases "tl current = []")
    case True
    then have one: "current = [hd current]" using "1.prems" by (cases current) auto
    obtain j c where n: "first_node self (i + 1) = (j, c)" by fastforce
    then have r: "?r = (j, c)" using True by (simp add: OSHash_Next_def)
    have "clean_loop self j c = nodes_from self (i + 1)"
    proof (cases "c = []")
      case True
      then have "nodes_from self (i + 1) = []" using first_node_nodes [OF n] by blast
      with True show ?thesis by (simp add: clean_loop.simps [of self j "[]"])
    next
      case False
      then show ?thesis using "1.IH" [OF "1.prems"] first_node_nodes [OF n] r by simp
    qed
    then show ?thesis using step r one by (metis append_Cons append_Nil fst_conv snd_conv)
  next
    case False
    then have "?r = (i, tl current)" using "1.prems" by (simp add: OSHash_Next_def)
    then show ?thesis using "1.IH" [OF "1.prems"] False step "1.prems" by simp
  qed
qed

lemma Clean_frees_all:
  assumes "table_sound h"
  shows "OSHash_Clean h = data_of (concat (htable h))"
proof -
  obtain j c where n: "first_node h 0 = (j, c)" by fastforce
  have all: "nodes_from h 0 = concat (htable h)"
    using assms map_nth [of "htable h"] by (simp add: nodes_from_def table_sound_def del: upt_Suc)
  have "clean_loop h j c = nodes_from h 0"
  proof (cases "c = []")
    case True
    then have "nodes_from h 0 = []" using first_node_nodes [OF n] by blast
    with True show ?thesis by (simp add: clean_loop.simps [of h j "[]"])
  next
    case False
    then show ?thesis using first_node_nodes [OF n] clean_loop_nodes [of c h j] by simp
  qed
  then show ?thesis by (simp add: OSHash_Clean_def OSHash_Begin_def n all)
qed

lemma Free_frees_all:
  assumes "table_sound h" "free_data_function h"
  shows "OSHash_Free h = data_of (concat (htable h))"
proof -
  have "map (\<lambda>i. data_of (htable h ! i)) [0..<length (htable h)] = map data_of (map ((!) (htable h)) [0..<length (htable h)])"
    by simp
  then have "map (\<lambda>i. data_of (htable h ! i)) [0..<rows h + 1] = map data_of (htable h)"
    using assms(1) unfolding map_nth by (simp add: table_sound_def del: upt_Suc)
  moreover have "concat (map data_of cs) = data_of (concat cs)" for cs :: "'a chain list"
    by (induction cs) (simp_all add: data_of_def map_filter_def)
  ultimately show ?thesis using assms(2) by (simp add: OSHash_Free_def freed_by_def del: upt_Suc)
qed

text \<open>
  C39: the hash table is a map. A new table answers every sequence of additions, replacements, updates, look-ups,
  deletions and counts as the finite map does, for any seeds and any collisions of the hash function: the result codes
  (0, 1 and 2, with 0 for a new key when memory is short), the data, and the number of elements modulo \<open>2 ^ 32\<close>.
\<close>

theorem hash_is_map: "\<exists>h. OSHash_Create r1 r2 True = Some h \<and> (\<forall>cs. replies hash_step cs h = replies map_step cs Map.empty)"
proof -
  obtain h :: "'a OSHash" where h: "OSHash_Create r1 r2 True = Some h" using Create_returns by blast
  from Create_ok [OF h] have "hash_ok h" "lookup h = Map.empty" by auto
  then show ?thesis using h hm.answers_as_map [of h] by auto
qed

lemma Duplicate_lookup:
  assumes "table_sound h"
  shows "lookup (OSHash_Duplicate h) = lookup h"
proof -
  have "htable (OSHash_Duplicate h) = htable h"
    using assms map_nth [of "htable h"] by (simp add: OSHash_Duplicate_def table_sound_def del: upt_Suc)
  moreover have "OSHash_GetIndex (OSHash_Duplicate h) = OSHash_GetIndex h"
    by (simp add: fun_eq_iff OSHash_GetIndex_def os_genhash_def OSHash_Duplicate_def)
  ultimately show ?thesis by (simp add: fun_eq_iff lookup_def)
qed

text \<open>
  C40: two operations leave the count of elements wrong. The duplicate of a table holds the same entries and has a count of
  0, so that the first deletion from it wraps the count around; and growing a table drops all its entries and keeps the old count.
\<close>

theorem hash_count_lost:
  assumes "hash_ok h" "OSHash_setSize h new_size True = Some (1, h', freed)" "rows h < new_size"
  shows "lookup (OSHash_Duplicate h) = lookup h \<and> OSHash_Get_Elem_ex (OSHash_Duplicate h) = 0 \<and>
    lookup h' = Map.empty \<and> OSHash_Get_Elem_ex h' = of_nat (card (dom (lookup h)))"
proof -
  have "0 < rows h'" "htable h' = replicate (rows h' + 1) []" "elements h' = elements h"
    using assms(2,3) by (auto simp: OSHash_setSize_def Let_def split: if_splits)
  then show ?thesis
    using empty_table [of h'] Duplicate_lookup [of h] assms(1)
    by (simp add: OSHash_Get_Elem_ex_def OSHash_Duplicate_def hash_ok_def count_right_def)
qed


lemma os_getprime_32: "os_getprime 32 = 37" and os_getprime_38: "os_getprime 38 = 41"
  by (simp_all add: os_getprime_def getprime_loop.simps passes_def trial.simps)

definition example_hash :: "nat OSHash" where
  "example_hash = snd (OSHash_Add True (the (OSHash_Create 5 6 True)) ''a'' (Some 1))"

lemma example_hash_ok: "hash_ok example_hash" "lookup example_hash = [''a'' \<mapsto> Some 1]" "rows example_hash = 37"
proof -
  obtain h :: "nat OSHash" where h: "OSHash_Create 5 6 True = Some h" using Create_returns by blast
  have s: "example_hash = snd (OSHash_Add True h ''a'' (Some 1))"
    by (simp add: example_hash_def h)
  show "hash_ok example_hash" "lookup example_hash = [''a'' \<mapsto> Some 1]"
    using hm.step_law [of h "CAdd True ''a'' (Some 1)"] Create_ok [OF h] by (simp_all add: s)
  have "rows h = 37" using h by (auto simp: OSHash_Create_def os_getprime_32 Let_def)
  then show "rows example_hash = 37"
    by (simp add: example_hash_def h OSHash_Add_def OSHash_Add_update_def Let_def split: option.split)
qed

theorem hash_count_lost_witness:
  "\<exists>h' freed. OSHash_setSize example_hash 38 True = Some (1, h', freed) \<and>
    lookup (OSHash_Duplicate example_hash) = [''a'' \<mapsto> Some 1] \<and> OSHash_Get_Elem_ex (OSHash_Duplicate example_hash) = 0 \<and>
    lookup h' = Map.empty \<and> OSHash_Get_Elem_ex h' = 1"
proof -
  obtain h' fr where run: "OSHash_setSize example_hash 38 True = Some (1, h', fr)"
    by (simp add: OSHash_setSize_def example_hash_ok(3) os_getprime_38 Let_def)
  have "rows example_hash < 38" by (simp add: example_hash_ok(3))
  from hash_count_lost [OF example_hash_ok(1) run this] run show ?thesis by (simp add: example_hash_ok(2))
qed

text \<open>
  When the allocation fails, the number of rows has changed and the table has not: the indices no longer match the table.
\<close>

lemma failed_resize_unsound:
  assumes "table_sound h" "rows h < new_size" "OSHash_setSize h new_size False = Some (r, h', freed)" "os_getprime new_size \<noteq> rows h"
  shows "r = 0 \<and> \<not> table_sound h' \<and> rows h' = os_getprime new_size \<and> htable h' = htable h"
  using assms by (auto simp: OSHash_setSize_def Let_def table_sound_def)

end
