(* ===== verification/Spec2Isabelle.thy ===== *)
theory Spec2Isabelle
  imports Agent_Info Message_Delivery Command_Handler Sqlite_Manager Sca_Event_Handler Queue_Op Hash_Op
begin

text \<open>
  A verification library for the Wazuh agent (\<^verbatim>\<open>src/src\<close>).

  \<^bold>\<open>The program.\<close> The modules of the agent push messages into a persistent queue. The communicator
  authenticates with the manager, sends the queued messages in batches, removes those the manager
  acknowledges, and fetches commands into the same queue. The command handler takes the commands
  out, stores them, has them executed and reports their results. Queue, command store and the
  identity of the agent are tables of one persistence interface, implemented over SQLite. The
  configuration is a YAML document with the files of the agent's groups merged in. The assessment module
  (SCA) reads policies, evaluates their rules on the machine and turns changes into messages. Helper
  libraries in C and C++ are shared by all of these.

  \<^bold>\<open>Foundations.\<close>
  \<^item> \<open>Prelude\<close>: how a call ends (\<open>result\<close>), byte strings, numerals, the collections of rewrite rules.
  \<^item> \<open>Json_Value\<close>: the JSON values and the accessors the agent calls; printing and parsing are a parameter.
  \<^item> \<open>Persistence\<close> (\<^verbatim>\<open>agent/persistence/include\<close>): the interface as a record of its methods, its contract as the locales
    \<open>persistence_laws\<close> and \<open>reliable_persistence\<close>, and a reference implementation in memory that satisfies both.
  \<^item> \<open>Sql_Text\<close>, \<open>Sqlite_Manager\<close> (\<^verbatim>\<open>agent/persistence/src/sqlite_manager.cpp\<close>): the text of every statement and
    its tokens, for any scanner with SQL's lexical rules (\<open>sql_lexer\<close>), and the manager over a database library with the contract
    \<open>sqlite_statements\<close>. Each text spells exactly the statement meant, or none when a text value holds a NUL byte, and the manager
    satisfies \<open>persistence_laws\<close> where the library does not roll a transaction back by itself (\<open>sqlite_engine\<close>).

  \<^bold>\<open>Messages.\<close>
  \<^item> \<open>Storage\<close> (\<^verbatim>\<open>agent/multitype_queue/src/storage.cpp\<close>): storing, reading and removing messages as functions on the list of
    entries, over any database that keeps the contract, failures included.
  \<^item> \<open>Multitype_Queue\<close> (\<^verbatim>\<open>multitype_queue.cpp\<close>): the queue refines three bounded queues; concurrent pushes can overfill it.
  \<^item> \<open>Message_Queue_Utils\<close> (\<^verbatim>\<open>agent/src/message_queue_utils.cpp\<close>), \<open>Communicator\<close> (\<^verbatim>\<open>agent/communicator/src/communicator.cpp\<close>):
    request bodies, authentication, token renewal and the request loop against a script of what it meets.
  \<^item> \<open>Message_Delivery\<close> (\<^verbatim>\<open>agent/src/agent.cpp\<close>): the loop, the queue and the modules as a step relation; no message is lost
    or acknowledged out of order in a running agent, the queue can always drain, and a shutdown discards the queue or
    nothing, by the place in the loop at which it comes.

  \<^bold>\<open>Commands.\<close>
  \<^item> \<open>Command_Entry\<close>, \<open>ICommand_Store\<close>, \<open>Command_Store\<close> (\<^verbatim>\<open>agent/command_handler\<close>): the entries, the interface with its contract
    \<open>command_store_laws\<close>, and the table that implements it for every database that keeps its own contract.
  \<^item> \<open>Command_Dispatch\<close> (\<^verbatim>\<open>agent/src/command_handler_utils.cpp\<close>), \<open>Command_Handler\<close> (\<^verbatim>\<open>command_handler.cpp\<close>): execution against a
    timer, and the handler as a step relation with crashes; a command is dispatched at most once.

  \<^bold>\<open>Identity and configuration.\<close>
  \<^item> \<open>Agent_Info\<close> (\<^verbatim>\<open>agent/agent_info\<close>): replacing the groups is all or nothing, and the next start loads what was saved.
  \<^item> \<open>Configuration\<close> (\<^verbatim>\<open>agent/configuration_parser\<close>): units, ranges, loading, and the merge loop, equal to the recursive merge.

  \<^bold>\<open>Assessment\<close> (\<^verbatim>\<open>modules/sca/src\<close>).
  \<^item> \<open>Sca_Utils\<close>: patterns and their meaning. \<open>Sca_Policy_Check\<close>: the rules; they return where the file system has no
    directory cycle, and \<open>not\<close> complements. \<open>Sca_Policy\<close>: conditions and scans, with a callback that may throw.
    \<open>Sca_Policy_Parser\<close>: policy files; in a scan of what it returns only the callback throws. \<open>Sca_Event_Handler\<close>: events and
    messages, and the callback the scans are given.

  \<^bold>\<open>Helper libraries\<close> (\<^verbatim>\<open>common\<close>).
  \<^item> \<open>Utf8_Op\<close>, \<open>String_Helper\<close>: the UTF-8 validator and filter, and the string functions.
  \<^item> \<open>Queue_Op\<close>, \<open>Hash_Op\<close>: the ring buffer refines a bounded list (\<open>bounded_fifo\<close>), the hash table a finite map
    (\<open>counted_map\<close>), each for every sequence of calls.

  \<^bold>\<open>Modelling.\<close> A class is a record, a method a function from the state to a result and a new state; an exception is
  \<open>Throw\<close>, undefined behaviour and \<^verbatim>\<open>std::terminate\<close> are \<open>Terminate\<close>. Words are used where the code's
  arithmetic wraps: the time and size units (64 bits), the counters of the ring buffer and of the hash table and its
  hash function (32 bits). What another thread or the environment does is an argument (the states a wait sees, the flag
  a scan reads, a script of replies) or a rule of a step relation.

  \<^bold>\<open>Loops.\<close> No definition uses fuel. Loops that end are functions with a termination proof. Three may run forever and are
  partial functions whose \<open>None\<close> is a run that does not end: \<open>replace_loop\<close> (\<^verbatim>\<open>replaceAll\<close>), \<open>replace_variable\<close> and
  \<open>dir_loop\<close>. For each a theorem says when it returns, and for the first two also when it does not.

  \<^bold>\<open>Parameters.\<close> Libraries outside the sources are arguments: JSON printing and parsing, reading YAML, HTTP, token decoding,
  regular expressions, URL syntax, SHA-1, the SQLite library and its scanner, the row database as the event handler uses it, the clock and random
  numbers. What is relied on is a locale or a named hypothesis, and an example instantiates it.

  \<^bold>\<open>Not modelled.\<close>
  \<^item> Input and output around the modelled parts: the HTTP client, the instance communicator, the restart handler, start-up
    and signals, the Windows service, wrappers of system calls, the data provider, cryptography and logging.
  \<^item> Modules whose work is to probe the system or to call external services: file integrity monitoring, rootkit checks,
    active response, inventory, log collector, upgrade and the cloud modules.
  \<^item> Parts that could be modelled in the same way and are not yet: centralized configuration, the module and task
    managers, the row database \<^verbatim>\<open>dbsync\<close>, the list, vector and red-black tree containers, the scan calendar and the time helpers.
  \<^item> Inside modelled parts: the mutexes, the timers and the mutual exclusion of re-authentication in the communicator,
    \<^verbatim>\<open>queue_free\<close>, and \<^verbatim>\<open>OSHash_It\<close>, whose callback may change the chains while they are walked; allocations that fail in the
    UTF-8 filter and the ring buffer; a crash inside the command handler's clean-up; backward pointers of the hash chains;
    node sharing in YAML documents; transactions that SQLite rolls back by itself.
\<close>

end
